(* ===== verification/Prelude.thy ===== *)
theory Prelude
  imports Main "HOL-Library.Word"
begin

text \<open>
  The vocabulary shared by every component.

  \<^item> Rust's machine integers are words of their width. A signed integer is kept as its
    two's-complement word and read with \<^const>\<open>sint\<close> where the code compares it; an
    \<^verbatim>\<open>f32\<close> or \<^verbatim>\<open>f64\<close> is kept as its IEEE bit pattern, which is what
    \<^verbatim>\<open>to_le_bytes\<close> and \<^verbatim>\<open>from_le_bytes\<close> move around.
  \<^item> A \<^verbatim>\<open>usize\<close> is a natural number; the places where the code saturates or truncates
    one are written out for the 64-bit targets the crates are built for.
  \<^item> A Rust \<^verbatim>\<open>String\<close> is a \<^typ>\<open>string\<close> whose characters are the bytes of
    its UTF-8 form; \<open>valid_utf8\<close> is the invariant Rust keeps on it.
  \<^item> A \<^verbatim>\<open>Result<T, E>\<close> is a sum with the error on the left.

  The lemmas are about byte order, UTF-8 scanning and lists read at an offset; they are
  declared to the collections \<open>wire_simps\<close> and \<open>slice_simps\<close> or to the simplifier.
\<close>

unbundle bit_operations_syntax

named_theorems wire_simps \<open>encoders and decoders of fixed wire forms\<close>
named_theorems slice_simps \<open>reading a byte list at an offset\<close>

section \<open>Machine types\<close>

type_synonym byte = "8 word"
type_synonym bytes = "8 word list"
type_synonym u8 = "8 word"
type_synonym u16 = "16 word"
type_synonym u32 = "32 word"
type_synonym u64 = "64 word"
type_synonym i8 = "8 word"
type_synonym i16 = "16 word"
type_synonym i32 = "32 word"
type_synonym i64 = "64 word"
type_synonym f32 = "32 word"
type_synonym f64 = "64 word"

definition usize_max :: nat where
  "usize_max = 2 ^ 64 - 1"

definition saturating_add :: "nat \<Rightarrow> nat \<Rightarrow> nat" where
  "saturating_add a b = min (a + b) usize_max"

definition saturating_mul :: "nat \<Rightarrow> nat \<Rightarrow> nat" where
  "saturating_mul a b = min (a * b) usize_max"

lemma saturating_add_exact: "a + b \<le> usize_max \<Longrightarrow> saturating_add a b = a + b"
  by (simp add: saturating_add_def)

lemma saturating_add_le: "saturating_add a b \<le> a + b"
  by (simp add: saturating_add_def)

lemma saturating_mul_le: "saturating_mul a b \<le> a * b"
  by (simp add: saturating_mul_def)

section \<open>Byte order\<close>

primrec le_bytes :: "nat \<Rightarrow> 'a::len word \<Rightarrow> bytes" where
  "le_bytes 0 w = []"
| "le_bytes (Suc n) w = ucast w # le_bytes n (drop_bit 8 w)"

primrec from_le :: "bytes \<Rightarrow> 'a::len word" where
  "from_le [] = 0"
| "from_le (b # bs) = ucast b OR push_bit 8 (from_le bs)"

definition to_bytes :: "bool \<Rightarrow> 'a::len word \<Rightarrow> bytes" where
  "to_bytes is_be w =
     (if is_be then rev (le_bytes (LENGTH('a) div 8) w) else le_bytes (LENGTH('a) div 8) w)"

definition of_bytes :: "bool \<Rightarrow> bytes \<Rightarrow> 'a::len word" where
  "of_bytes is_be bs = from_le (if is_be then rev bs else bs)"

lemma length_le_bytes [simp]: "length (le_bytes n w) = n"
  by (induction n arbitrary: w) simp_all

text \<open>Unfolds the byte order of a concrete width.\<close>

lemma le_bytes_numeral:
  "le_bytes (numeral k) w = ucast w # le_bytes (pred_numeral k) (drop_bit 8 w)"
  by (simp add: numeral_eq_Suc)

lemma length_to_bytes [simp]: "length (to_bytes be (w :: 'a::len word)) = LENGTH('a) div 8"
  by (simp add: to_bytes_def)

lemma from_le_le_bytes: "from_le (le_bytes n w) = take_bit (8 * n) (w :: 'a::len word)"
proof (induction n arbitrary: w)
  case 0
  then show ?case by simp
next
  case (Suc n)
  show ?case
    by (rule bit_word_eqI)
      (auto simp: Suc bit_or_iff bit_push_bit_iff bit_take_bit_iff bit_drop_bit_eq bit_ucast_iff)
qed

lemma of_bytes_to_bytes [simp]:
  "8 dvd LENGTH('a::len) \<Longrightarrow> of_bytes be (to_bytes be w) = (w :: 'a word)"
  by (cases be) (simp_all add: of_bytes_def to_bytes_def from_le_le_bytes)

text \<open>The bytes a decoder reads back are the ones an encoder wrote, whatever follows them.\<close>

lemma of_bytes_take_to_bytes:
  "8 dvd LENGTH('a::len) \<Longrightarrow>
   of_bytes be (take (LENGTH('a) div 8) (to_bytes be w @ rest)) = (w :: 'a word)"
  by simp

section \<open>Strings and UTF-8\<close>

definition as_bytes :: "string \<Rightarrow> bytes" where
  "as_bytes s = map of_char s"

definition of_utf8 :: "bytes \<Rightarrow> string" where
  "of_utf8 bs = map (\<lambda>b. char_of (unat b)) bs"

lemma length_as_bytes [simp]: "length (as_bytes s) = length s"
  by (simp add: as_bytes_def)

lemma as_bytes_append [simp]: "as_bytes (s @ t) = as_bytes s @ as_bytes t"
  by (simp add: as_bytes_def)

lemma as_bytes_Nil [simp]: "as_bytes [] = []"
  by (simp add: as_bytes_def)

lemma unat_of_char [simp]: "unat (of_char c :: byte) = of_char c"
proof -
  have "(of_char c :: byte) = of_nat (of_char c)"
    by (simp only: of_nat_of_char)
  then show ?thesis
    by (simp only: unat_of_nat) simp
qed

lemma of_utf8_as_bytes [simp]: "of_utf8 (as_bytes s) = s"
  by (simp add: of_utf8_def as_bytes_def comp_def)

lemma as_bytes_inj [simp]: "as_bytes s = as_bytes t \<longleftrightarrow> s = t"
  by (metis of_utf8_as_bytes)

text \<open>
  One step of the scanner behind \<^verbatim>\<open>std::str::from_utf8\<close> and
  \<^verbatim>\<open>String::from_utf8_lossy\<close>: whether the input starts with a well-formed
  character, and how many bytes that character, or the maximal ill-formed prefix, takes.
\<close>

definition is_cont :: "byte \<Rightarrow> bool" where
  "is_cont b \<longleftrightarrow> 0x80 \<le> b \<and> b \<le> 0xBF"

fun cont_tail :: "nat \<Rightarrow> nat \<Rightarrow> bytes \<Rightarrow> bool \<times> nat" where
  "cont_tail 0 seen bs = (True, seen)"
| "cont_tail (Suc n) seen [] = (False, seen)"
| "cont_tail (Suc n) seen (b # bs) =
     (if is_cont b then cont_tail n (Suc seen) bs else (False, seen))"

definition second_ok :: "byte \<Rightarrow> byte \<Rightarrow> bool" where
  "second_ok b0 b1 =
     (if b0 = 0xE0 then 0xA0 \<le> b1 \<and> b1 \<le> 0xBF
      else if b0 = 0xED then 0x80 \<le> b1 \<and> b1 \<le> 0x9F
      else if b0 = 0xF0 then 0x90 \<le> b1 \<and> b1 \<le> 0xBF
      else if b0 = 0xF4 then 0x80 \<le> b1 \<and> b1 \<le> 0x8F
      else is_cont b1)"

fun utf8_step :: "bytes \<Rightarrow> bool \<times> nat" where
  "utf8_step [] = (True, 0)"
| "utf8_step (b # bs) =
     (if b < 0x80 then (True, 1)
      else if b < 0xC2 \<or> 0xF4 < b then (False, 1)
      else case bs of
          [] \<Rightarrow> (False, 1)
        | b1 # rest \<Rightarrow>
            if \<not> second_ok b b1 then (False, 1)
            else if b < 0xE0 then (True, 2)
            else if b < 0xF0 then cont_tail 1 2 rest
            else cont_tail 2 2 rest)"

lemma cont_tail_ge: "seen \<le> snd (cont_tail n seen bs)"
  by (induction n seen bs rule: cont_tail.induct) auto

lemma utf8_step_pos: "0 < snd (utf8_step (b # bs))"
  using cont_tail_ge [of 2 1 "tl bs"] cont_tail_ge [of 2 2 "tl bs"]
  by (auto split: list.splits)

function valid_utf8 :: "bytes \<Rightarrow> bool" where
  "valid_utf8 bs =
     (if bs = [] then True
      else if fst (utf8_step bs) then valid_utf8 (drop (snd (utf8_step bs)) bs) else False)"
  by pat_completeness auto
termination
proof (relation "measure length")
  fix bs :: bytes
  assume "bs \<noteq> []" and "fst (utf8_step bs)"
  then show "(drop (snd (utf8_step bs)) bs, bs) \<in> measure length"
    using utf8_step_pos [of "hd bs" "tl bs"] by (cases bs) (auto simp del: utf8_step.simps)
qed simp

declare valid_utf8.simps [simp del]

text \<open>\<^verbatim>\<open>String::from_utf8_lossy\<close>: each ill-formed prefix becomes U+FFFD.\<close>

definition replacement :: bytes where
  "replacement = [0xEF, 0xBF, 0xBD]"

function utf8_lossy :: "bytes \<Rightarrow> bytes" where
  "utf8_lossy bs =
     (if bs = [] then []
      else (if fst (utf8_step bs) then take (snd (utf8_step bs)) bs else replacement)
             @ utf8_lossy (drop (snd (utf8_step bs)) bs))"
  by pat_completeness auto
termination
proof (relation "measure length")
  fix bs :: bytes
  assume "bs \<noteq> []"
  then show "(drop (snd (utf8_step bs)) bs, bs) \<in> measure length"
    using utf8_step_pos [of "hd bs" "tl bs"] by (cases bs) (auto simp del: utf8_step.simps)
qed simp

declare utf8_lossy.simps [simp del]

lemma valid_utf8_Nil [simp]: "valid_utf8 []"
  by (simp add: valid_utf8.simps)

lemma valid_utf8_ascii [simp]: "b < 0x80 \<Longrightarrow> valid_utf8 (b # bs) \<longleftrightarrow> valid_utf8 bs"
  by (subst valid_utf8.simps) simp

text \<open>On well-formed input the lossy conversion changes nothing.\<close>

lemma utf8_lossy_valid: "valid_utf8 bs \<Longrightarrow> utf8_lossy bs = bs"
proof (induction bs rule: valid_utf8.induct)
  case (1 bs)
  show ?case
  proof (cases "bs = []")
    case True
    then show ?thesis by (simp add: utf8_lossy.simps)
  next
    case False
    with "1.prems" have "fst (utf8_step bs)" "valid_utf8 (drop (snd (utf8_step bs)) bs)"
      by (simp_all add: valid_utf8.simps [of bs] split: if_splits)
    with False "1.IH" show ?thesis
      by (simp add: utf8_lossy.simps [of bs])
  qed
qed

section \<open>IEEE equality on bit patterns\<close>

definition f32_is_nan :: "f32 \<Rightarrow> bool" where
  "f32_is_nan x \<longleftrightarrow> 0x7F800000 < x AND 0x7FFFFFFF"

definition f64_is_nan :: "f64 \<Rightarrow> bool" where
  "f64_is_nan x \<longleftrightarrow> 0x7FF0000000000000 < x AND 0x7FFFFFFFFFFFFFFF"

definition f32_eq :: "f32 \<Rightarrow> f32 \<Rightarrow> bool" where
  "f32_eq x y \<longleftrightarrow> \<not> f32_is_nan x \<and> \<not> f32_is_nan y \<and>
     (x = y \<or> x AND 0x7FFFFFFF = 0 \<and> y AND 0x7FFFFFFF = 0)"

definition f64_eq :: "f64 \<Rightarrow> f64 \<Rightarrow> bool" where
  "f64_eq x y \<longleftrightarrow> \<not> f64_is_nan x \<and> \<not> f64_is_nan y \<and>
     (x = y \<or> x AND 0x7FFFFFFFFFFFFFFF = 0 \<and> y AND 0x7FFFFFFFFFFFFFFF = 0)"

section \<open>Lists\<close>

lemma drop_length_append [slice_simps]: "drop (length xs + n) (xs @ ys) = drop n ys"
  by simp

lemma drop_drop_swap [slice_simps]: "drop n (drop m xs) = drop (m + n) xs"
  by (simp add: add.commute)

lemma take_all_append [slice_simps]: "n = length xs \<Longrightarrow> take n (xs @ ys) = xs"
  by simp

lemma sum_list_map_ge_member: "x \<in> set xs \<Longrightarrow> (f x :: nat) \<le> sum_list (map f xs)"
  by (induction xs) auto

end
