(* ===== verification/Wire.thy ===== *)
theory Wire
  imports Prelude
begin

text \<open>
  The size and string prefixes every pvAccess message and pvData value is built from:
  \<^verbatim>\<open>spvirit-codec/src/encode_common.rs\<close> (encoders) and
  \<^verbatim>\<open>spvirit-codec/src/error.rs\<close> (the error type and the decoders). The locale
  \<open>prefix_codec\<close> states what a length-delimited codec promises to the code that reads
  values one after another; it is interpreted on the size prefix and on the string prefix
  here, and on the scalar codecs by the pvData layer.
\<close>

section \<open>Decode errors\<close>

text \<open>\<^verbatim>\<open>DecodeError\<close>; the fields of a struct variant are kept in the source's order.\<close>

datatype decode_error =
    Truncated nat nat \<comment> \<open>needed, available\<close>
  | ArrayTooLarge string nat nat \<comment> \<open>kind, count, limit\<close>
  | CountExceedsBuffer nat nat nat \<comment> \<open>count, min\_bytes, available\<close>
  | MessageTooLarge nat nat \<comment> \<open>total, limit\<close>
  | UnexpectedSegment u8 \<comment> \<open>flags\<close>
  | SegmentInterrupted u8 u8 \<comment> \<open>expected, got\<close>
  | SegmentCommandMismatch u8 u8 \<comment> \<open>expected, got\<close>
  | UnknownTypeTag u8
  | UnresolvedTypeId u16
  | UnknownUnionSelector nat nat \<comment> \<open>selector, len\<close>
  | DepthExceeded nat nat \<comment> \<open>depth, limit\<close>
  | Malformed string

type_synonym 'a decode_result = "decode_error + 'a"

datatype utf8_policy = Strict | Lossy

section \<open>Encoders\<close>

definition push_size :: "bytes \<Rightarrow> nat \<Rightarrow> bool \<Rightarrow> bytes" where
  "push_size out sz is_be =
     (if sz < 254 then out @ [of_nat sz]
      else (out @ [0xFE]) @ to_bytes is_be (of_nat sz :: u32))"

definition encode_size :: "nat \<Rightarrow> bool \<Rightarrow> bytes" where
  "encode_size sz is_be = push_size [] sz is_be"

definition push_string :: "bytes \<Rightarrow> string \<Rightarrow> bool \<Rightarrow> bytes" where
  "push_string out value is_be = push_size out (length (as_bytes value)) is_be @ as_bytes value"

definition encode_string :: "string \<Rightarrow> bool \<Rightarrow> bytes" where
  "encode_string value is_be = push_string [] value is_be"

section \<open>Decoders\<close>

definition decode_size_prefixed :: "bytes \<Rightarrow> bool \<Rightarrow> (nat \<times> nat) decode_result" where
  "decode_size_prefixed data is_be =
     (if data = [] then Inl (Truncated 1 0)
      else let first = data ! 0 in
        if first = 0xFF then Inr (0, 1)
        else if first < 254 then Inr (unat first, 1)
        else if length data < 5 then Inl (Truncated 5 (length data))
        else Inr (unat (of_bytes is_be [data ! 1, data ! 2, data ! 3, data ! 4] :: u32), 5))"

definition decode_string_prefixed ::
  "bytes \<Rightarrow> bool \<Rightarrow> utf8_policy \<Rightarrow> (string \<times> nat) decode_result" where
  "decode_string_prefixed data is_be policy =
     (case decode_size_prefixed data is_be of
        Inl e \<Rightarrow> Inl e
      | Inr (sz, size_bytes) \<Rightarrow>
          if sz = 0 then Inr ([], size_bytes)
          else
            let end = size_bytes + sz in
            if length data < end then Inl (Truncated end (length data))
            else
              let bs = take sz (drop size_bytes data) in
              case policy of
                Strict \<Rightarrow>
                  if valid_utf8 bs then Inr (of_utf8 bs, end)
                  else Inl (Malformed ''string is not valid UTF-8'')
              | Lossy \<Rightarrow> Inr (of_utf8 (utf8_lossy bs), end))"

text \<open>
  The loop both array decoders of the pvData layer run: read a fixed number of values one
  after another, from an offset into the buffer, and stop at the first error.
\<close>

fun read_many ::
  "(bytes \<Rightarrow> ('a \<times> nat) decode_result) \<Rightarrow> nat \<Rightarrow> bytes \<Rightarrow> nat \<Rightarrow> 'a list
     \<Rightarrow> ('a list \<times> nat) decode_result" where
  "read_many dec 0 data offset acc = Inr (acc, offset)"
| "read_many dec (Suc k) data offset acc =
     (case dec (drop offset data) of
        Inl e \<Rightarrow> Inl e
      | Inr (v, consumed) \<Rightarrow> read_many dec k data (offset + consumed) (acc @ [v]))"

section \<open>Laws of the size prefix\<close>

lemma push_size_append: "push_size out sz be = out @ encode_size sz be"
  by (simp add: push_size_def encode_size_def)

lemma push_string_append: "push_string out s be = out @ encode_string s be"
  by (simp add: push_string_def encode_string_def push_size_append)

lemma encode_string_eq: "encode_string s be = encode_size (length s) be @ as_bytes s"
  by (simp add: encode_string_def push_string_def push_size_append)

lemma length_encode_size: "length (encode_size n be) = (if n < 254 then 1 else 5)"
  by (simp add: encode_size_def push_size_def)

lemma encode_size_not_Nil [simp]: "encode_size n be \<noteq> []"
  by (simp add: encode_size_def push_size_def)

lemma encode_string_not_Nil [simp]: "encode_string s be \<noteq> []"
  by (simp add: encode_string_eq)

lemma decode_encode_size_gen:
  "decode_size_prefixed (encode_size n be @ rest) be =
     Inr (if n < 254 then n else n mod 2 ^ 32, length (encode_size n be))"
proof (cases "n < 254")
  case True
  have "(of_nat n :: byte) \<noteq> 0xFF" "(of_nat n :: byte) < 254" "unat (of_nat n :: byte) = n"
    using True by (auto simp: word_less_nat_alt unat_of_nat word_unat_eq_iff)
  then show ?thesis
    using True by (simp add: encode_size_def push_size_def decode_size_prefixed_def)
next
  case False
  define bs where "bs = to_bytes be (of_nat n :: u32)"
  have len: "length bs = 4" by (simp add: bs_def)
  then obtain a b c d where bs: "bs = [a, b, c, d]"
    by (auto simp: numeral_eq_Suc length_Suc_conv)
  have "unat (of_bytes be bs :: u32) = n mod 2 ^ 32"
    by (simp add: bs_def unat_of_nat)
  then show ?thesis
    using False bs by (simp add: encode_size_def push_size_def decode_size_prefixed_def
        flip: bs_def)
qed

lemma decode_encode_size [wire_simps]:
  "n < 2 ^ 32 \<Longrightarrow>
   decode_size_prefixed (encode_size n be @ rest) be = Inr (n, length (encode_size n be))"
  by (simp add: decode_encode_size_gen)

lemma decode_size_bounds:
  "decode_size_prefixed data be = Inr (n, c) \<Longrightarrow> 0 < c \<and> c \<le> length data"
  by (cases data) (auto simp: decode_size_prefixed_def Let_def split: if_splits)

lemma decode_size_lt:
  assumes "decode_size_prefixed data be = Inr (n, c)"
  shows "n < 2 ^ 32"
proof -
  have "unat (w :: u32) < 2 ^ 32" for w
    using unsigned_less [of w, where ?'a = nat] by simp
  moreover have "unat (w :: byte) < 2 ^ 32" for w
    using unsigned_less [of w, where ?'a = nat] by simp
  ultimately show ?thesis
    using assms by (auto simp: decode_size_prefixed_def Let_def split: if_splits)
qed

section \<open>Laws of the string prefix\<close>

definition wf_string :: "string \<Rightarrow> bool" where
  "wf_string s \<longleftrightarrow> valid_utf8 (as_bytes s) \<and> length s < 2 ^ 32"

lemma wf_string_Nil [simp]: "wf_string []"
  by (simp add: wf_string_def)

lemma decode_encode_string [wire_simps]:
  "wf_string s \<Longrightarrow>
   decode_string_prefixed (encode_string s be @ rest) be Strict
     = Inr (s, length (encode_string s be))"
  by (simp add: wf_string_def decode_string_prefixed_def encode_string_eq decode_encode_size
      Let_def)

lemma decode_encode_string_any_policy:
  "wf_string s \<Longrightarrow>
   decode_string_prefixed (encode_string s be @ rest) be policy
     = Inr (s, length (encode_string s be))"
  by (cases policy)
    (simp_all add: wf_string_def decode_string_prefixed_def encode_string_eq
      decode_encode_size utf8_lossy_valid Let_def)

lemma decode_string_bounds:
  "decode_string_prefixed data be p = Inr (s, c) \<Longrightarrow> 0 < c \<and> c \<le> length data"
  by (auto simp: decode_string_prefixed_def Let_def
      split: sum.splits prod.splits if_splits utf8_policy.splits dest!: decode_size_bounds)

section \<open>What a prefix codec promises\<close>

locale prefix_codec =
  fixes enc :: "'a \<Rightarrow> bytes"
    and dec :: "bytes \<Rightarrow> ('a \<times> nat) decode_result"
    and ok :: "'a \<Rightarrow> bool"
  assumes round_trip: "ok x \<Longrightarrow> dec (enc x @ rest) = Inr (x, length (enc x))"
    and bounds: "dec bs = Inr (y, c) \<Longrightarrow> 0 < c \<and> c \<le> length bs"
begin

text \<open>No valid encoding is a proper prefix of another, so a stream of them splits uniquely.\<close>

lemma unique_split:
  assumes "ok x" "ok y" "enc x @ r = enc y @ s"
  shows "x = y \<and> r = s"
proof -
  have "dec (enc x @ r) = dec (enc y @ s)"
    using assms(3) by simp
  then have "x = y \<and> length (enc x) = length (enc y)"
    using round_trip [OF assms(1), of r] round_trip [OF assms(2), of s] by simp
  with assms(3) show ?thesis by simp
qed

lemma enc_pos: "ok x \<Longrightarrow> 0 < length (enc x)"
  using round_trip [of x "[]"] bounds [of "enc x" x "length (enc x)"] by simp

lemma read_many_round_trip:
  assumes "list_all ok xs"
  shows "read_many dec (length xs) (pre @ concat (map enc xs) @ rest) (length pre) acc
    = Inr (acc @ xs, length pre + length (concat (map enc xs)))"
  using assms
proof (induction xs arbitrary: pre acc)
  case Nil
  then show ?case by simp
next
  case (Cons x xs)
  have step: "dec (drop (length pre) (pre @ concat (map enc (x # xs)) @ rest))
      = Inr (x, length (enc x))"
    using Cons.prems by (simp add: round_trip)
  have "read_many dec (length xs) ((pre @ enc x) @ concat (map enc xs) @ rest)
      (length (pre @ enc x)) (acc @ [x])
    = Inr ((acc @ [x]) @ xs, length (pre @ enc x) + length (concat (map enc xs)))"
    using Cons.prems by (intro Cons.IH) simp
  with step show ?case by simp
qed

lemma read_many_bounds:
  assumes "read_many dec k data offset acc = Inr (ys, c)" "offset \<le> length data"
  shows "offset + k \<le> c \<and> c \<le> length data \<and> length ys = length acc + k"
  using assms
proof (induction k arbitrary: offset acc)
  case 0
  then show ?case by simp
next
  case (Suc k)
  from Suc.prems(1) obtain v n where step: "dec (drop offset data) = Inr (v, n)"
    and rest: "read_many dec k data (offset + n) (acc @ [v]) = Inr (ys, c)"
    by (auto split: sum.splits)
  from bounds [OF step] Suc.prems(2) have "0 < n" "offset + n \<le> length data"
    by auto
  with Suc.IH [OF rest] show ?case by auto
qed

end

interpretation size_codec: prefix_codec "\<lambda>n. encode_size n be"
    "\<lambda>data. decode_size_prefixed data be" "\<lambda>n. n < 2 ^ 32" for be
  by unfold_locales (auto simp: decode_encode_size dest: decode_size_bounds)

interpretation string_codec: prefix_codec "\<lambda>s. encode_string s be"
    "\<lambda>data. decode_string_prefixed data be Strict" wf_string for be
  by unfold_locales (auto simp: decode_encode_string dest: decode_string_bounds)

section \<open>Properties of the prefixes\<close>

text \<open>C4: size round trip. Whatever follows it, an encoded size is read back as the size modulo
  \<open>2 ^ 32\<close>, from one byte below 254 and from five bytes otherwise. So every size below
  \<open>2 ^ 32\<close> survives, and a larger one is silently truncated by the cast in
  \<^verbatim>\<open>push_size\<close>.\<close>

theorem size_round_trip:
  "decode_size_prefixed (encode_size n be @ rest) be = Inr (n mod 2 ^ 32, if n < 254 then 1 else 5)"
  by (simp add: decode_encode_size_gen length_encode_size)

text \<open>C5: string round trip. A string of valid UTF-8 whose length fits 32 bits is read back
  unchanged under both decoding policies, whatever follows it, and the bytes consumed are exactly
  the bytes written.\<close>

theorem string_round_trip:
  assumes "valid_utf8 (as_bytes s)" "length s < 2 ^ 32"
  shows "decode_string_prefixed (encode_string s be @ rest) be policy =
    Inr (s, length (encode_string s be))"
  using assms by (intro decode_encode_string_any_policy) (simp add: wf_string_def)

theorem string_round_trip_witness:
  "decode_string_prefixed (encode_string ''pv'' True @ [1, 2]) True Lossy =
     Inr (''pv'', length (encode_string ''pv'' True))"
  by (rule string_round_trip) (simp_all add: as_bytes_def)

end
