(* ===== verification/Segment.thy ===== *)
theory Segment
  imports Wire
begin

text \<open>
  Reassembly of segmented messages: \<^verbatim>\<open>spvirit-codec/src/segment.rs\<close>. The state of a
  \<^verbatim>\<open>SegmentReassembler\<close> is the record \<open>reassembler\<close>; \<open>push\<close> is its one
  operation and returns the result together with the next state, since it changes the state
  on its error paths too. A header is the eight-byte list the caller read.
\<close>

section \<open>State and operations\<close>

definition DEFAULT_MAX_MESSAGE_BYTES :: nat where
  "DEFAULT_MAX_MESSAGE_BYTES = 268435456"

datatype segment_outcome = Complete bytes | Pending | Control bytes

record pending_msg =
  p_header :: bytes
  p_payloads :: "bytes list"
  p_total :: nat

record reassembler =
  max_bytes :: nat
  pending :: "pending_msg option"

definition with_max_bytes :: "nat \<Rightarrow> reassembler" where
  "with_max_bytes m = \<lparr>max_bytes = min m (2 ^ 32 - 1), pending = None\<rparr>"

definition new_reassembler :: reassembler where
  "new_reassembler = with_max_bytes DEFAULT_MAX_MESSAGE_BYTES"

definition max_message_bytes :: "reassembler \<Rightarrow> nat" where
  "max_message_bytes r = max_bytes r"

definition pending_bytes :: "reassembler \<Rightarrow> nat" where
  "pending_bytes r = (case pending r of None \<Rightarrow> 0 | Some p \<Rightarrow> p_total p)"

definition reset :: "reassembler \<Rightarrow> reassembler" where
  "reset r = r\<lparr>pending := None\<rparr>"

text \<open>\<^verbatim>\<open>finish\<close>: the first segment's header with the segment bits cleared and the length
  rewritten in the message's own byte order, then the payloads in arrival order.\<close>

definition finish :: "pending_msg \<Rightarrow> bytes" where
  "finish p =
     (let header = p_header p;
          is_be = (header ! 2 AND 0x80 \<noteq> 0);
          header = header[2 := header ! 2 AND NOT 0x30];
          len = to_bytes is_be (of_nat (p_total p) :: u32)
      in take 4 header @ len @ concat (p_payloads p))"

definition push :: "reassembler \<Rightarrow> bytes \<Rightarrow> bytes \<Rightarrow>
    segment_outcome decode_result \<times> reassembler" where
  "push r header payload =
     (let flags = header ! 2; command = header ! 3 in
      if flags AND 0x01 \<noteq> 0 then (Inr (Control (header @ payload)), r)
      else let code = drop_bit 4 (flags AND 0x30) in
      if code = 0 then
        (case pending r of
           Some p \<Rightarrow>
             (Inl (SegmentInterrupted (p_header p ! 3) command), r\<lparr>pending := None\<rparr>)
         | None \<Rightarrow> (Inr (Complete (header @ payload)), r\<lparr>pending := None\<rparr>))
      else if code = 1 then
        (if pending r \<noteq> None then (Inl (UnexpectedSegment flags), r\<lparr>pending := None\<rparr>)
         else if length payload > max_bytes r then
           (Inl (MessageTooLarge (length payload) (max_bytes r)), r\<lparr>pending := None\<rparr>)
         else (Inr Pending, r\<lparr>pending := Some
           \<lparr>p_header = header, p_payloads = [payload], p_total = length payload\<rparr>\<rparr>))
      else
        (case pending r of
           None \<Rightarrow> (Inl (UnexpectedSegment flags), r\<lparr>pending := None\<rparr>)
         | Some p \<Rightarrow>
             if p_header p ! 3 \<noteq> command \<or> p_header p ! 2 AND 0x40 \<noteq> flags AND 0x40 then
               (Inl (SegmentCommandMismatch (p_header p ! 3) command), r\<lparr>pending := None\<rparr>)
             else let total = p_total p + length payload in
               if total > max_bytes r then
                 (Inl (MessageTooLarge total (max_bytes r)), r\<lparr>pending := None\<rparr>)
               else let p' = p\<lparr>p_total := total, p_payloads := p_payloads p @ [payload]\<rparr> in
                 if code = 2 then (Inr (Complete (finish p')), r\<lparr>pending := None\<rparr>)
                 else (Inr Pending, r\<lparr>pending := Some p'\<rparr>)))"

text \<open>A connection feeds frames one after another and sees the outcome of each.\<close>

fun push_all :: "reassembler \<Rightarrow> (bytes \<times> bytes) list \<Rightarrow>
    segment_outcome decode_result list \<times> reassembler" where
  "push_all r [] = ([], r)"
| "push_all r ((h, p) # fs) =
     (let (o1, r1) = push r h p; (os, r2) = push_all r1 fs in (o1 # os, r2))"

lemma push_all_Cons:
  "push_all r ((h, p) # fs) =
     (fst (push r h p) # fst (push_all (snd (push r h p)) fs),
      snd (push_all (snd (push r h p)) fs))"
  by (simp split: prod.splits)

declare push_all.simps(2) [simp del]

section \<open>Invariant\<close>

definition reassembler_inv :: "reassembler \<Rightarrow> bool" where
  "reassembler_inv r \<longleftrightarrow>
     max_bytes r < 2 ^ 32 \<and>
     (case pending r of
        None \<Rightarrow> True
      | Some p \<Rightarrow>
          length (p_header p) = 8 \<and> p_header p ! 2 AND 0x01 = 0 \<and>
          p_payloads p \<noteq> [] \<and> p_total p = length (concat (p_payloads p)) \<and>
          p_total p \<le> max_bytes r)"

lemma reassembler_inv_with_max_bytes: "reassembler_inv (with_max_bytes m)"
  by (simp add: reassembler_inv_def with_max_bytes_def)

lemma reassembler_inv_reset: "reassembler_inv r \<Longrightarrow> reassembler_inv (reset r)"
  by (simp add: reassembler_inv_def reset_def)

lemma push_max_bytes [simp]: "max_bytes (snd (push r h p)) = max_bytes r"
  by (simp add: push_def Let_def split: option.splits)

lemma push_inv:
  assumes "reassembler_inv r" "length h = 8"
  shows "reassembler_inv (snd (push r h p))"
  using assms
  by (auto simp: push_def reassembler_inv_def Let_def split: option.splits)

lemma push_all_inv:
  "reassembler_inv r \<Longrightarrow> \<forall>(h, p) \<in> set fs. length h = 8 \<Longrightarrow>
   reassembler_inv (snd (push_all r fs))"
proof (induction fs arbitrary: r)
  case Nil
  then show ?case by simp
next
  case (Cons f fs)
  obtain h p where f: "f = (h, p)" by (cases f)
  have "reassembler_inv (snd (push r h p))"
    using Cons.prems f by (intro push_inv) auto
  then have "reassembler_inv (snd (push_all (snd (push r h p)) fs))"
    using Cons.prems(2) by (intro Cons.IH) auto
  then show ?case
    by (simp add: f push_all_Cons)
qed

section \<open>Behaviour of single frames\<close>

definition is_control :: "bytes \<Rightarrow> bool" where
  "is_control h \<longleftrightarrow> h ! 2 AND 0x01 \<noteq> 0"

definition seg_code :: "bytes \<Rightarrow> u8" where
  "seg_code h = drop_bit 4 (h ! 2 AND 0x30)"

lemma push_control: "is_control h \<Longrightarrow> push r h p = (Inr (Control (h @ p)), r)"
  by (simp add: push_def is_control_def Let_def)

lemma push_error_resets:
  "push r h p = (Inl e, r') \<Longrightarrow> pending r' = None"
  by (auto simp: push_def Let_def split: option.splits if_splits)

lemma push_first:
  assumes "\<not> is_control h" "seg_code h = 1" "pending r = None" "length p \<le> max_bytes r"
  shows "push r h p =
    (Inr Pending, r\<lparr>pending := Some \<lparr>p_header = h, p_payloads = [p], p_total = length p\<rparr>\<rparr>)"
  using assms by (simp add: push_def is_control_def seg_code_def Let_def)

text \<open>A continuation segment belongs to the pending message when its command and direction
  bits are those of the first segment.\<close>

definition continues :: "pending_msg \<Rightarrow> bytes \<Rightarrow> bool" where
  "continues m h \<longleftrightarrow> \<not> is_control h \<and> h ! 3 = p_header m ! 3 \<and>
     h ! 2 AND 0x40 = p_header m ! 2 AND 0x40"

definition absorb :: "pending_msg \<Rightarrow> bytes \<Rightarrow> pending_msg" where
  "absorb m p = m\<lparr>p_total := p_total m + length p, p_payloads := p_payloads m @ [p]\<rparr>"

lemma absorb_simps [simp]:
  "p_header (absorb m p) = p_header m"
  "p_total (absorb m p) = p_total m + length p"
  "p_payloads (absorb m p) = p_payloads m @ [p]"
  by (simp_all add: absorb_def)

lemma push_middle:
  assumes "pending r = Some m" "continues m h" "seg_code h = 3"
    "p_total m + length p \<le> max_bytes r"
  shows "push r h p = (Inr Pending, r\<lparr>pending := Some (absorb m p)\<rparr>)"
  using assms
  by (auto simp: push_def continues_def is_control_def seg_code_def absorb_def Let_def)

lemma push_last:
  assumes "pending r = Some m" "continues m h" "seg_code h = 2"
    "p_total m + length p \<le> max_bytes r"
  shows "push r h p = (Inr (Complete (finish (absorb m p))), r\<lparr>pending := None\<rparr>)"
  using assms
  by (auto simp: push_def continues_def is_control_def seg_code_def absorb_def Let_def)

section \<open>Streams of frames\<close>

text \<open>The frames that carry message data, and the outcomes that are not control frames
  handed back.\<close>

definition data_frames :: "(bytes \<times> bytes) list \<Rightarrow> (bytes \<times> bytes) list" where
  "data_frames fs = filter (\<lambda>(h, p). \<not> is_control h) fs"

definition is_control_outcome :: "segment_outcome decode_result \<Rightarrow> bool" where
  "is_control_outcome out \<longleftrightarrow> (case out of Inr (Control _) \<Rightarrow> True | _ \<Rightarrow> False)"

lemma push_data_outcome: "\<not> is_control h \<Longrightarrow> \<not> is_control_outcome (fst (push r h p))"
  by (simp add: push_def is_control_def is_control_outcome_def Let_def split: option.splits)

lemma push_all_data_frames:
  "filter (\<lambda>out. \<not> is_control_outcome out) (fst (push_all r fs)) = fst (push_all r (data_frames fs))
   \<and> snd (push_all r fs) = snd (push_all r (data_frames fs))"
proof (induction fs arbitrary: r)
  case Nil
  then show ?case by (simp add: data_frames_def)
next
  case (Cons f fs)
  obtain h p where f: "f = (h, p)" by (cases f)
  show ?case
  proof (cases "is_control h")
    case True
    then show ?thesis
      using Cons [of r]
      by (simp add: f push_all_Cons push_control data_frames_def is_control_outcome_def)
  next
    case False
    then show ?thesis
      using Cons [of "snd (push r h p)"]
      by (simp add: f push_all_Cons data_frames_def push_data_outcome)
  qed
qed

lemma push_all_middles:
  assumes "pending r = Some m" "\<forall>(h, p) \<in> set fs. continues m h \<and> seg_code h = 3"
    "p_total m + length (concat (map snd fs)) \<le> max_bytes r"
  shows "push_all r fs =
    (replicate (length fs) (Inr Pending), r\<lparr>pending := Some (fold (\<lambda>(h, p) m. absorb m p) fs m)\<rparr>)"
  using assms
proof (induction fs arbitrary: r m)
  case Nil
  then show ?case by simp
next
  case (Cons f fs)
  obtain h p where f: "f = (h, p)" by (cases f)
  have one: "push r h p = (Inr Pending, r\<lparr>pending := Some (absorb m p)\<rparr>)"
    using Cons.prems by (intro push_middle) (auto simp: f)
  have "push_all (r\<lparr>pending := Some (absorb m p)\<rparr>) fs =
    (replicate (length fs) (Inr Pending),
     (r\<lparr>pending := Some (absorb m p)\<rparr>)\<lparr>pending := Some (fold (\<lambda>(h, p) m. absorb m p) fs (absorb m p))\<rparr>)"
    using Cons.prems
    by (intro Cons.IH) (auto simp: f continues_def)
  then show ?case
    by (simp add: f push_all_Cons one)
qed

lemma push_all_append:
  "push_all r (fs @ gs) =
     (fst (push_all r fs) @ fst (push_all (snd (push_all r fs)) gs),
      snd (push_all (snd (push_all r fs)) gs))"
proof (induction fs arbitrary: r)
  case (Cons f fs)
  then show ?case by (cases f) (simp add: push_all_Cons)
qed simp

lemma fold_absorb:
  "p_header (fold (\<lambda>(h, p) m. absorb m p) fs m) = p_header m"
  "p_total (fold (\<lambda>(h, p) m. absorb m p) fs m) = p_total m + length (concat (map snd fs))"
  "p_payloads (fold (\<lambda>(h, p) m. absorb m p) fs m) = p_payloads m @ map snd fs"
  by (induction fs arbitrary: m) auto

text \<open>The message a run of segments stands for: the first header without its segment bits,
  the total length in the header's byte order, and the payloads one after another.\<close>

definition reassembled :: "bytes \<Rightarrow> bytes list \<Rightarrow> bytes" where
  "reassembled h ps =
     [h ! 0, h ! 1, h ! 2 AND NOT 0x30, h ! 3]
       @ to_bytes (h ! 2 AND 0x80 \<noteq> 0) (of_nat (length (concat ps)) :: u32) @ concat ps"

lemma take4_list_update:
  "length h = 8 \<Longrightarrow> take 4 (h[2 := x]) = [h ! 0, h ! 1, x, h ! 3]"
  by (auto simp: numeral_eq_Suc length_Suc_conv)

lemma finish_eq:
  assumes "length (p_header m) = 8" "p_total m = length (concat (p_payloads m))"
  shows "finish m = reassembled (p_header m) (p_payloads m)"
  using assms by (simp add: finish_def reassembled_def Let_def take4_list_update)

definition segment_run :: "bytes \<Rightarrow> (bytes \<times> bytes) list \<Rightarrow> bool" where
  "segment_run h1 rest \<longleftrightarrow>
     rest \<noteq> [] \<and> \<not> is_control h1 \<and> seg_code h1 = 1 \<and>
     (\<forall>(h, p) \<in> set rest. \<not> is_control h \<and> h ! 3 = h1 ! 3 \<and> h ! 2 AND 0x40 = h1 ! 2 AND 0x40) \<and>
     (\<forall>(h, p) \<in> set (butlast rest). seg_code h = 3) \<and> seg_code (fst (last rest)) = 2"

lemma push_all_segment_run:
  assumes run: "segment_run h1 rest" and h1: "length h1 = 8" and r: "pending r = None"
    and fits: "length (concat (p1 # map snd rest)) \<le> max_bytes r"
  shows "push_all r ((h1, p1) # rest) =
    (replicate (length rest) (Inr Pending) @ [Inr (Complete (reassembled h1 (p1 # map snd rest)))],
     r)"
proof -
  define m where "m = \<lparr>p_header = h1, p_payloads = [p1], p_total = length p1\<rparr>"
  obtain mids hl pl where rest: "rest = mids @ [(hl, pl)]"
    using run unfolding segment_run_def by (metis append_butlast_last_id surj_pair)
  define m' where "m' = fold (\<lambda>(h, p) m. absorb m p) mids m"
  have first: "push r h1 p1 = (Inr Pending, r\<lparr>pending := Some m\<rparr>)"
    unfolding m_def using run r fits by (intro push_first) (auto simp: segment_run_def)
  have "push_all (r\<lparr>pending := Some m\<rparr>) mids =
      (replicate (length mids) (Inr Pending), (r\<lparr>pending := Some m\<rparr>)\<lparr>pending := Some m'\<rparr>)"
    unfolding m'_def using run fits
    by (intro push_all_middles) (auto simp: rest segment_run_def continues_def m_def)
  moreover have "push (r\<lparr>pending := Some m'\<rparr>) hl pl =
      (Inr (Complete (finish (absorb m' pl))), r\<lparr>pending := None\<rparr>)"
    using run fits push_last [of "r\<lparr>pending := Some m'\<rparr>" m' hl pl]
    by (auto simp: rest segment_run_def continues_def m'_def fold_absorb m_def)
  moreover have "finish (absorb m' pl) = reassembled h1 (p1 # map snd rest)"
    using h1 by (subst finish_eq) (auto simp: m'_def fold_absorb m_def rest)
  moreover have "r\<lparr>pending := None\<rparr> = r"
    using r by simp
  ultimately show ?thesis
    by (simp add: rest push_all_Cons first push_all_append replicate_append_same)
qed

lemma reassembled_fields:
  assumes "length (concat ps) < 2 ^ 32"
  shows "reassembled h ps ! 2 AND 0x30 = 0"
    and "reassembled h ps ! 3 = h ! 3"
    and "reassembled h ps ! 2 AND 0x80 = h ! 2 AND 0x80"
    and "unat (of_bytes (h ! 2 AND 0x80 \<noteq> 0) (take 4 (drop 4 (reassembled h ps))) :: u32)
      = length (reassembled h ps) - 8"
proof -
  show "reassembled h ps ! 2 AND 0x30 = 0"
    by (simp add: reassembled_def and.assoc)
  show "reassembled h ps ! 3 = h ! 3"
    by (simp add: reassembled_def)
  show "reassembled h ps ! 2 AND 0x80 = h ! 2 AND 0x80"
    by (simp add: reassembled_def and.assoc)
  have "take 4 (drop 4 (reassembled h ps)) =
      to_bytes (h ! 2 AND 0x80 \<noteq> 0) (of_nat (length (concat ps)) :: u32)"
    by (simp add: reassembled_def)
  then show "unat (of_bytes (h ! 2 AND 0x80 \<noteq> 0) (take 4 (drop 4 (reassembled h ps))) :: u32)
      = length (reassembled h ps) - 8"
    using assms by (simp add: unat_of_nat) (simp add: reassembled_def)
qed

lemma complete_is_reassembled:
  assumes inv: "reassembler_inv r" and last: "\<not> is_control h" "seg_code h = 2"
    and out: "push r h p = (Inr (Complete msg), r')"
  obtains m where "pending r = Some m" "continues m h"
    "msg = reassembled (p_header m) (p_payloads m @ [p])"
    "length (concat (p_payloads m @ [p])) < 2 ^ 32"
proof -
  from last out obtain m where m: "pending r = Some m" "continues m h"
      "p_total m + length p \<le> max_bytes r"
    by (auto simp: push_def is_control_def seg_code_def continues_def Let_def
        split: option.splits if_splits)
  with push_last [OF m(1,2) last(2) m(3)] out have "msg = finish (absorb m p)"
    by simp
  also have "\<dots> = reassembled (p_header m) (p_payloads m @ [p])"
    using inv m(1) by (subst finish_eq) (auto simp: reassembler_inv_def)
  finally show ?thesis
    using that [of m] m inv by (auto simp: reassembler_inv_def)
qed

section \<open>Properties\<close>

text \<open>C1: a message cut into segments comes back as one message. Whatever control frames are
  interleaved, the first and middle segments are absorbed, the last one completes with the first
  header (segment bits cleared, length rewritten to the total in the message's byte order)
  followed by the payloads in order, and the reassembler is ready for the next message.\<close>

theorem segments_reassemble:
  assumes "data_frames fs = (h1, p1) # rest"
    and "segment_run h1 rest" and "length h1 = 8" and "pending r = None"
    and "length (concat (p1 # map snd rest)) \<le> max_bytes r"
  shows "filter (\<lambda>out. \<not> is_control_outcome out) (fst (push_all r fs))
      = replicate (length rest) (Inr Pending) @
        [Inr (Complete ([h1 ! 0, h1 ! 1, h1 ! 2 AND NOT 0x30, h1 ! 3]
          @ to_bytes (h1 ! 2 AND 0x80 \<noteq> 0) (of_nat (length (concat (p1 # map snd rest))) :: u32)
          @ concat (p1 # map snd rest)))]
    \<and> snd (push_all r fs) = r"
  using push_all_data_frames [of r fs] push_all_segment_run [OF assms(2-5)]
  by (simp add: assms(1) reassembled_def)

theorem segments_reassemble_witness:
  "filter (\<lambda>out. \<not> is_control_outcome out)
     (fst (push_all (with_max_bytes 16)
       [([0xCA, 2, 0x50, 13, 2, 0, 0, 0], [1, 2]),
        ([0xCA, 2, 0x41, 3, 0, 0, 0, 0], []),
        ([0xCA, 2, 0x60, 13, 1, 0, 0, 0], [3])]))
   = [Inr Pending, Inr (Complete [0xCA, 2, 0x40, 13, 3, 0, 0, 0, 1, 2, 3])]"
proof -
  let ?fs = "[([0xCA, 2, 0x50, 13, 2, 0, 0, 0], [1, 2]),
      ([0xCA, 2, 0x41, 3, 0, 0, 0, 0], []),
      ([0xCA, 2, 0x60, 13, 1, 0, 0, 0], [3])] :: (bytes \<times> bytes) list"
  have "data_frames ?fs = ([0xCA, 2, 0x50, 13, 2, 0, 0, 0], [1, 2]) #
      [([0xCA, 2, 0x60, 13, 1, 0, 0, 0], [3])]"
    by (simp add: data_frames_def is_control_def)
  from segments_reassemble [OF this, of "with_max_bytes 16"] show ?thesis
    by (simp add: segment_run_def is_control_def seg_code_def with_max_bytes_def to_bytes_def
        le_bytes_numeral)
qed

text \<open>C2: the reassembler's bookkeeping is exact and its memory bounded. Over any sequence of
  eight-byte-header frames the bytes it holds are those of the segments it absorbed, never
  more than the cap, and the cap always fits the 32-bit length field it will be written to.\<close>

theorem reassembler_bounded:
  assumes "\<forall>(h, p) \<in> set fs. length h = 8"
  shows "case snd (push_all (with_max_bytes m) fs) of r \<Rightarrow>
    pending_bytes r \<le> max_message_bytes r \<and> max_message_bytes r < 2 ^ 32 \<and>
    (\<forall>q. pending r = Some q \<longrightarrow> pending_bytes r = length (concat (p_payloads q)))"
  using push_all_inv [OF reassembler_inv_with_max_bytes assms, of m]
  by (auto simp: reassembler_inv_def pending_bytes_def max_message_bytes_def
      split: option.splits)

theorem reassembler_bounded_witness:
  "pending_bytes (snd (push_all (with_max_bytes 4)
     [([0xCA, 2, 0x50, 13, 2, 0, 0, 0], [1, 2])])) \<le>
   max_message_bytes (snd (push_all (with_max_bytes 4)
     [([0xCA, 2, 0x50, 13, 2, 0, 0, 0], [1, 2])]))"
  using reassembler_bounded [of "[([0xCA, 2, 0x50, 13, 2, 0, 0, 0], [1, 2])]" 4]
  by simp



end
