(* ===== verification/Nt_Types.thy ===== *)
theory Nt_Types
  imports Prelude "HOL-Library.List_Lexorder" "HOL-Library.Char_ord"
begin

text \<open>
  The Normative Type data model of \<^verbatim>\<open>spvirit-types/src/lib.rs\<close>: scalar and array
  values, the records of the six payload kinds, the recursive generic value, the builder
  methods and the two \<^verbatim>\<open>validate\<close> functions.

  A \<^verbatim>\<open>HashMap<String, String>\<close> is an association list with distinct keys in the order
  its iterator happens to use; what the code makes of it is shown not to depend on that order.
\<close>

section \<open>Scalar values and arrays\<close>

datatype scalar_value =
    SV_Bool bool | SV_I8 i8 | SV_I16 i16 | SV_I32 i32 | SV_I64 i64
  | SV_U8 u8 | SV_U16 u16 | SV_U32 u32 | SV_U64 u64 | SV_F32 f32 | SV_F64 f64 | SV_Str string

datatype scalar_array_value =
    SA_Bool "bool list" | SA_I8 "i8 list" | SA_I16 "i16 list" | SA_I32 "i32 list"
  | SA_I64 "i64 list" | SA_U8 "u8 list" | SA_U16 "u16 list" | SA_U32 "u32 list"
  | SA_U64 "u64 list" | SA_F32 "f32 list" | SA_F64 "f64 list" | SA_Str "string list"

fun sav_len :: "scalar_array_value \<Rightarrow> nat" where
  "sav_len (SA_Bool v) = length v"
| "sav_len (SA_I8 v) = length v"
| "sav_len (SA_I16 v) = length v"
| "sav_len (SA_I32 v) = length v"
| "sav_len (SA_I64 v) = length v"
| "sav_len (SA_U8 v) = length v"
| "sav_len (SA_U16 v) = length v"
| "sav_len (SA_U32 v) = length v"
| "sav_len (SA_U64 v) = length v"
| "sav_len (SA_F32 v) = length v"
| "sav_len (SA_F64 v) = length v"
| "sav_len (SA_Str v) = length v"

definition sav_is_empty :: "scalar_array_value \<Rightarrow> bool" where
  "sav_is_empty v \<longleftrightarrow> sav_len v = 0"

fun element_size_bytes :: "scalar_array_value \<Rightarrow> nat" where
  "element_size_bytes (SA_Bool _) = 1"
| "element_size_bytes (SA_I8 _) = 1"
| "element_size_bytes (SA_I16 _) = 2"
| "element_size_bytes (SA_I32 _) = 4"
| "element_size_bytes (SA_I64 _) = 8"
| "element_size_bytes (SA_U8 _) = 1"
| "element_size_bytes (SA_U16 _) = 2"
| "element_size_bytes (SA_U32 _) = 4"
| "element_size_bytes (SA_U64 _) = 8"
| "element_size_bytes (SA_F32 _) = 4"
| "element_size_bytes (SA_F64 _) = 8"
| "element_size_bytes (SA_Str _) = 0"

fun type_label :: "scalar_array_value \<Rightarrow> string" where
  "type_label (SA_Bool _) = ''boolean[]''"
| "type_label (SA_I8 _) = ''byte[]''"
| "type_label (SA_I16 _) = ''short[]''"
| "type_label (SA_I32 _) = ''int[]''"
| "type_label (SA_I64 _) = ''long[]''"
| "type_label (SA_U8 _) = ''ubyte[]''"
| "type_label (SA_U16 _) = ''ushort[]''"
| "type_label (SA_U32 _) = ''uint[]''"
| "type_label (SA_U64 _) = ''ulong[]''"
| "type_label (SA_F32 _) = ''float[]''"
| "type_label (SA_F64 _) = ''double[]''"
| "type_label (SA_Str _) = ''string[]''"

section \<open>Structures of the normative types\<close>

record nt_alarm =
  al_severity :: i32
  al_status :: i32
  al_message :: string

record nt_time_stamp =
  ts_seconds :: i64
  ts_nanoseconds :: i32
  ts_user_tag :: i32

record nt_display =
  di_limit_low :: f64
  di_limit_high :: f64
  di_description :: string
  di_units :: string
  di_precision :: i32

record nt_control =
  co_limit_low :: f64
  co_limit_high :: f64
  co_min_step :: f64

text \<open>The derived \<^verbatim>\<open>Default\<close> implementations; the bit pattern of \<^verbatim>\<open>0.0\<close> is zero.\<close>

definition nt_alarm_default :: nt_alarm where
  "nt_alarm_default = \<lparr>al_severity = 0, al_status = 0, al_message = []\<rparr>"

definition nt_time_stamp_default :: nt_time_stamp where
  "nt_time_stamp_default = \<lparr>ts_seconds = 0, ts_nanoseconds = 0, ts_user_tag = 0\<rparr>"

definition nt_display_default :: nt_display where
  "nt_display_default = \<lparr>di_limit_low = 0, di_limit_high = 0, di_description = [],
     di_units = [], di_precision = 0\<rparr>"

definition nt_control_default :: nt_control where
  "nt_control_default = \<lparr>co_limit_low = 0, co_limit_high = 0, co_min_step = 0\<rparr>"

record nt_scalar =
  ns_value :: scalar_value
  ns_alarm_severity :: i32
  ns_alarm_status :: i32
  ns_alarm_message :: string
  ns_alarm_low :: "f64 option"
  ns_alarm_high :: "f64 option"
  ns_alarm_lolo :: "f64 option"
  ns_alarm_hihi :: "f64 option"
  ns_display_low :: f64
  ns_display_high :: f64
  ns_display_description :: string
  ns_display_precision :: i32
  ns_display_form_index :: i32
  ns_display_form_choices :: "string list"
  ns_control_low :: f64
  ns_control_high :: f64
  ns_control_min_step :: f64
  ns_units :: string
  ns_va_active :: bool
  ns_va_low_alarm_limit :: f64
  ns_va_low_warning_limit :: f64
  ns_va_high_warning_limit :: f64
  ns_va_high_alarm_limit :: f64
  ns_va_low_alarm_severity :: i32
  ns_va_low_warning_severity :: i32
  ns_va_high_warning_severity :: i32
  ns_va_high_alarm_severity :: i32
  ns_va_hysteresis :: u8
  ns_time_stamp :: "nt_time_stamp option"

definition nt_scalar_from_value :: "scalar_value \<Rightarrow> nt_scalar" where
  "nt_scalar_from_value v = \<lparr>ns_value = v, ns_alarm_severity = 0, ns_alarm_status = 0,
     ns_alarm_message = [], ns_alarm_low = None, ns_alarm_high = None, ns_alarm_lolo = None,
     ns_alarm_hihi = None, ns_display_low = 0, ns_display_high = 0, ns_display_description = [],
     ns_display_precision = 0, ns_display_form_index = 0, ns_display_form_choices = [],
     ns_control_low = 0, ns_control_high = 0, ns_control_min_step = 0, ns_units = [],
     ns_va_active = False, ns_va_low_alarm_limit = 0, ns_va_low_warning_limit = 0,
     ns_va_high_warning_limit = 0, ns_va_high_alarm_limit = 0, ns_va_low_alarm_severity = 0,
     ns_va_low_warning_severity = 0, ns_va_high_warning_severity = 0,
     ns_va_high_alarm_severity = 0, ns_va_hysteresis = 0, ns_time_stamp = None\<rparr>"

definition with_timestamp :: "nt_scalar \<Rightarrow> i64 \<Rightarrow> i32 \<Rightarrow> nt_scalar" where
  "with_timestamp nt secs nanos = nt\<lparr>ns_time_stamp :=
     Some \<lparr>ts_seconds = secs, ts_nanoseconds = nanos, ts_user_tag = 0\<rparr>\<rparr>"

definition with_limits :: "nt_scalar \<Rightarrow> f64 \<Rightarrow> f64 \<Rightarrow> nt_scalar" where
  "with_limits nt low high = nt\<lparr>ns_display_low := low, ns_display_high := high,
     ns_control_low := low, ns_control_high := high\<rparr>"

definition with_units :: "nt_scalar \<Rightarrow> string \<Rightarrow> nt_scalar" where
  "with_units nt u = nt\<lparr>ns_units := u\<rparr>"

definition with_description :: "nt_scalar \<Rightarrow> string \<Rightarrow> nt_scalar" where
  "with_description nt d = nt\<lparr>ns_display_description := d\<rparr>"

definition with_precision :: "nt_scalar \<Rightarrow> i32 \<Rightarrow> nt_scalar" where
  "with_precision nt p = nt\<lparr>ns_display_precision := p\<rparr>"

definition with_alarm_limits ::
  "nt_scalar \<Rightarrow> f64 option \<Rightarrow> f64 option \<Rightarrow> f64 option \<Rightarrow> f64 option \<Rightarrow> nt_scalar" where
  "with_alarm_limits nt low high lolo hihi =
     (let nt = nt\<lparr>ns_alarm_low := low, ns_alarm_high := high, ns_alarm_lolo := lolo,
                  ns_alarm_hihi := hihi\<rparr>;
          nt = (case low of Some v \<Rightarrow> nt\<lparr>ns_va_low_warning_limit := v\<rparr> | None \<Rightarrow> nt);
          nt = (case high of Some v \<Rightarrow> nt\<lparr>ns_va_high_warning_limit := v\<rparr> | None \<Rightarrow> nt);
          nt = (case lolo of Some v \<Rightarrow> nt\<lparr>ns_va_low_alarm_limit := v\<rparr> | None \<Rightarrow> nt)
      in (case hihi of Some v \<Rightarrow> nt\<lparr>ns_va_high_alarm_limit := v\<rparr> | None \<Rightarrow> nt))"

record nt_scalar_array =
  na_value :: scalar_array_value
  na_alarm :: nt_alarm
  na_time_stamp :: nt_time_stamp
  na_display :: nt_display
  na_control :: nt_control

definition nt_scalar_array_from_value :: "scalar_array_value \<Rightarrow> nt_scalar_array" where
  "nt_scalar_array_from_value v = \<lparr>na_value = v, na_alarm = nt_alarm_default,
     na_time_stamp = nt_time_stamp_default, na_display = nt_display_default,
     na_control = nt_control_default\<rparr>"

record nt_table_column =
  tc_name :: string
  tc_values :: scalar_array_value

record nt_table =
  tb_labels :: "string list"
  tb_columns :: "nt_table_column list"
  tb_descriptor :: "string option"
  tb_alarm :: "nt_alarm option"
  tb_time_stamp :: "nt_time_stamp option"

record nd_codec =
  cd_name :: string
  cd_parameters :: "(string \<times> string) list"

record nd_dimension =
  nd_size :: i32
  nd_offset :: i32
  nd_full_size :: i32
  nd_binning :: i32
  nd_reverse :: bool

record nt_attribute =
  at_name :: string
  at_value :: scalar_value
  at_descriptor :: string
  at_source_type :: i32
  at_source :: string

record nt_nd_array =
  nd_value :: scalar_array_value
  nd_codec :: nd_codec
  nd_compressed_size :: i64
  nd_uncompressed_size :: i64
  nd_dims :: "nd_dimension list"
  nd_unique_id :: i32
  nd_data_time_stamp :: nt_time_stamp
  nd_attributes :: "nt_attribute list"
  nd_descriptor :: "string option"
  nd_alarm :: "nt_alarm option"
  nd_time_stamp :: "nt_time_stamp option"
  nd_display :: "nt_display option"

definition nt_nd_array_empty :: nt_nd_array where
  "nt_nd_array_empty = \<lparr>nd_value = SA_U8 [], nd_codec = \<lparr>cd_name = [], cd_parameters = []\<rparr>,
     nd_compressed_size = 0, nd_uncompressed_size = 0, nd_dims = [], nd_unique_id = 0,
     nd_data_time_stamp = \<lparr>ts_seconds = 0, ts_nanoseconds = 0, ts_user_tag = 0\<rparr>,
     nd_attributes = [], nd_descriptor = None, nd_alarm = None, nd_time_stamp = None,
     nd_display = None\<rparr>"

record nt_enum =
  en_index :: i32
  en_choices :: "string list"
  en_alarm :: nt_alarm
  en_time_stamp :: nt_time_stamp

definition nt_enum_new :: "i32 \<Rightarrow> string list \<Rightarrow> nt_enum" where
  "nt_enum_new index choices = \<lparr>en_index = index, en_choices = choices,
     en_alarm = nt_alarm_default, en_time_stamp = nt_time_stamp_default\<rparr>"

definition selected :: "nt_enum \<Rightarrow> string option" where
  "selected nt =
     (if sint (en_index nt) \<ge> 0 then
        (let i = nat (sint (en_index nt)) in
         if i < length (en_choices nt) then Some (en_choices nt ! i) else None)
      else None)"

section \<open>Generic values and payloads\<close>

datatype pv_value =
    PV_Scalar scalar_value
  | PV_ScalarArray scalar_array_value
  | PV_Structure string "(string \<times> pv_value) list"

datatype nt_payload =
    NT_Scalar nt_scalar
  | NT_ScalarArray nt_scalar_array
  | NT_Table nt_table
  | NT_NdArray nt_nd_array
  | NT_Enum nt_enum
  | NT_Generic string "(string \<times> pv_value) list"

definition STANDARD_FORM_CHOICES :: "string list" where
  "STANDARD_FORM_CHOICES = [''Default'', ''String'', ''Binary'', ''Decimal'', ''Hex'',
     ''Exponential'', ''Engineering'']"

section \<open>Validation\<close>

text \<open>Decimal digits, as \<^verbatim>\<open>format!\<close> prints integers.\<close>

fun show_nat :: "nat \<Rightarrow> string" where
  "show_nat n = (if n < 10 then [char_of (48 + n)] else show_nat (n div 10) @ [char_of (48 + n mod 10)])"

declare show_nat.simps [simp del]

definition show_int :: "int \<Rightarrow> string" where
  "show_int i = (if i < 0 then CHR ''-'' # show_nat (nat (- i)) else show_nat (nat i))"

primrec check_columns :: "nt_table_column list \<Rightarrow> nat option \<Rightarrow> string + unit" where
  "check_columns [] expected = Inr ()"
| "check_columns (col # cols) expected =
     (let len = sav_len (tc_values col) in
      case expected of
        Some e \<Rightarrow>
          if e \<noteq> len then
            Inl (''table column '' @ [CHR 0x27] @ tc_name col @ [CHR 0x27] @ '' length '' @ show_nat len
                 @ '' does not match expected '' @ show_nat e)
          else check_columns cols expected
      | None \<Rightarrow> check_columns cols (Some len))"

definition nt_table_validate :: "nt_table \<Rightarrow> string + unit" where
  "nt_table_validate nt = check_columns (tb_columns nt) None"

text \<open>\<^verbatim>\<open>str::trim().is_empty()\<close>: nothing but whitespace. The white space of one byte; the
  multi-byte Unicode white space characters are recognised by their UTF-8 bytes.\<close>

definition space_len :: "nat list \<Rightarrow> nat" where
  "space_len bs =
     (if take 1 bs \<in> {[9], [10], [11], [12], [13], [32]} then 1
      else if take 2 bs \<in> {[0xC2, 0x85], [0xC2, 0xA0]} then 2
      else if take 3 bs \<in> {[0xE1, 0x9A, 0x80], [0xE2, 0x80, 0xA8], [0xE2, 0x80, 0xA9],
          [0xE2, 0x80, 0xAF], [0xE2, 0x81, 0x9F], [0xE3, 0x80, 0x80]}
        \<or> (take 2 bs = [0xE2, 0x80] \<and> 2 < length bs \<and> 0x80 \<le> bs ! 2 \<and> bs ! 2 \<le> 0x8A) then 3
      else 0)"

function blank :: "nat list \<Rightarrow> bool" where
  "blank bs =
     (if bs = [] then True
      else if space_len bs = 0 then False
      else blank (drop (space_len bs) bs))"
  by pat_completeness auto
termination
  by (relation "measure length") auto

declare blank.simps [simp del]

definition is_blank :: "string \<Rightarrow> bool" where
  "is_blank s = blank (map of_char s)"

text \<open>The product wraps in an \<^verbatim>\<open>i64\<close>; \<^verbatim>\<open>saturating_mul\<close> clamps.\<close>

definition logical_elements :: "nd_dimension list \<Rightarrow> i64" where
  "logical_elements dims =
     (let p = fold (\<lambda>d acc. acc * (if sint (nd_size d) \<ge> 0 then ucast (nd_size d) else 0)) dims 1
      in if sint p \<ge> 0 then p else 0)"

definition i64_saturate :: "int \<Rightarrow> int" where
  "i64_saturate i = max (- (2 ^ 63)) (min (2 ^ 63 - 1) i)"

definition expected_uncompressed :: "nt_nd_array \<Rightarrow> int" where
  "expected_uncompressed nt =
     i64_saturate (sint (logical_elements (nd_dims nt)) * int (max (element_size_bytes (nd_value nt)) 1))"

definition nt_nd_array_validate :: "nt_nd_array \<Rightarrow> string + unit" where
  "nt_nd_array_validate nt =
     (let is_string_array = (case nd_value nt of SA_Str _ \<Rightarrow> True | _ \<Rightarrow> False);
          expected = expected_uncompressed nt;
          uncompressed = sint (nd_uncompressed_size nt);
          compressed = sint (nd_compressed_size nt)
      in
      if \<exists>a \<in> set (nd_attributes nt). is_blank (at_descriptor a)
      then Inl ''ntndarray attribute descriptor must be set''
      else if \<not> is_string_array \<and> uncompressed > 0 \<and> uncompressed \<noteq> expected
      then Inl (''uncompressed_size '' @ show_int uncompressed
                @ '' does not match dimension*element_size '' @ show_int expected)
      else if compressed > 0 \<and> uncompressed > 0 \<and> compressed > uncompressed
      then Inl (''compressed_size '' @ show_int compressed
                @ '' cannot exceed uncompressed_size '' @ show_int uncompressed)
      else Inr ())"

end
