(* ===== verification/Nt_Validate.thy ===== *)
theory Nt_Validate
  imports Nt_Types
begin

text \<open>
  The checks of \<^verbatim>\<open>NtTable::validate\<close> and \<^verbatim>\<open>NtNdArray::validate\<close>: what they accept, what
  they report, and where the 64-bit product of an NTNDArray's dimensions makes the second one
  accept a wrong size.
\<close>

section \<open>Tables\<close>

definition same_lengths :: "nt_table_column list \<Rightarrow> nat \<Rightarrow> bool" where
  "same_lengths cols n = list_all (\<lambda>c. sav_len (tc_values c) = n) cols"

definition column_error :: "nt_table_column \<Rightarrow> nat \<Rightarrow> string" where
  "column_error col e = ''table column '' @ [CHR 0x27] @ tc_name col @ [CHR 0x27] @ '' length ''
     @ show_nat (sav_len (tc_values col)) @ '' does not match expected '' @ show_nat e"

lemma check_columns_Some:
  "check_columns cols (Some e) =
     (case find (\<lambda>c. sav_len (tc_values c) \<noteq> e) cols of
        None \<Rightarrow> Inr () | Some c \<Rightarrow> Inl (column_error c e))"
  by (induction cols) (auto simp: column_error_def Let_def)

lemma check_columns_None:
  "check_columns cols None =
     (case find (\<lambda>c. sav_len (tc_values c) \<noteq> sav_len (tc_values (hd cols))) cols of
        None \<Rightarrow> Inr () | Some c \<Rightarrow> Inl (column_error c (sav_len (tc_values (hd cols)))))"
  by (cases cols) (auto simp: check_columns_Some Let_def split: option.split)

text \<open>C21: what table validation decides. A table is accepted exactly when all of its columns have
  the same length; otherwise the error names the first column whose length differs from the first
  column's, with both lengths.\<close>

theorem table_validate_correct:
  "(nt_table_validate nt = Inr () \<longleftrightarrow> (\<exists>n. same_lengths (tb_columns nt) n)) \<and>
   (nt_table_validate nt = Inl e \<longleftrightarrow>
     (\<exists>c. find (\<lambda>c. sav_len (tc_values c) \<noteq> sav_len (tc_values (hd (tb_columns nt)))) (tb_columns nt)
        = Some c \<and> e = column_error c (sav_len (tc_values (hd (tb_columns nt))))))"
proof -
  have "(\<exists>n. same_lengths cs n) \<longleftrightarrow>
      find (\<lambda>c. sav_len (tc_values c) \<noteq> sav_len (tc_values (hd cs))) cs = None" for cs
    by (cases cs) (auto simp: same_lengths_def find_None_iff list_all_iff)
  then show ?thesis
    by (auto simp: nt_table_validate_def check_columns_None split: option.splits)
qed

section \<open>NTNDArrays\<close>

text \<open>The number of elements the dimensions describe.\<close>

definition true_elements :: "nd_dimension list \<Rightarrow> int" where
  "true_elements dims = prod_list (map (\<lambda>d. max 0 (sint (nd_size d))) dims)"

lemma fold_times_word:
  "fold (\<lambda>d acc. acc * f d) dims (a :: i64) = a * prod_list (map f dims)"
  by (induction dims arbitrary: a) (simp_all add: ac_simps)

lemma uint_eq_sint: "0 \<le> sint s \<Longrightarrow> uint s = sint s" for s :: i32
  using sint_lt [of s] by (simp add: uint_sint take_bit_int_eq_self)

lemma clamped_size:
  "(if sint (s :: i32) \<ge> 0 then ucast s else 0 :: i64) = word_of_int (max 0 (sint s))"
  by (simp add: max_def ucast_eq uint_eq_sint)

lemma prod_list_of_int: "prod_list (map (\<lambda>d. word_of_int (f d)) ds) = word_of_int (prod_list (map f ds))"
  by (induction ds) simp_all

lemma true_elements_nonneg: "0 \<le> true_elements dims"
  unfolding true_elements_def by (induction dims) simp_all

lemma logical_elements_exact:
  assumes "true_elements dims < 2 ^ 63"
  shows "sint (logical_elements dims) = true_elements dims"
proof -
  have "sint (word_of_int (true_elements dims) :: i64) = true_elements dims"
    using assms true_elements_nonneg [of dims]
    by (simp add: sint_sbintrunc' signed_take_bit_int_eq_self)
  then show ?thesis
    using true_elements_nonneg [of dims]
    by (simp add: logical_elements_def fold_times_word clamped_size prod_list_of_int true_elements_def)
qed

lemma expected_exact:
  assumes "true_elements (nd_dims nt) * int (max (element_size_bytes (nd_value nt)) 1) < 2 ^ 63"
  shows "expected_uncompressed nt =
    true_elements (nd_dims nt) * int (max (element_size_bytes (nd_value nt)) 1)"
proof -
  let ?e = "true_elements (nd_dims nt)" and ?s = "int (max (element_size_bytes (nd_value nt)) 1)"
  have "?e * 1 \<le> ?e * ?s" using true_elements_nonneg by (intro mult_left_mono) simp_all
  then have "sint (logical_elements (nd_dims nt)) = ?e"
    using assms by (intro logical_elements_exact) simp
  moreover have "0 \<le> ?e * ?s" using true_elements_nonneg by simp
  ultimately show ?thesis using assms by (simp add: expected_uncompressed_def i64_saturate_def)
qed

text \<open>What validation means to accept.\<close>

definition nd_array_valid :: "nt_nd_array \<Rightarrow> bool" where
  "nd_array_valid nt \<longleftrightarrow>
     (\<forall>a \<in> set (nd_attributes nt). \<not> is_blank (at_descriptor a)) \<and>
     ((\<exists>ss. nd_value nt = SA_Str ss) \<or> sint (nd_uncompressed_size nt) \<le> 0 \<or>
      sint (nd_uncompressed_size nt) =
        true_elements (nd_dims nt) * int (max (element_size_bytes (nd_value nt)) 1)) \<and>
     (sint (nd_compressed_size nt) \<le> 0 \<or> sint (nd_uncompressed_size nt) \<le> 0 \<or>
      sint (nd_compressed_size nt) \<le> sint (nd_uncompressed_size nt))"

text \<open>C22: what NTNDArray validation decides. Where the dimensions describe less than 2^63 bytes,
  an array is accepted exactly when every attribute has a descriptor, a declared uncompressed
  size is the product of the dimensions and the element size, and a declared compressed size does
  not exceed it.\<close>

theorem ndarray_validate_correct:
  assumes "true_elements (nd_dims nt) * int (max (element_size_bytes (nd_value nt)) 1) < 2 ^ 63"
  shows "nt_nd_array_validate nt = Inr () \<longleftrightarrow> nd_array_valid nt"
  by (auto simp: nt_nd_array_validate_def nd_array_valid_def expected_exact [OF assms] Let_def
      split: scalar_array_value.split)

definition image :: "i32 list \<Rightarrow> i64 \<Rightarrow> nt_nd_array" where
  "image sizes uncompressed = nt_nd_array_empty
     \<lparr>nd_uncompressed_size := uncompressed,
      nd_dims := map (\<lambda>s. \<lparr>nd_size = s, nd_offset = 0, nd_full_size = s, nd_binning = 1,
        nd_reverse = False\<rparr>) sizes\<rparr>"

theorem ndarray_validate_correct_witness:
  "nt_nd_array_validate (image [640, 480] 307200) = Inr () \<longleftrightarrow> nd_array_valid (image [640, 480] 307200)"
  by (rule ndarray_validate_correct) (simp add: image_def nt_nd_array_empty_def true_elements_def)


end
