(* ===== verification/Pvd_Types.thy ===== *)
theory Pvd_Types
  imports Wire
begin

text \<open>
  Type descriptions of pvData: the type codes, field types and structure descriptors of
  \<^verbatim>\<open>spvirit-codec/src/spvd_decode.rs\<close>, the measures the decoder keeps on them (height,
  node count, bit counts), and the descriptor encoder of
  \<^verbatim>\<open>spvirit-codec/src/spvd_encode.rs\<close>.
\<close>

section \<open>Type codes\<close>

datatype type_code =
    TC_Null | TC_Boolean | TC_Int8 | TC_Int16 | TC_Int32 | TC_Int64
  | TC_UInt8 | TC_UInt16 | TC_UInt32 | TC_UInt64 | TC_Float32 | TC_Float64
  | TC_String | TC_Variant

text \<open>The \<^verbatim>\<open>repr(u8)\<close> discriminants, what \<^verbatim>\<open>*tc as u8\<close> yields.\<close>

fun tc_as_u8 :: "type_code \<Rightarrow> u8" where
  "tc_as_u8 TC_Null = 0xFF"
| "tc_as_u8 TC_Boolean = 0x00"
| "tc_as_u8 TC_Int8 = 0x20"
| "tc_as_u8 TC_Int16 = 0x21"
| "tc_as_u8 TC_Int32 = 0x22"
| "tc_as_u8 TC_Int64 = 0x23"
| "tc_as_u8 TC_UInt8 = 0x24"
| "tc_as_u8 TC_UInt16 = 0x25"
| "tc_as_u8 TC_UInt32 = 0x26"
| "tc_as_u8 TC_UInt64 = 0x27"
| "tc_as_u8 TC_Float32 = 0x42"
| "tc_as_u8 TC_Float64 = 0x43"
| "tc_as_u8 TC_String = 0x60"
| "tc_as_u8 TC_Variant = 0xFE"

definition tc_from_byte :: "u8 \<Rightarrow> type_code option" where
  "tc_from_byte b =
     (let base = b AND 0xE7 in
      if base = 0x00 then Some TC_Boolean
      else if base = 0x20 then Some TC_Int8
      else if base = 0x21 then Some TC_Int16
      else if base = 0x22 then Some TC_Int32
      else if base = 0x23 then Some TC_Int64
      else if base = 0x24 then Some TC_UInt8
      else if base = 0x25 then Some TC_UInt16
      else if base = 0x26 then Some TC_UInt32
      else if base = 0x27 then Some TC_UInt64
      else if base = 0x42 then Some TC_Float32
      else if base = 0x43 then Some TC_Float64
      else if base = 0x60 then Some TC_String
      else None)"

fun tc_size :: "type_code \<Rightarrow> nat option" where
  "tc_size TC_Boolean = Some 1"
| "tc_size TC_Int8 = Some 1"
| "tc_size TC_UInt8 = Some 1"
| "tc_size TC_Int16 = Some 2"
| "tc_size TC_UInt16 = Some 2"
| "tc_size TC_Int32 = Some 4"
| "tc_size TC_UInt32 = Some 4"
| "tc_size TC_Float32 = Some 4"
| "tc_size TC_Int64 = Some 8"
| "tc_size TC_UInt64 = Some 8"
| "tc_size TC_Float64 = Some 8"
| "tc_size TC_String = None"
| "tc_size TC_Null = None"
| "tc_size TC_Variant = None"

section \<open>Field types and structure descriptors\<close>

datatype field_type =
    FT_Scalar type_code
  | FT_ScalarArray type_code
  | FT_String
  | FT_StringArray
  | FT_Structure structure_desc
  | FT_StructureArray structure_desc
  | FT_Union "field_desc list"
  | FT_UnionArray "field_desc list"
  | FT_Variant
  | FT_VariantArray
  | FT_BoundedString u32
and field_desc = FieldDesc (fd_name: string) (fd_type: field_type)
and structure_desc = StructureDesc (struct_id: "string option") (sd_fields: "field_desc list")

definition structure_desc_new :: structure_desc where
  "structure_desc_new = StructureDesc None []"

text \<open>\<^verbatim>\<open>StructureDesc::field\<close>.\<close>

definition sd_field :: "structure_desc \<Rightarrow> string \<Rightarrow> field_desc option" where
  "sd_field d name = find (\<lambda>f. fd_name f = name) (sd_fields d)"

text \<open>The fields below a type node, as the match at the head of \<^verbatim>\<open>type_height\<close> and
  \<^verbatim>\<open>type_nodes\<close> picks them.\<close>

fun sub_fields :: "field_type \<Rightarrow> field_desc list option" where
  "sub_fields (FT_Structure d) = Some (sd_fields d)"
| "sub_fields (FT_StructureArray d) = Some (sd_fields d)"
| "sub_fields (FT_Union fs) = Some fs"
| "sub_fields (FT_UnionArray fs) = Some fs"
| "sub_fields _ = None"

lemma size_list_member: "x \<in> set xs \<Longrightarrow> f x < Suc (size_list f xs)"
  by (induction xs) auto

lemma size_sub_fields:
  "sub_fields ft = Some fs \<Longrightarrow> f \<in> set fs \<Longrightarrow> size (fd_type f) < size ft"
proof -
  assume sub: "sub_fields ft = Some fs" and f: "f \<in> set fs"
  have "size (fd_type f) < size f"
    by (cases f) simp
  moreover have "size f < Suc (size_list size fs)"
    using f by (rule size_list_member)
  moreover have "Suc (size_list size fs) \<le> size ft"
    using sub by (cases ft rule: sub_fields.cases) (auto, (rename_tac d, case_tac d, simp)+)
  ultimately show ?thesis by linarith
qed

lemma field_type_induct [case_names Node]:
  assumes "\<And>ft. (\<And>fs f. sub_fields ft = Some fs \<Longrightarrow> f \<in> set fs \<Longrightarrow> P (fd_type f)) \<Longrightarrow> P ft"
  shows "P ft"
  by (induction ft rule: measure_induct_rule [of size]) (blast intro: assms size_sub_fields)

lemma size_struct_field:
  "f \<in> set fs \<Longrightarrow> fd_type f = FT_Structure d \<Longrightarrow> size d < Suc (size_list size fs)"
  using size_sub_fields [of "FT_Structure (StructureDesc None fs)" fs f] by simp

definition max_list :: "nat list \<Rightarrow> nat" where
  "max_list xs = foldr max xs 0"

lemma max_list_simps [simp]:
  "max_list [] = 0" "max_list (x # xs) = max x (max_list xs)"
  by (simp_all add: max_list_def)

lemma max_list_le_iff: "max_list xs \<le> n \<longleftrightarrow> (\<forall>x \<in> set xs. x \<le> n)"
  by (induction xs) auto

lemma max_list_ge: "x \<in> set xs \<Longrightarrow> x \<le> max_list xs"
  using max_list_le_iff by blast

function type_height :: "field_type \<Rightarrow> nat" where
  "type_height ft =
     (case sub_fields ft of
        None \<Rightarrow> 1
      | Some fs \<Rightarrow> 1 + max_list (map (\<lambda>f. type_height (fd_type f)) fs))"
  by pat_completeness auto
termination
  by (relation "measure size") (auto intro: size_sub_fields)

function type_nodes :: "field_type \<Rightarrow> nat" where
  "type_nodes ft =
     (case sub_fields ft of
        None \<Rightarrow> 1
      | Some fs \<Rightarrow> 1 + sum_list (map (\<lambda>f. type_nodes (fd_type f)) fs))"
  by pat_completeness auto
termination
  by (relation "measure size") (auto intro: size_sub_fields)

declare type_height.simps [simp del] type_nodes.simps [simp del]

section \<open>Bit numbering of a descriptor\<close>

function count_structure_fields :: "structure_desc \<Rightarrow> nat" where
  "count_structure_fields (StructureDesc i fs) =
     sum_list (map (\<lambda>f. 1 + (case fd_type f of
        FT_Structure nested \<Rightarrow> count_structure_fields nested
      | _ \<Rightarrow> 0)) fs)"
  by pat_completeness auto
termination
  by (relation "measure size") (auto intro: size_struct_field)

text \<open>\<^verbatim>\<open>push_subtree_counts\<close> reserves a slot for a field, walks its subtree, and then
  writes how far the list grew behind the slot.\<close>

function push_subtree_counts :: "structure_desc \<Rightarrow> nat list \<Rightarrow> nat list" where
  "push_subtree_counts (StructureDesc i fs) out =
     fold (\<lambda>f out.
       let slot = length out;
           out = out @ [0];
           out = (case fd_type f of
                    FT_Structure nested \<Rightarrow> push_subtree_counts nested out
                  | _ \<Rightarrow> out)
       in out[slot := length out - slot - 1]) fs out"
  by pat_completeness auto
termination
  by (relation "measure (\<lambda>(d, out). size d)") (auto intro: size_struct_field)

definition subtree_field_counts :: "structure_desc \<Rightarrow> nat list" where
  "subtree_field_counts d = push_subtree_counts d []"

declare count_structure_fields.simps [simp del] push_subtree_counts.simps [simp del]

text \<open>What the counts mean: for each field, in bit order, the number of bits its subtree owns.\<close>

definition field_bits :: "field_desc \<Rightarrow> nat" where
  "field_bits f =
     (case fd_type f of FT_Structure nested \<Rightarrow> count_structure_fields nested | _ \<Rightarrow> 0)"

function bit_counts :: "structure_desc \<Rightarrow> nat list" where
  "bit_counts (StructureDesc i fs) =
     concat (map (\<lambda>f. field_bits f #
       (case fd_type f of FT_Structure nested \<Rightarrow> bit_counts nested | _ \<Rightarrow> [])) fs)"
  by pat_completeness auto
termination
  by (relation "measure size") (auto intro: size_struct_field)

declare bit_counts.simps [simp del]

lemma count_structure_fields_eq:
  "count_structure_fields (StructureDesc i fs) = sum_list (map (\<lambda>f. Suc (field_bits f)) fs)"
  by (simp add: count_structure_fields.simps field_bits_def)

lemma count_structure_fields_Nil [simp]: "count_structure_fields (StructureDesc i []) = 0"
  by (simp add: count_structure_fields.simps)

lemma count_structure_fields_Cons [simp]:
  "count_structure_fields (StructureDesc i (f # fs)) =
     Suc (field_bits f + count_structure_fields (StructureDesc i fs))"
  by (simp add: count_structure_fields_eq)

lemma length_bit_counts: "length (bit_counts d) = count_structure_fields d"
proof (induction d rule: bit_counts.induct)
  case (1 i fs)
  have "map (\<lambda>f. length (field_bits f #
      (case fd_type f of FT_Structure nested \<Rightarrow> bit_counts nested | _ \<Rightarrow> []))) fs
    = map (\<lambda>f. Suc (field_bits f)) fs"
    using "1.IH" by (auto simp: field_bits_def split: field_type.splits)
  then show ?case
    by (simp add: bit_counts.simps count_structure_fields_eq length_concat comp_def
        cong: map_cong)
qed

lemma push_subtree_counts_eq: "push_subtree_counts d out = out @ bit_counts d"
proof (induction d arbitrary: out rule: bit_counts.induct)
  case (1 i fs)
  define g where "g = (\<lambda>f. field_bits f #
      (case fd_type f of FT_Structure nested \<Rightarrow> bit_counts nested | _ \<Rightarrow> []))"
  define step where "step = (\<lambda>f (out :: nat list).
       let slot = length out;
           out = out @ [0];
           out = (case fd_type f of
                    FT_Structure nested \<Rightarrow> push_subtree_counts nested out
                  | _ \<Rightarrow> out)
       in out[slot := length out - slot - 1])"
  have step: "step f out = out @ g f" if "f \<in> set fs" for f out
    using "1.IH" [OF that]
    by (auto simp: step_def g_def field_bits_def length_bit_counts list_update_append
        split: field_type.splits)
  have "set gs \<subseteq> set fs \<Longrightarrow> fold step gs out = out @ concat (map g gs)" for gs out
    by (induction gs arbitrary: out) (simp_all add: step)
  then show ?case
    by (simp add: push_subtree_counts.simps [folded step_def] bit_counts.simps [folded g_def])
qed

lemma subtree_field_counts_eq: "subtree_field_counts d = bit_counts d"
  by (simp add: subtree_field_counts_def push_subtree_counts_eq)

text \<open>C16: the one-pass bit counts. \<^verbatim>\<open>subtree_field_counts\<close>, which fills its slots while it
  walks the descriptor, yields for every field in bit order the number of bits below it, one
  entry per field that \<^verbatim>\<open>count_structure_fields\<close> counts.\<close>

theorem subtree_counts_correct:
  "subtree_field_counts d = bit_counts d \<and>
   length (subtree_field_counts d) = count_structure_fields d"
  by (simp add: subtree_field_counts_eq length_bit_counts)

section \<open>Heights and node counts\<close>

lemma type_height_leaf [simp]: "sub_fields ft = None \<Longrightarrow> type_height ft = 1"
  by (simp add: type_height.simps)

lemma type_height_node [simp]:
  "sub_fields ft = Some fs \<Longrightarrow>
   type_height ft = Suc (max_list (map (\<lambda>f. type_height (fd_type f)) fs))"
  by (simp add: type_height.simps)

lemma type_nodes_leaf [simp]: "sub_fields ft = None \<Longrightarrow> type_nodes ft = 1"
  by (simp add: type_nodes.simps)

lemma type_nodes_node [simp]:
  "sub_fields ft = Some fs \<Longrightarrow>
   type_nodes ft = Suc (sum_list (map (\<lambda>f. type_nodes (fd_type f)) fs))"
  by (simp add: type_nodes.simps)

lemma type_height_pos: "0 < type_height ft"
  by (cases "sub_fields ft") simp_all

lemma type_nodes_pos: "0 < type_nodes ft"
  by (cases "sub_fields ft") simp_all

section \<open>Descriptor encoder\<close>

fun encode_structure_desc :: "structure_desc \<Rightarrow> bool \<Rightarrow> bytes"
  and encode_field_desc :: "field_desc \<Rightarrow> bool \<Rightarrow> bytes"
  and encode_type_desc :: "field_type \<Rightarrow> bool \<Rightarrow> bytes" where
  "encode_structure_desc (StructureDesc sid fs) is_be =
     encode_string (case sid of None \<Rightarrow> [] | Some s \<Rightarrow> s) is_be
       @ encode_size (length fs) is_be
       @ concat (map (\<lambda>f. encode_field_desc f is_be) fs)"
| "encode_field_desc (FieldDesc name ft) is_be =
     encode_string name is_be @ encode_type_desc ft is_be"
| "encode_type_desc (FT_Structure desc) is_be = 0x80 # encode_structure_desc desc is_be"
| "encode_type_desc (FT_StructureArray desc) is_be =
     [0x88, 0x80] @ encode_structure_desc desc is_be"
| "encode_type_desc (FT_Union fs) is_be =
     0x81 # encode_structure_desc (StructureDesc None fs) is_be"
| "encode_type_desc (FT_UnionArray fs) is_be =
     [0x89, 0x81] @ encode_structure_desc (StructureDesc None fs) is_be"
| "encode_type_desc FT_Variant is_be = [0x82]"
| "encode_type_desc FT_VariantArray is_be = [0x8A]"
| "encode_type_desc (FT_BoundedString bound) is_be = 0x83 # encode_size (unat bound) is_be"
| "encode_type_desc FT_String is_be = [0x60]"
| "encode_type_desc FT_StringArray is_be = [0x68]"
| "encode_type_desc (FT_Scalar tc) is_be = [tc_as_u8 tc]"
| "encode_type_desc (FT_ScalarArray tc) is_be = [tc_as_u8 tc OR 0x08]"

lemma encode_type_desc_not_Nil [simp]: "encode_type_desc ft be \<noteq> []"
  by (cases ft) simp_all

end
