(* ===== verification/Pvd_Parse.thy ===== *)
theory Pvd_Parse
  imports Pvd_Types
begin

text \<open>
  The decoder's state and its parser of type descriptions:
  \<^verbatim>\<open>PvdDecoder\<close> in \<^verbatim>\<open>spvirit-codec/src/spvd_decode.rs\<close>.

  The source keeps its mutable state in \<^verbatim>\<open>Cell\<close>s behind \<^verbatim>\<open>&self\<close>; here a
  decoder action takes the state and returns it with the result, on the error paths too, because
  the lenient field loops go on with the state a failed field left behind. The guard objects
  that decrement a counter when they are dropped become \<open>with_depth\<close> and
  \<open>with_scope\<close>, which restore the counter after every exit.

  The recursion is bounded by the depth guard. The parser is written with its recursive call as
  a parameter and closed by fuel; the fuel of \<open>parse_type_desc\<close> is the number of levels
  the guard still admits, and the theory shows that this is always enough: the closed functions
  satisfy the recursion equations of the source.
\<close>

section \<open>Decoder state\<close>

record decode_limits =
  max_scalar_array :: nat
  max_string_array :: nat
  max_struct_array :: nat
  max_union_array :: nat
  max_variant_array :: nat
  max_struct_fields :: nat
  max_depth :: nat

definition default_limits :: decode_limits where
  "default_limits = \<lparr>max_scalar_array = 4000000, max_string_array = 65536,
     max_struct_array = 65536, max_union_array = 65536, max_variant_array = 65536,
     max_struct_fields = 65536, max_depth = 32\<rparr>"

record pvd_decoder =
  d_is_be :: bool
  d_limits :: decode_limits
  d_registry :: "u16 \<rightharpoonup> field_type \<times> nat \<times> nat"
  d_depth :: nat
  d_nodes :: nat
  d_node_limit :: nat
  d_budget_scope :: nat

definition pvd_with_limits :: "bool \<Rightarrow> decode_limits \<Rightarrow> pvd_decoder" where
  "pvd_with_limits be lims = \<lparr>d_is_be = be, d_limits = lims, d_registry = Map.empty,
     d_depth = 0, d_nodes = 0, d_node_limit = max_struct_fields lims, d_budget_scope = 0\<rparr>"

definition pvd_new :: "bool \<Rightarrow> pvd_decoder" where
  "pvd_new be = pvd_with_limits be default_limits"

section \<open>Decoder actions\<close>

type_synonym 'a dec = "pvd_decoder \<Rightarrow> 'a decode_result \<times> pvd_decoder"

definition ret :: "'a \<Rightarrow> 'a dec" where
  "ret x st = (Inr x, st)"

definition fail :: "decode_error \<Rightarrow> 'a dec" where
  "fail e st = (Inl e, st)"

definition lift_result :: "'a decode_result \<Rightarrow> 'a dec" where
  "lift_result r st = (r, st)"

text \<open>The \<^verbatim>\<open>?\<close> operator: go on with the value, or leave with the error.\<close>

definition bind_dec :: "'a dec \<Rightarrow> ('a \<Rightarrow> 'b dec) \<Rightarrow> 'b dec" where
  "bind_dec m f st = (case m st of (Inl e, st') \<Rightarrow> (Inl e, st') | (Inr x, st') \<Rightarrow> f x st')"

definition NODE_BUDGET_EXCEEDED :: string where
  "NODE_BUDGET_EXCEEDED = ''introspection expands past the node budget''"

definition NODES_PER_BYTE :: nat where
  "NODES_PER_BYTE = 16"

definition MAX_DECODE_NODES :: nat where
  "MAX_DECODE_NODES = 1048576"

definition node_ceiling :: "nat \<Rightarrow> nat \<Rightarrow> nat" where
  "node_ceiling struct_fields input_len =
     max (min (saturating_add struct_fields (saturating_mul NODES_PER_BYTE input_len))
          MAX_DECODE_NODES) struct_fields"

fun is_hostile :: "decode_error \<Rightarrow> bool" where
  "is_hostile (DepthExceeded _ _) = True"
| "is_hostile (Malformed what) = (what = NODE_BUDGET_EXCEEDED)"
| "is_hostile _ = False"

text \<open>\<^verbatim>\<open>let _depth = self.enter()?; body\<close>: the guard's drop is the last update.\<close>

definition with_depth :: "'a dec \<Rightarrow> 'a dec" where
  "with_depth body st =
     (let next = d_depth st + 1 in
      if next > max_depth (d_limits st) then
        (Inl (DepthExceeded next (max_depth (d_limits st))), st)
      else case body (st\<lparr>d_depth := next\<rparr>) of
        (r, st') \<Rightarrow> (r, st'\<lparr>d_depth := d_depth st' - 1\<rparr>))"

text \<open>\<^verbatim>\<open>let _scope = self.node_budget_scope(len); body\<close>: only the outermost scope
  starts a fresh budget.\<close>

definition with_scope :: "nat \<Rightarrow> 'a dec \<Rightarrow> 'a dec" where
  "with_scope input_len body st =
     (let scope = d_budget_scope st;
          st = (if scope = 0
                then st\<lparr>d_nodes := 0,
                        d_node_limit := node_ceiling (max_struct_fields (d_limits st)) input_len\<rparr>
                else st)
      in case body (st\<lparr>d_budget_scope := scope + 1\<rparr>) of
        (r, st') \<Rightarrow> (r, st'\<lparr>d_budget_scope := d_budget_scope st' - 1\<rparr>))"

definition charge_nodes :: "nat \<Rightarrow> unit dec" where
  "charge_nodes n st =
     (let used = saturating_add (d_nodes st) n;
          st = st\<lparr>d_nodes := used\<rparr>
      in if used > d_node_limit st then (Inl (Malformed NODE_BUDGET_EXCEEDED), st)
         else (Inr (), st))"

definition check_resolved_height :: "nat \<Rightarrow> unit dec" where
  "check_resolved_height height st =
     (let depth = d_depth st + height - 1 in
      if depth > max_depth (d_limits st)
      then (Inl (DepthExceeded depth (max_depth (d_limits st))), st)
      else (Inr (), st))"

definition register :: "u16 \<Rightarrow> field_type \<Rightarrow> unit dec" where
  "register key ft st =
     (Inr (), st\<lparr>d_registry := (d_registry st)(key \<mapsto> (ft, type_height ft, type_nodes ft))\<rparr>)"

definition decode_size :: "bytes \<Rightarrow> (nat \<times> nat) dec" where
  "decode_size data st = (decode_size_prefixed data (d_is_be st), st)"

definition decode_string :: "bytes \<Rightarrow> (string \<times> nat) dec" where
  "decode_string data st = (decode_string_prefixed data (d_is_be st) Strict, st)"

definition read_key :: "bytes \<Rightarrow> u16 dec" where
  "read_key data st = (Inr (of_bytes (d_is_be st) [data ! 1, data ! 2]), st)"

section \<open>Parsing type descriptors\<close>

type_synonym type_rec = "bytes \<Rightarrow> (field_type \<times> nat) dec"

definition parse_field_desc :: "type_rec \<Rightarrow> bytes \<Rightarrow> (field_desc \<times> nat) dec" where
  "parse_field_desc parse_type data = with_scope (length data)
     (if data = [] then fail (Truncated 1 0)
      else bind_dec (decode_string data) (\<lambda>(name, offset).
        if offset \<ge> length data then fail (Truncated (offset + 1) (length data))
        else bind_dec (parse_type (drop offset data)) (\<lambda>(ft, consumed).
          ret (FieldDesc name ft, offset + consumed))))"

text \<open>The lenient loop: stop at the end of the data or at a failed field, unless the failure is
  hostile.\<close>

fun parse_fields :: "type_rec \<Rightarrow> nat \<Rightarrow> bytes \<Rightarrow> nat \<Rightarrow> field_desc list
    \<Rightarrow> (field_desc list \<times> nat) dec" where
  "parse_fields parse_type 0 data offset acc st = (Inr (acc, offset), st)"
| "parse_fields parse_type (Suc k) data offset acc st =
     (if offset \<ge> length data then (Inr (acc, offset), st)
      else case parse_field_desc parse_type (drop offset data) st of
          (Inr (f, consumed), st') \<Rightarrow>
            parse_fields parse_type k data (offset + consumed) (acc @ [f]) st'
        | (Inl e, st') \<Rightarrow> if is_hostile e then (Inl e, st') else (Inr (acc, offset), st'))"

definition parse_structure_desc :: "type_rec \<Rightarrow> bytes \<Rightarrow> (structure_desc \<times> nat) dec" where
  "parse_structure_desc parse_type data =
     bind_dec (decode_string data) (\<lambda>(sid, c1).
     bind_dec (decode_size (drop c1 data)) (\<lambda>(field_count, c2) st.
       if field_count > max_struct_fields (d_limits st) then
         (Inl (ArrayTooLarge ''structure fields'' field_count (max_struct_fields (d_limits st))), st)
       else bind_dec (parse_fields parse_type field_count data (c1 + c2) []) (\<lambda>(fs, offset).
         ret (StructureDesc (if sid = [] then None else Some sid) fs, offset)) st))"

text \<open>The dispatch on the type byte in \<^verbatim>\<open>parse_type_desc\<close>, for non-empty data.\<close>

definition parse_type_tag :: "type_rec \<Rightarrow> bytes \<Rightarrow> (field_type \<times> nat) dec" where
  "parse_type_tag parse_type data =
     (let type_byte = data ! 0; n = length data in
      if type_byte = 0xFF then ret (FT_Variant, 1)
      else if type_byte = 0xFD then
        (if n < 3 then fail (Truncated 3 n)
         else bind_dec (read_key data) (\<lambda>key.
              bind_dec (parse_type (drop 3 data)) (\<lambda>(ft, consumed).
              bind_dec (register key ft) (\<lambda>_. ret (ft, 3 + consumed)))))
      else if type_byte = 0xFE then
        (if n < 3 then fail (Truncated 3 n)
         else bind_dec (read_key data) (\<lambda>key st.
           case d_registry st key of
             Some (ft, height, ns) \<Rightarrow>
               bind_dec (check_resolved_height height) (\<lambda>_.
               bind_dec (charge_nodes ns) (\<lambda>_. ret (ft, 3))) st
           | None \<Rightarrow> (Inl (UnresolvedTypeId key), st)))
      else if type_byte = 0x80 \<or> type_byte = 0x88 then
        (let is_array = (type_byte AND 0x08 \<noteq> 0); offset = (if is_array then 2 else 1) in
         if is_array \<and> 1 \<ge> n then fail (Truncated 2 n)
         else if is_array \<and> data ! 1 \<noteq> 0x80 then fail (UnknownTypeTag (data ! 1))
         else bind_dec (parse_structure_desc parse_type (drop offset data)) (\<lambda>(d, consumed).
           ret (if is_array then FT_StructureArray d else FT_Structure d, offset + consumed)))
      else if type_byte = 0x81 \<or> type_byte = 0x89 then
        (let is_array = (type_byte AND 0x08 \<noteq> 0); offset = (if is_array then 2 else 1) in
         if is_array \<and> 1 \<ge> n then fail (Truncated 2 n)
         else if is_array \<and> data ! 1 \<noteq> 0x81 then fail (UnknownTypeTag (data ! 1))
         else bind_dec (parse_structure_desc parse_type (drop offset data)) (\<lambda>(d, consumed).
           ret (if is_array then FT_UnionArray (sd_fields d) else FT_Union (sd_fields d),
                offset + consumed)))
      else if type_byte = 0x82 then ret (FT_Variant, 1)
      else if type_byte = 0x8A then ret (FT_VariantArray, 1)
      else if type_byte = 0x83 \<or> type_byte = 0x86 then
        bind_dec (decode_size (drop 1 data)) (\<lambda>(bound, consumed).
          ret (FT_BoundedString (of_nat bound), 1 + consumed))
      else
        (let scalar_or_array = type_byte AND 0x18; is_array = (scalar_or_array \<noteq> 0) in
         bind_dec (if is_array \<and> scalar_or_array \<noteq> 0x08
                   then bind_dec (decode_size (drop 1 data)) (\<lambda>(_, consumed). ret (1 + consumed))
                   else ret 1) (\<lambda>offset.
           let base_type = type_byte AND 0xE7 in
           if base_type = 0x60 then ret (if is_array then FT_StringArray else FT_String, offset)
           else case tc_from_byte base_type of
               Some tc \<Rightarrow> ret (if is_array then FT_ScalarArray tc else FT_Scalar tc, offset)
             | None \<Rightarrow> fail (UnknownTypeTag type_byte))))"

text \<open>\<^verbatim>\<open>parse_type_desc\<close> with its recursive call as a parameter: the guard, the charge
  of one node for a literal type, the dispatch.\<close>

definition parse_type_desc_body :: "type_rec \<Rightarrow> type_rec" where
  "parse_type_desc_body parse_type data = with_depth
     (if data = [] then fail (Truncated 1 0)
      else bind_dec
        (if data ! 0 \<noteq> 0xFD \<and> data ! 0 \<noteq> 0xFE then charge_nodes 1 else ret ())
        (\<lambda>_. parse_type_tag parse_type data))"

text \<open>What the depth guard answers when no level is left.\<close>

definition depth_exhausted :: "'a dec" where
  "depth_exhausted st =
     (Inl (DepthExceeded (d_depth st + 1) (max_depth (d_limits st))), st)"

primrec parse_type_desc_fuel :: "nat \<Rightarrow> type_rec" where
  "parse_type_desc_fuel 0 data = depth_exhausted"
| "parse_type_desc_fuel (Suc n) data = parse_type_desc_body (parse_type_desc_fuel n) data"

definition depth_fuel :: "pvd_decoder \<Rightarrow> nat" where
  "depth_fuel st = max_depth (d_limits st) + 1 - d_depth st"

definition parse_type_desc :: type_rec where
  "parse_type_desc data st = parse_type_desc_fuel (depth_fuel st) data st"

section \<open>Introspection\<close>

type_synonym intro_rec = "bytes \<Rightarrow> (structure_desc \<times> nat) dec"

definition parse_introspection_tag :: "intro_rec \<Rightarrow> intro_rec" where
  "parse_introspection_tag parse_intro data =
     (let type_byte = data ! 0; n = length data in
      if type_byte = 0x80 then
        bind_dec (charge_nodes 1) (\<lambda>_.
        bind_dec (parse_structure_desc parse_type_desc (drop 1 data)) (\<lambda>(d, consumed).
          ret (d, 1 + consumed)))
      else if type_byte = 0xFD then
        (if n < 3 then fail (Truncated 3 n)
         else bind_dec (read_key data) (\<lambda>key.
              bind_dec (parse_intro (drop 3 data)) (\<lambda>(d, consumed).
              bind_dec (register key (FT_Structure d)) (\<lambda>_. ret (d, 3 + consumed)))))
      else if type_byte = 0xFE then
        (if n < 3 then fail (Truncated 3 n)
         else bind_dec (read_key data) (\<lambda>key st.
           case d_registry st key of
             Some (FT_Structure d, height, ns) \<Rightarrow>
               bind_dec (check_resolved_height height) (\<lambda>_.
               bind_dec (charge_nodes ns) (\<lambda>_. ret (d, 3))) st
           | _ \<Rightarrow> (Inl (UnresolvedTypeId key), st)))
      else fail (UnknownTypeTag type_byte))"

definition parse_introspection_body :: "intro_rec \<Rightarrow> intro_rec" where
  "parse_introspection_body parse_intro data = with_scope (length data) (with_depth
     (if data = [] then fail (Truncated 1 0) else parse_introspection_tag parse_intro data))"

primrec parse_introspection_fuel :: "nat \<Rightarrow> intro_rec" where
  "parse_introspection_fuel 0 data = with_scope (length data) depth_exhausted"
| "parse_introspection_fuel (Suc n) data =
     parse_introspection_body (parse_introspection_fuel n) data"

definition parse_introspection_with_len :: intro_rec where
  "parse_introspection_with_len data st = parse_introspection_fuel (depth_fuel st) data st"

definition parse_introspection :: "bytes \<Rightarrow> structure_desc dec" where
  "parse_introspection data =
     bind_dec (parse_introspection_with_len data) (\<lambda>(desc, _). ret desc)"

end
