(* ===== verification/Pvd_Safety.thy ===== *)
theory Pvd_Safety
  imports Pvd_Parse
begin

text \<open>
  What every decoder action keeps of the decoder's state, and what the type parser guarantees:
  the guards are balanced on every exit, the registry's cached heights and node counts are
  those of the stored types, a parsed type consumed at least one byte and no more than there
  were, its height fits under the depth limit, and its node count was charged to the budget.

  \<open>action_rel\<close> is the interface of a relation the actions keep from state to state;
  \<open>type_parser\<close> is the interface the callers of the type parser rely on. Both are
  interpreted on the decoder's own definitions.
\<close>

section \<open>Running actions\<close>

lemma bind_dec_Inr:
  "bind_dec m f st = (Inr y, st') \<longleftrightarrow> (\<exists>x st1. m st = (Inr x, st1) \<and> f x st1 = (Inr y, st'))"
  by (auto simp: bind_dec_def split: prod.splits sum.splits)

lemma bind_dec_Inl:
  "bind_dec m f st = (Inl e, st') \<longleftrightarrow>
     m st = (Inl e, st') \<or> (\<exists>x st1. m st = (Inr x, st1) \<and> f x st1 = (Inl e, st'))"
  by (auto simp: bind_dec_def split: prod.splits sum.splits)

lemma bind_dec_step: "m st = (Inr x, st1) \<Longrightarrow> bind_dec m f st = f x st1"
  by (simp add: bind_dec_def)

lemma bind_ret [simp]: "bind_dec (ret x) f = f x"
  by (simp add: fun_eq_iff bind_dec_def ret_def)

lemma ret_simps [simp]: "ret x st = (r, st') \<longleftrightarrow> r = Inr x \<and> st' = st"
  by (auto simp: ret_def)

lemma fail_simps [simp]: "fail e st = (r, st') \<longleftrightarrow> r = Inl e \<and> st' = st"
  by (auto simp: fail_def)

section \<open>Relations kept by actions\<close>

definition keeps :: "(pvd_decoder \<Rightarrow> pvd_decoder \<Rightarrow> bool) \<Rightarrow> 'a dec \<Rightarrow> bool" where
  "keeps R m \<longleftrightarrow> (\<forall>st. R st (snd (m st)))"

locale action_rel =
  fixes R :: "pvd_decoder \<Rightarrow> pvd_decoder \<Rightarrow> bool"
  assumes refl: "R st st"
    and trans: "R st1 st2 \<Longrightarrow> R st2 st3 \<Longrightarrow> R st1 st3"
begin

lemma keeps_ret: "keeps R (ret x)"
  by (simp add: keeps_def ret_def refl)

lemma keeps_fail: "keeps R (fail e)"
  by (simp add: keeps_def fail_def refl)

lemma keeps_same: "(\<And>st. snd (m st) = st) \<Longrightarrow> keeps R m"
  by (simp add: keeps_def refl)

lemma keeps_bind:
  assumes "keeps R m" "\<And>x. keeps R (f x)"
  shows "keeps R (bind_dec m f)"
  unfolding keeps_def
proof
  fix st
  obtain r st1 where m: "m st = (r, st1)" by (cases "m st")
  have "R st st1" using assms(1) m by (auto simp: keeps_def dest: spec [of _ st])
  moreover have "R st1 (snd (f x st1))" for x
    using assms(2) by (simp add: keeps_def)
  ultimately show "R st (snd (bind_dec m f st))"
    by (cases r) (auto simp: bind_dec_def m intro: trans)
qed

lemma keeps_if: "keeps R m \<Longrightarrow> keeps R m' \<Longrightarrow> keeps R (if b then m else m')"
  by simp

lemma keeps_state: "(\<And>st. R st (snd (f st st))) \<Longrightarrow> keeps R (\<lambda>st. f st st)"
  by (simp add: keeps_def)

end

definition reg_ok :: "pvd_decoder \<Rightarrow> bool" where
  "reg_ok st \<longleftrightarrow> (\<forall>k ft h n. d_registry st k = Some (ft, h, n) \<longrightarrow>
     h = type_height ft \<and> n = type_nodes ft)"

lemma reg_ok_updates [simp]:
  "reg_ok (st\<lparr>d_depth := n\<rparr>) = reg_ok st"
  "reg_ok (st\<lparr>d_nodes := n\<rparr>) = reg_ok st"
  "reg_ok (st\<lparr>d_node_limit := n\<rparr>) = reg_ok st"
  "reg_ok (st\<lparr>d_budget_scope := n\<rparr>) = reg_ok st"
  by (simp_all add: reg_ok_def)

definition frame :: "pvd_decoder \<Rightarrow> pvd_decoder \<Rightarrow> bool" where
  "frame st st' \<longleftrightarrow>
     d_is_be st' = d_is_be st \<and> d_limits st' = d_limits st \<and>
     d_depth st' = d_depth st \<and> d_budget_scope st' = d_budget_scope st \<and>
     (reg_ok st \<longrightarrow> reg_ok st') \<and>
     (0 < d_budget_scope st \<and> d_nodes st \<le> usize_max \<longrightarrow>
        d_node_limit st' = d_node_limit st \<and> d_nodes st \<le> d_nodes st' \<and> d_nodes st' \<le> usize_max)"

interpretation fr: action_rel frame
  by unfold_locales (auto simp: frame_def)

lemma frame_simps:
  assumes "frame st st'"
  shows "d_is_be st' = d_is_be st" "d_limits st' = d_limits st"
    "d_depth st' = d_depth st" "d_budget_scope st' = d_budget_scope st"
  using assms by (simp_all add: frame_def)

lemma keeps_frameD: "keeps frame m \<Longrightarrow> m st = (r, st') \<Longrightarrow> frame st st'"
  by (metis keeps_def snd_conv)

lemma keeps_with_depth: "keeps frame m \<Longrightarrow> keeps frame (with_depth m)"
  unfolding keeps_def
proof
  fix st :: pvd_decoder
  assume m: "\<forall>st. frame st (snd (m st))"
  obtain r st' where run: "m (st\<lparr>d_depth := Suc (d_depth st)\<rparr>) = (r, st')"
    by (cases "m (st\<lparr>d_depth := Suc (d_depth st)\<rparr>)")
  from m [rule_format, of "st\<lparr>d_depth := Suc (d_depth st)\<rparr>"] run
  show "frame st (snd (with_depth m st))"
    by (simp add: with_depth_def Let_def frame_def)
qed

lemma keeps_with_scope: "keeps frame m \<Longrightarrow> keeps frame (with_scope n m)"
  unfolding keeps_def
proof
  fix st :: pvd_decoder
  assume m: "\<forall>st. frame st (snd (m st))"
  define st0 where "st0 = (if d_budget_scope st = 0
      then st\<lparr>d_nodes := 0, d_node_limit := node_ceiling (max_struct_fields (d_limits st)) n\<rparr>
      else st)"
  define st1 where "st1 = st0\<lparr>d_budget_scope := d_budget_scope st + 1\<rparr>"
  obtain r st' where run: "m st1 = (r, st')" by (cases "m st1")
  from m [rule_format, of st1] run have "frame st1 st'" by simp
  then have "frame st (st'\<lparr>d_budget_scope := d_budget_scope st' - 1\<rparr>)"
    by (simp add: st1_def st0_def frame_def split: if_splits)
  moreover have "snd (with_scope n m st) = st'\<lparr>d_budget_scope := d_budget_scope st' - 1\<rparr>"
    using run by (simp add: with_scope_def Let_def st1_def st0_def)
  ultimately show "frame st (snd (with_scope n m st))" by simp
qed

lemma keeps_charge: "keeps frame (charge_nodes n)"
  by (simp add: keeps_def charge_nodes_def frame_def saturating_add_def Let_def)

lemma keeps_register: "keeps frame (register k ft)"
  by (auto simp: keeps_def register_def frame_def reg_ok_def)

lemma keeps_reads:
  "keeps frame (check_resolved_height h)" "keeps frame (decode_size data)"
  "keeps frame (decode_string data)" "keeps frame (read_key data)" "keeps frame depth_exhausted"
  "keeps frame (lift_result x)"
  by (simp_all add: keeps_def check_resolved_height_def decode_size_def decode_string_def
      read_key_def depth_exhausted_def lift_result_def Let_def fr.refl)

lemmas keeps_intros = fr.keeps_ret fr.keeps_fail fr.keeps_bind fr.keeps_if keeps_with_depth
  keeps_with_scope keeps_charge keeps_register keeps_reads

section \<open>Staying within the node budget\<close>

text \<open>Inside a scope, with the charges so far under the ceiling.\<close>

definition st_ok :: "pvd_decoder \<Rightarrow> bool" where
  "st_ok st \<longleftrightarrow> reg_ok st \<and> 0 < d_budget_scope st \<and> d_nodes st \<le> d_node_limit st \<and>
     d_node_limit st < usize_max"

text \<open>An action that leaves the budget exceeded reports it with a hostile error, which the
  lenient loops pass on.\<close>

definition within :: "'a dec \<Rightarrow> bool" where
  "within m \<longleftrightarrow> (\<forall>st r st'. st_ok st \<longrightarrow> m st = (r, st') \<longrightarrow>
     st_ok st' \<or> (\<exists>e. r = Inl e \<and> is_hostile e))"

lemma withinD:
  "within m \<Longrightarrow> st_ok st \<Longrightarrow> m st = (r, st') \<Longrightarrow> st_ok st' \<or> (\<exists>e. r = Inl e \<and> is_hostile e)"
  by (simp add: within_def)

lemma within_Inr: "within m \<Longrightarrow> st_ok st \<Longrightarrow> m st = (Inr x, st') \<Longrightarrow> st_ok st'"
  by (auto simp: within_def)

lemma within_same: "(\<And>st. snd (m st) = st) \<Longrightarrow> within m"
  unfolding within_def by (metis snd_conv)

lemma within_bind:
  assumes "within m" "\<And>x. within (f x)"
  shows "within (bind_dec m f)"
  unfolding within_def
proof (intro allI impI)
  fix st r st'
  assume st: "st_ok st" and run: "bind_dec m f st = (r, st')"
  obtain r1 st1 where m: "m st = (r1, st1)" by (cases "m st")
  show "st_ok st' \<or> (\<exists>e. r = Inl e \<and> is_hostile e)"
  proof (cases r1)
    case (Inl e)
    then show ?thesis
      using withinD [OF assms(1) st m] run m by (auto simp: bind_dec_def)
  next
    case (Inr x)
    then have "st_ok st1" using withinD [OF assms(1) st m] by auto
    moreover have "f x st1 = (r, st')" using run m Inr by (simp add: bind_dec_def)
    ultimately show ?thesis using assms(2) by (auto simp: within_def)
  qed
qed

lemma within_if: "within m \<Longrightarrow> within m' \<Longrightarrow> within (if b then m else m')"
  by simp

lemma st_ok_depth [simp]: "st_ok (st\<lparr>d_depth := d\<rparr>) = st_ok st"
  by (simp add: st_ok_def)

lemma within_with_depth:
  assumes "within m"
  shows "within (with_depth m)"
  unfolding within_def
proof (intro allI impI)
  fix st r st'
  assume st: "st_ok st" and run: "with_depth m st = (r, st')"
  obtain r1 st1 where m: "m (st\<lparr>d_depth := d_depth st + 1\<rparr>) = (r1, st1)"
    by (cases "m (st\<lparr>d_depth := d_depth st + 1\<rparr>)")
  have "st_ok st1 \<or> (\<exists>e. r1 = Inl e \<and> is_hostile e)"
    by (rule withinD [OF assms _ m]) (simp add: st)
  then show "st_ok st' \<or> (\<exists>e. r = Inl e \<and> is_hostile e)"
    using run st m by (auto simp: with_depth_def Let_def split: if_splits)
qed

lemma st_ok_scope: "st_ok (st\<lparr>d_budget_scope := n\<rparr>) \<longleftrightarrow>
    0 < n \<and> reg_ok st \<and> d_nodes st \<le> d_node_limit st \<and> d_node_limit st < usize_max"
  by (auto simp: st_ok_def)

lemma within_with_scope:
  assumes "within m" "keeps frame m"
  shows "within (with_scope n m)"
  unfolding within_def
proof (intro allI impI)
  fix st r st'
  assume st: "st_ok st" and run: "with_scope n m st = (r, st')"
  define st1 where "st1 = st\<lparr>d_budget_scope := d_budget_scope st + 1\<rparr>"
  obtain st2 where m: "m st1 = (r, st2)" and st': "st' = st2\<lparr>d_budget_scope := d_budget_scope st2 - 1\<rparr>"
    using run st by (auto simp: with_scope_def st1_def st_ok_def Let_def split: prod.splits)
  have "st_ok st1" using st by (simp add: st1_def st_ok_scope) (simp add: st_ok_def)
  moreover have "d_budget_scope st2 = d_budget_scope st + 1"
    using keeps_frameD [OF assms(2) m] by (simp add: frame_def st1_def)
  moreover have "0 < d_budget_scope st" using st by (simp add: st_ok_def)
  ultimately show "st_ok st' \<or> (\<exists>e. r = Inl e \<and> is_hostile e)"
    using withinD [OF assms(1) _ m] by (auto simp: st' st_ok_scope) (simp add: st_ok_def)+
qed

lemma within_charge: "within (charge_nodes n)"
  by (auto simp: within_def charge_nodes_def st_ok_def Let_def split: if_splits)

lemma within_register: "within (register k ft)"
  by (auto simp: within_def register_def st_ok_def reg_ok_def)

lemma within_reads:
  "within (check_resolved_height h)" "within (decode_size data)" "within (decode_string data)"
  "within (read_key data)" "within depth_exhausted" "within (ret x)" "within (fail e)"
  by (rule within_same, simp add: check_resolved_height_def decode_size_def decode_string_def
      read_key_def depth_exhausted_def ret_def fail_def Let_def)+

lemmas within_intros = within_bind within_if within_with_depth within_with_scope within_charge
  within_register within_reads

lemma charge_nodes_Inr:
  "st_ok st \<Longrightarrow> charge_nodes n st = (Inr u, st') \<Longrightarrow>
   st' = st\<lparr>d_nodes := d_nodes st + n\<rparr> \<and> d_nodes st + n \<le> d_node_limit st"
  by (auto simp: charge_nodes_def st_ok_def saturating_add_def Let_def split: if_splits)

lemma only_id_frame: "keeps frame (\<lambda>st. case d_registry st key of
    Some (ft, height, ns) \<Rightarrow>
      bind_dec (check_resolved_height height) (\<lambda>_. bind_dec (charge_nodes ns) (\<lambda>_. ret (g ft, n))) st
  | None \<Rightarrow> (Inl e, st))"
proof -
  have "keeps frame (bind_dec (check_resolved_height height)
      (\<lambda>_. bind_dec (charge_nodes ns) (\<lambda>_. ret (g ft, n))))" for height ns ft
    by (intro keeps_intros)
  then have "frame st (snd (bind_dec (check_resolved_height height)
      (\<lambda>_. bind_dec (charge_nodes ns) (\<lambda>_. ret (g ft, n))) st))" for height ns ft st
    unfolding keeps_def by blast
  then show ?thesis by (simp add: keeps_def fr.refl split: option.splits prod.splits)
qed

lemma only_id_within: "within (\<lambda>st. case d_registry st key of
    Some (ft, height, ns) \<Rightarrow>
      bind_dec (check_resolved_height height) (\<lambda>_. bind_dec (charge_nodes ns) (\<lambda>_. ret (g ft, n))) st
  | None \<Rightarrow> (Inl e, st))"
proof -
  have "within (bind_dec (check_resolved_height height)
      (\<lambda>_. bind_dec (charge_nodes ns) (\<lambda>_. ret (g ft, n))))" for height ns ft
    by (intro within_intros)
  note * = withinD [OF this]
  show ?thesis
    unfolding within_def by (auto split: option.splits prod.splits dest: *)
qed

lemma with_depth_Inr:
  "with_depth m st = (Inr x, st') \<longleftrightarrow>
     d_depth st < max_depth (d_limits st) \<and>
     (\<exists>st2. m (st\<lparr>d_depth := Suc (d_depth st)\<rparr>) = (Inr x, st2) \<and>
       st' = st2\<lparr>d_depth := d_depth st2 - 1\<rparr>)"
  by (auto simp: with_depth_def Let_def split: prod.splits)

section \<open>What the type parser promises\<close>

text \<open>A parsed type fits under the depth limit at the point it was read, and each of its nodes
  was charged to the budget.\<close>

definition type_post :: "pvd_decoder \<Rightarrow> field_type \<Rightarrow> pvd_decoder \<Rightarrow> bool" where
  "type_post st ft st' \<longleftrightarrow>
     d_depth st + type_height ft \<le> max_depth (d_limits st) \<and>
     d_nodes st + type_nodes ft \<le> d_nodes st'"

locale type_parser =
  fixes parse :: type_rec
  assumes parse_frame: "keeps frame (parse data)"
    and parse_within: "within (parse data)"
    and parse_bounds: "parse data st = (Inr (ft, c), st') \<Longrightarrow> 0 < c \<and> c \<le> length data"
    and parse_post: "st_ok st \<Longrightarrow> parse data st = (Inr (ft, c), st') \<Longrightarrow> type_post st ft st'"
begin

lemma field_frame: "keeps frame (parse_field_desc parse data)"
  unfolding parse_field_desc_def
  by (intro keeps_intros allI) (auto intro!: keeps_intros parse_frame split: prod.splits)

lemma field_within: "within (parse_field_desc parse data)"
  unfolding parse_field_desc_def
  by (intro within_intros keeps_intros)
    (auto intro!: within_intros keeps_intros parse_within parse_frame split: prod.splits)

lemma field_Inr:
  assumes "parse_field_desc parse data st = (Inr (f, c), st')"
  obtains name off ft c' st1 st2 where "f = FieldDesc name ft" "c = off + c'"
    "0 < off" "off < length data" "parse (drop off data) st1 = (Inr (ft, c'), st2)"
    "d_depth st1 = d_depth st" "d_limits st1 = d_limits st"
    "st_ok st \<Longrightarrow> st_ok st1 \<and> d_nodes st1 = d_nodes st \<and> d_nodes st' = d_nodes st2"
proof -
  define st1 where "st1 = (if d_budget_scope st = 0
      then st\<lparr>d_nodes := 0, d_node_limit := node_ceiling (max_struct_fields (d_limits st)) (length data)\<rparr>
      else st)\<lparr>d_budget_scope := d_budget_scope st + 1\<rparr>"
  from assms obtain name off ft c' st2 where
    "decode_string_prefixed data (d_is_be st1) Strict = Inr (name, off)"
    "off < length data" "parse (drop off data) st1 = (Inr (ft, c'), st2)"
    "f = FieldDesc name ft" "c = off + c'" "st' = st2\<lparr>d_budget_scope := d_budget_scope st2 - 1\<rparr>"
    by (auto simp: parse_field_desc_def with_scope_def st1_def Let_def bind_dec_Inr
        decode_string_def split: if_splits prod.splits)
  with decode_string_bounds [of data "d_is_be st1" Strict name off] show ?thesis
    by (intro that [of name ft off c' st1 st2]) (auto simp: st1_def st_ok_scope, auto simp: st_ok_def)
qed

lemma field_bounds: "parse_field_desc parse data st = (Inr (f, c), st') \<Longrightarrow> 0 < c \<and> c \<le> length data"
  by (erule field_Inr) (fastforce dest: parse_bounds)

lemma field_post:
  assumes "st_ok st" "parse_field_desc parse data st = (Inr (f, c), st')"
  shows "type_post st (fd_type f) st'"
  using assms(2)
proof (rule field_Inr)
  fix name off ft c' st1 st2
  assume "f = FieldDesc name ft" and run: "parse (drop off data) st1 = (Inr (ft, c'), st2)"
    and "d_depth st1 = d_depth st" "d_limits st1 = d_limits st"
    and ok: "st_ok st \<Longrightarrow> st_ok st1 \<and> d_nodes st1 = d_nodes st \<and> d_nodes st' = d_nodes st2"
  moreover have "type_post st1 ft st2"
    using ok [OF assms(1)] run by (blast intro: parse_post)
  ultimately show ?thesis
    using ok [OF assms(1)] by (simp add: type_post_def)
qed

lemma fields_frame: "keeps frame (parse_fields parse k data off acc)"
proof (induction k arbitrary: off acc)
  case 0
  then show ?case by (simp add: keeps_def fr.refl)
next
  case (Suc k)
  show ?case
    unfolding keeps_def
  proof
    fix st
    obtain r st1 where run: "parse_field_desc parse (drop off data) st = (r, st1)"
      by (cases "parse_field_desc parse (drop off data) st")
    have "frame st st1" by (rule keeps_frameD [OF field_frame run])
    moreover have "frame st1 (snd (parse_fields parse k data off' acc' st1))" for off' acc'
      using Suc.IH by (simp add: keeps_def)
    ultimately show "frame st (snd (parse_fields parse (Suc k) data off acc st))"
      using run by (auto simp: fr.refl split: sum.splits intro: fr.trans)
  qed
qed

lemma fields_within: "within (parse_fields parse k data off acc)"
proof (induction k arbitrary: off acc)
  case 0
  then show ?case by (simp add: within_same)
next
  case (Suc k)
  show ?case
    unfolding within_def
  proof (intro allI impI)
    fix st r st'
    assume st: "st_ok st" and run: "parse_fields parse (Suc k) data off acc st = (r, st')"
    obtain r1 st1 where field: "parse_field_desc parse (drop off data) st = (r1, st1)"
      by (cases "parse_field_desc parse (drop off data) st")
    have "st_ok st1 \<or> (\<exists>e. r1 = Inl e \<and> is_hostile e)"
      by (rule withinD [OF field_within st field])
    then show "st_ok st' \<or> (\<exists>e. r = Inl e \<and> is_hostile e)"
      using run field st
      by (auto split: sum.splits if_splits dest: withinD [OF Suc.IH])
  qed
qed

lemma fields_bounds:
  assumes "parse_fields parse k data off acc st = (Inr (fs, off'), st')" "off \<le> length data"
  shows "off \<le> off' \<and> off' \<le> length data"
  using assms
proof (induction k arbitrary: off acc st)
  case 0
  then show ?case by simp
next
  case (Suc k)
  show ?case
  proof (cases "off < length data")
    case True
    obtain r1 st1 where field: "parse_field_desc parse (drop off data) st = (r1, st1)"
      by (cases "parse_field_desc parse (drop off data) st")
    show ?thesis
    proof (cases r1)
      case (Inl e)
      then show ?thesis using Suc.prems True field by (auto split: if_splits)
    next
      case (Inr fc)
      then obtain f c where fc: "r1 = Inr (f, c)" by (cases fc) auto
      with field_bounds [of "drop off data"] field True have "off + c \<le> length data"
        by fastforce
      moreover have "parse_fields parse k data (off + c) (acc @ [f]) st1 = (Inr (fs, off'), st')"
        using Suc.prems True field fc by simp
      ultimately show ?thesis using Suc.IH [of "off + c" "acc @ [f]" st1] True by auto
    qed
  qed (use Suc.prems in simp)
qed

lemma fields_post:
  assumes "st_ok st" "parse_fields parse k data off acc st = (Inr (fs, off'), st')"
  shows "\<exists>gs. fs = acc @ gs \<and> (\<forall>g \<in> set gs. d_depth st + type_height (fd_type g) \<le> max_depth (d_limits st))
    \<and> d_nodes st + sum_list (map (\<lambda>g. type_nodes (fd_type g)) gs) \<le> d_nodes st'"
  using assms
proof (induction k arbitrary: off acc st)
  case 0
  then show ?case by simp
next
  case (Suc k)
  show ?case
  proof (cases "off < length data")
    case True
    obtain r1 st1 where field: "parse_field_desc parse (drop off data) st = (r1, st1)"
      by (cases "parse_field_desc parse (drop off data) st")
    have fr: "frame st st1" by (rule keeps_frameD [OF field_frame field])
    then have mono: "d_nodes st \<le> d_nodes st1"
      using Suc.prems(1) by (auto simp: frame_def st_ok_def)
    show ?thesis
    proof (cases r1)
      case (Inl e)
      then show ?thesis using Suc.prems True field mono by (auto split: if_splits)
    next
      case (Inr fc)
      then obtain f c where fc: "r1 = Inr (f, c)" by (cases fc) auto
      have post: "type_post st (fd_type f) st1" and ok1: "st_ok st1"
        using field_post [OF Suc.prems(1)] within_Inr [OF field_within Suc.prems(1)] field fc
        by blast+
      have "parse_fields parse k data (off + c) (acc @ [f]) st1 = (Inr (fs, off'), st')"
        using Suc.prems True field fc by simp
      from Suc.IH [OF ok1 this] obtain gs where "fs = (acc @ [f]) @ gs"
        "\<forall>g \<in> set gs. d_depth st1 + type_height (fd_type g) \<le> max_depth (d_limits st1)"
        "d_nodes st1 + sum_list (map (\<lambda>g. type_nodes (fd_type g)) gs) \<le> d_nodes st'"
        by blast
      with post fr show ?thesis
        by (intro exI [of _ "f # gs"]) (auto simp: type_post_def frame_def)
    qed
  qed (use Suc.prems in simp)
qed

lemma structure_frame: "keeps frame (parse_structure_desc parse data)"
proof -
  have "keeps frame (\<lambda>st. if n > max_struct_fields (d_limits st)
      then (Inl (ArrayTooLarge ''structure fields'' n (max_struct_fields (d_limits st))), st)
      else bind_dec (parse_fields parse n data off []) (\<lambda>(fs, offset).
         ret (StructureDesc sid fs, offset)) st)" (is "keeps frame ?m") for n off sid
  proof -
    have "keeps frame (bind_dec (parse_fields parse n data off []) (\<lambda>(fs, offset).
         ret (StructureDesc sid fs, offset)))"
      by (intro keeps_intros fields_frame) (auto intro: keeps_intros)
    then show ?thesis by (simp add: keeps_def fr.refl)
  qed
  then show ?thesis
    unfolding parse_structure_desc_def
    by (intro keeps_intros) (auto intro!: keeps_intros split: prod.splits)
qed

lemma structure_within: "within (parse_structure_desc parse data)"
proof -
  have "within (\<lambda>st. if n > max_struct_fields (d_limits st)
      then (Inl (ArrayTooLarge ''structure fields'' n (max_struct_fields (d_limits st))), st)
      else bind_dec (parse_fields parse n data off []) (\<lambda>(fs, offset).
         ret (StructureDesc sid fs, offset)) st)" for n off sid
  proof -
    have "within (bind_dec (parse_fields parse n data off []) (\<lambda>(fs, offset).
         ret (StructureDesc sid fs, offset)))"
      by (intro within_intros fields_within) (auto intro: within_intros)
    then show ?thesis by (simp add: within_def)
  qed
  then show ?thesis
    unfolding parse_structure_desc_def
    by (intro within_intros) (auto intro!: within_intros split: prod.splits)
qed

lemma structure_Inr:
  assumes "parse_structure_desc parse data st = (Inr (d, c), st')"
  obtains n off where "0 < off" "off \<le> length data" "n \<le> max_struct_fields (d_limits st)"
    "parse_fields parse n data off [] st = (Inr (sd_fields d, c), st')"
proof -
  from assms obtain sid c1 n c2 fs where
    "decode_string_prefixed data (d_is_be st) Strict = Inr (sid, c1)"
    "decode_size_prefixed (drop c1 data) (d_is_be st) = Inr (n, c2)"
    "\<not> n > max_struct_fields (d_limits st)"
    "parse_fields parse n data (c1 + c2) [] st = (Inr (fs, c), st')" "sd_fields d = fs"
    by (auto simp: parse_structure_desc_def bind_dec_Inr decode_string_def decode_size_def
        split: if_splits)
  with decode_string_bounds decode_size_bounds show ?thesis
    by (intro that [of "c1 + c2" n]) fastforce+
qed

lemma structure_bounds:
  "parse_structure_desc parse data st = (Inr (d, c), st') \<Longrightarrow> 0 < c \<and> c \<le> length data"
  by (erule structure_Inr) (fastforce dest: fields_bounds)

lemma structure_post:
  assumes "st_ok st" "parse_structure_desc parse data st = (Inr (d, c), st')"
  shows "(\<forall>g \<in> set (sd_fields d). d_depth st + type_height (fd_type g) \<le> max_depth (d_limits st))
    \<and> d_nodes st + sum_list (map (\<lambda>g. type_nodes (fd_type g)) (sd_fields d)) \<le> d_nodes st'"
  using assms(2) by (rule structure_Inr) (auto dest!: fields_post [OF assms(1)])

lemma tag_frame: "keeps frame (parse_type_tag parse data)"
  unfolding parse_type_tag_def Let_def
  by (intro keeps_intros; (split prod.splits option.splits)?; (intro allI conjI impI)?)
    (auto intro!: keeps_intros parse_frame structure_frame only_id_frame
      split: prod.splits option.splits)

lemma body_frame: "keeps frame (parse_type_desc_body parse data)"
  unfolding parse_type_desc_body_def by (intro keeps_intros tag_frame)

lemma tag_within: "within (parse_type_tag parse data)"
  unfolding parse_type_tag_def Let_def
  by (intro within_intros keeps_intros; (split prod.splits option.splits)?; (intro allI conjI impI)?)
    (auto intro!: within_intros parse_within structure_within only_id_within
      split: prod.splits option.splits)

lemma body_within: "within (parse_type_desc_body parse data)"
  unfolding parse_type_desc_body_def by (intro within_intros tag_within)

lemma tag_bounds:
  assumes "data \<noteq> []" "parse_type_tag parse data st = (Inr (ft, c), st')"
  shows "0 < c \<and> c \<le> length data"
  using assms
  by (auto simp: parse_type_tag_def Let_def bind_dec_Inr decode_size_def read_key_def neq_Nil_conv
      split: if_splits prod.splits option.splits
      dest!: parse_bounds structure_bounds decode_size_bounds)

lemma body_bounds:
  "parse_type_desc_body parse data st = (Inr (ft, c), st') \<Longrightarrow> 0 < c \<and> c \<le> length data"
  by (auto simp: parse_type_desc_body_def with_depth_Inr bind_dec_Inr split: if_splits
      dest!: tag_bounds)

lemma struct_type_post:
  assumes "st_ok st" "d_depth st \<le> max_depth (d_limits st)"
    and "parse_structure_desc parse data st = (Inr (d, c), st')"
    and "sub_fields ft = Some (sd_fields d)"
  shows "d_depth st + type_height ft \<le> Suc (max_depth (d_limits st)) \<and>
    d_nodes st + type_nodes ft \<le> Suc (d_nodes st')"
proof -
  note post = structure_post [OF assms(1,3)]
  have "max_list (map (\<lambda>g. type_height (fd_type g)) (sd_fields d))
      \<le> max_depth (d_limits st) - d_depth st"
    using post by (auto simp: max_list_le_iff)
  then show ?thesis
    using post assms(2,4) by simp
qed

text \<open>The dispatch runs one level down, after the charge for a literal type.\<close>

lemma tag_post_full:
  assumes "st_ok st" "data ! 0 = 0xFD" "parse_type_tag parse data st = (Inr (ft, c), st')"
  shows "type_post st ft st'"
proof -
  from assms(2,3) obtain c' st2 where rec: "parse (drop 3 data) st = (Inr (ft, c'), st2)"
      and "d_nodes st' = d_nodes st2"
    by (auto simp: parse_type_tag_def Let_def bind_dec_Inr read_key_def register_def
        split: if_splits)
  with parse_post [OF assms(1) rec] show ?thesis by (simp add: type_post_def)
qed

lemma tag_post_only:
  assumes "st_ok st" "data ! 0 = 0xFE" "parse_type_tag parse data st = (Inr (ft, c), st')"
  shows "d_depth st + type_height ft \<le> Suc (max_depth (d_limits st)) \<and>
    d_nodes st + type_nodes ft \<le> d_nodes st'"
proof -
  from assms(2,3) obtain key h ns where reg: "d_registry st key = Some (ft, h, ns)"
      and check: "d_depth st + h - 1 \<le> max_depth (d_limits st)"
      and charge: "charge_nodes ns st = (Inr (), st')"
    by (auto simp: parse_type_tag_def Let_def bind_dec_Inr read_key_def check_resolved_height_def
        split: if_splits option.splits)
  from reg assms(1) have "h = type_height ft" "ns = type_nodes ft"
    unfolding st_ok_def reg_ok_def by blast+
  with check charge_nodes_Inr [OF assms(1) charge] show ?thesis by auto
qed

lemma tag_post_literal:
  assumes ok: "st_ok st" and lit: "data ! 0 \<noteq> 0xFD" "data ! 0 \<noteq> 0xFE"
    and depth: "d_depth st \<le> max_depth (d_limits st)"
    and run: "parse_type_tag parse data st = (Inr (ft, c), st')"
  shows "d_depth st + type_height ft \<le> Suc (max_depth (d_limits st)) \<and>
    d_nodes st + type_nodes ft \<le> Suc (d_nodes st')"
proof -
  have "(\<exists>d off c. parse_structure_desc parse (drop off data) st = (Inr (d, c), st') \<and>
        sub_fields ft = Some (sd_fields d)) \<or> sub_fields ft = None \<and> st' = st"
    using lit run
    by (auto simp: parse_type_tag_def Let_def bind_dec_Inr decode_size_def
        split: if_splits prod.splits option.splits) blast+
  then show ?thesis
    using struct_type_post [OF ok depth] depth by (auto simp: type_height_leaf)
qed

lemma body_post:
  assumes ok: "st_ok st" and run: "parse_type_desc_body parse data st = (Inr (ft, c), st')"
  shows "type_post st ft st'"
proof -
  define st1 where "st1 = st\<lparr>d_depth := Suc (d_depth st)\<rparr>"
  have ok1: "st_ok st1" using ok by (simp add: st1_def)
  from run obtain st2 st3 where depth: "d_depth st < max_depth (d_limits st)"
    and pre: "(if data ! 0 \<noteq> 0xFD \<and> data ! 0 \<noteq> 0xFE then charge_nodes 1 else ret ()) st1 = (Inr (), st2)"
    and tag: "parse_type_tag parse data st2 = (Inr (ft, c), st3)" and nodes: "d_nodes st' = d_nodes st3"
    by (auto simp: parse_type_desc_body_def with_depth_Inr bind_dec_Inr st1_def split: if_splits)
  show ?thesis
  proof (cases "data ! 0 \<noteq> 0xFD \<and> data ! 0 \<noteq> 0xFE")
    case True
    with pre have charge: "charge_nodes 1 st1 = (Inr (), st2)" by simp
    have "st_ok st2" by (rule within_Inr [OF within_charge ok1 charge])
    from tag_post_literal [OF this _ _ _ tag] True depth charge_nodes_Inr [OF ok1 charge] nodes
    show ?thesis by (simp add: type_post_def st1_def)
  next
    case False
    with pre have "st2 = st1" by simp
    with tag_post_full [OF ok1 _ tag [unfolded \<open>st2 = st1\<close>]]
      tag_post_only [OF ok1 _ tag [unfolded \<open>st2 = st1\<close>]] False nodes
    show ?thesis by (auto simp: type_post_def st1_def)
  qed
qed

end

section \<open>Closing the recursion\<close>

lemma depth_exhausted_not_Inr [simp]: "depth_exhausted st \<noteq> (Inr x, st')"
  by (simp add: depth_exhausted_def)

lemma type_parser_fuel: "type_parser (parse_type_desc_fuel n)"
proof (induction n)
  case 0
  show ?case
    by unfold_locales (auto intro: keeps_intros within_intros)
next
  case (Suc n)
  show ?case
    by unfold_locales
      (auto intro: type_parser.body_frame [OF Suc] type_parser.body_within [OF Suc]
        dest: type_parser.body_bounds [OF Suc] type_parser.body_post [OF Suc])
qed

lemma type_parser_parse_type_desc: "type_parser parse_type_desc"
proof
  fix data
  show "keeps frame (parse_type_desc data)"
    using type_parser.parse_frame [OF type_parser_fuel]
    by (simp add: keeps_def parse_type_desc_def)
  show "within (parse_type_desc data)"
    unfolding within_def parse_type_desc_def
    using type_parser.parse_within [OF type_parser_fuel, unfolded within_def] by blast
next
  fix data st ft c st'
  assume run: "parse_type_desc data st = (Inr (ft, c), st')"
  then show "0 < c \<and> c \<le> length data"
    unfolding parse_type_desc_def by (rule type_parser.parse_bounds [OF type_parser_fuel])
  assume "st_ok st"
  then show "type_post st ft st'"
    using run unfolding parse_type_desc_def by (rule type_parser.parse_post [OF type_parser_fuel])
qed

interpretation tp: type_parser parse_type_desc
  by (rule type_parser_parse_type_desc)

text \<open>Two recursive calls that agree at one depth give the same parser one level up.\<close>

definition agree :: "nat \<Rightarrow> decode_limits \<Rightarrow> ('b \<Rightarrow> 'a dec) \<Rightarrow> ('b \<Rightarrow> 'a dec) \<Rightarrow> bool" where
  "agree D L p q \<longleftrightarrow> (\<forall>x st. d_depth st = D \<and> d_limits st = L \<longrightarrow> p x st = q x st)"

lemma agreeD: "agree D L p q \<Longrightarrow> d_depth st = D \<Longrightarrow> d_limits st = L \<Longrightarrow> p x st = q x st"
  by (simp add: agree_def)

lemma bind_dec_cong:
  "(\<And>x st1. m st = (Inr x, st1) \<Longrightarrow> f x st1 = g x st1) \<Longrightarrow> bind_dec m f st = bind_dec m g st"
  by (auto simp: bind_dec_def split: prod.splits sum.splits)

lemma parse_field_desc_agree:
  "agree (d_depth st) (d_limits st) p q \<Longrightarrow> parse_field_desc p data st = parse_field_desc q data st"
  by (simp add: parse_field_desc_def with_scope_def bind_dec_def decode_string_def agree_def Let_def
      split: prod.splits sum.splits)

lemma parse_fields_agree:
  assumes "type_parser p" "agree (d_depth st) (d_limits st) p q"
  shows "parse_fields p k data off acc st = parse_fields q k data off acc st"
  using assms(2)
proof (induction k arbitrary: off acc st)
  case (Suc k)
  obtain r st1 where run: "parse_field_desc p (drop off data) st = (r, st1)"
    by (cases "parse_field_desc p (drop off data) st")
  then have "frame st st1"
    by (rule keeps_frameD [OF type_parser.field_frame [OF assms(1)]])
  then have "parse_fields p k data off' acc' st1 = parse_fields q k data off' acc' st1" for off' acc'
    using Suc.prems by (intro Suc.IH) (simp add: frame_def)
  then show ?case
    using run parse_field_desc_agree [OF Suc.prems, of "drop off data"]
    by (simp split: sum.splits)
qed simp

lemma parse_structure_desc_agree:
  assumes "type_parser p" "agree (d_depth st) (d_limits st) p q"
  shows "parse_structure_desc p data st = parse_structure_desc q data st"
  using parse_fields_agree [OF assms]
  by (simp add: parse_structure_desc_def bind_dec_def decode_string_def decode_size_def
      split: prod.splits sum.splits)

lemma parse_type_desc_body_agree:
  assumes "type_parser p" "agree (Suc (d_depth st)) (d_limits st) p q"
  shows "parse_type_desc_body p data st = parse_type_desc_body q data st"
proof -
  have struct: "parse_structure_desc p dt s = parse_structure_desc q dt s"
    and rec: "p dt s = q dt s"
    if "d_depth s = Suc (d_depth st)" "d_limits s = d_limits st" for s dt
    using parse_structure_desc_agree [OF assms(1), of s q dt] agreeD [OF assms(2)] assms(2) that
    by simp_all
  show ?thesis
    by (simp add: parse_type_desc_body_def parse_type_tag_def with_depth_def bind_dec_def
        charge_nodes_def read_key_def ret_def Let_def struct rec)
qed

lemma with_depth_exhausted:
  "max_depth (d_limits st) \<le> d_depth st \<Longrightarrow> with_depth m st = depth_exhausted st"
  by (simp add: with_depth_def depth_exhausted_def Let_def)

lemma depth_fuel_Suc:
  "d_depth st < max_depth (d_limits st) \<Longrightarrow>
   depth_fuel st = Suc (depth_fuel (st\<lparr>d_depth := Suc (d_depth st)\<rparr>))"
  by (simp add: depth_fuel_def)

lemma depth_fuel_at: "d_depth st = D \<Longrightarrow> d_limits st = L \<Longrightarrow> depth_fuel st = max_depth L + 1 - D"
  by (simp add: depth_fuel_def)

lemma parse_type_desc_unfold:
  "parse_type_desc data st = parse_type_desc_body parse_type_desc data st"
proof (cases "d_depth st < max_depth (d_limits st)")
  case True
  define n where "n = max_depth (d_limits st) - d_depth st"
  have "depth_fuel st = Suc n"
    using True by (simp add: depth_fuel_def n_def)
  moreover have "agree (Suc (d_depth st)) (d_limits st) (parse_type_desc_fuel n) parse_type_desc"
    by (simp add: agree_def parse_type_desc_def depth_fuel_at n_def)
  ultimately show ?thesis
    by (simp add: parse_type_desc_def [of data]
        parse_type_desc_body_agree [OF type_parser_fuel])
next
  case False
  then have body: "parse_type_desc_body p data st = depth_exhausted st" for p
    by (simp add: parse_type_desc_body_def with_depth_exhausted)
  show ?thesis
    by (cases "depth_fuel st") (simp_all add: parse_type_desc_def [of data] body)
qed

section \<open>Introspection\<close>

text \<open>The introspection entry point gives its caller the same guarantees.\<close>

locale intro_parser =
  fixes parse :: intro_rec
  assumes intro_frame: "keeps frame (parse data)"
    and intro_within: "within (parse data)"
    and intro_bounds: "parse data st = (Inr (d, c), st') \<Longrightarrow> 0 < c \<and> c \<le> length data"
    and intro_post: "st_ok st \<Longrightarrow> parse data st = (Inr (d, c), st') \<Longrightarrow>
      type_post st (FT_Structure d) st'"
begin

lemma only_struct_frame: "keeps frame (\<lambda>st. case d_registry st key of
    Some (FT_Structure d, height, ns) \<Rightarrow>
      bind_dec (check_resolved_height height) (\<lambda>_. bind_dec (charge_nodes ns) (\<lambda>_. ret (d, n))) st
  | _ \<Rightarrow> (Inl e, st))"
proof -
  have "keeps frame (bind_dec (check_resolved_height height)
      (\<lambda>_. bind_dec (charge_nodes ns) (\<lambda>_. ret (d, n))))" for height ns and d :: structure_desc
    by (intro keeps_intros)
  then have "frame st (snd (bind_dec (check_resolved_height height)
      (\<lambda>_. bind_dec (charge_nodes ns) (\<lambda>_. ret (d, n))) st))" for height ns st and d :: structure_desc
    unfolding keeps_def by blast
  then show ?thesis
    by (simp add: keeps_def fr.refl split: option.splits prod.splits field_type.splits)
qed

lemma only_struct_within: "within (\<lambda>st. case d_registry st key of
    Some (FT_Structure d, height, ns) \<Rightarrow>
      bind_dec (check_resolved_height height) (\<lambda>_. bind_dec (charge_nodes ns) (\<lambda>_. ret (d, n))) st
  | _ \<Rightarrow> (Inl e, st))"
proof -
  have "within (bind_dec (check_resolved_height height)
      (\<lambda>_. bind_dec (charge_nodes ns) (\<lambda>_. ret (d, n))))" for height ns d
    by (intro within_intros)
  note * = withinD [OF this]
  show ?thesis
    unfolding within_def by (auto split: option.splits prod.splits field_type.splits dest: *)
qed

lemma intro_tag_frame: "keeps frame (parse_introspection_tag parse data)"
  unfolding parse_introspection_tag_def Let_def
  by (intro keeps_intros; (split prod.splits)?; (intro allI conjI impI)?)
    (auto intro!: keeps_intros intro_frame tp.structure_frame only_struct_frame split: prod.splits)

lemma intro_body_frame: "keeps frame (parse_introspection_body parse data)"
  unfolding parse_introspection_body_def by (intro keeps_intros intro_tag_frame)

lemma intro_tag_within: "within (parse_introspection_tag parse data)"
  unfolding parse_introspection_tag_def Let_def
  by (intro within_intros keeps_intros; (split prod.splits)?; (intro allI conjI impI)?)
    (auto intro!: within_intros intro_within tp.structure_within only_struct_within
      split: prod.splits)

lemma intro_body_within: "within (parse_introspection_body parse data)"
  unfolding parse_introspection_body_def
  by (intro within_intros intro_tag_within keeps_intros intro_tag_frame)

lemma intro_body_bounds:
  assumes "parse_introspection_body parse data st = (Inr (d, c), st')"
  shows "0 < c \<and> c \<le> length data"
  using assms
  by (auto simp: parse_introspection_body_def parse_introspection_tag_def with_scope_def
      with_depth_def Let_def bind_dec_Inr read_key_def neq_Nil_conv
      split: if_splits prod.splits option.splits field_type.splits
      dest!: intro_bounds tp.structure_bounds)

lemma intro_tag_post:
  assumes ok: "st_ok st" and depth: "d_depth st \<le> max_depth (d_limits st)"
    and run: "parse_introspection_tag parse data st = (Inr (d, c), st')"
  shows "d_depth st + type_height (FT_Structure d) \<le> Suc (max_depth (d_limits st)) \<and>
    d_nodes st + type_nodes (FT_Structure d) \<le> d_nodes st'"
proof -
  consider (struct) "data ! 0 = 0x80" | (full) "data ! 0 = 0xFD" | (only) "data ! 0 = 0xFE"
    using run by (auto simp: parse_introspection_tag_def Let_def split: if_splits)
  then show ?thesis
  proof cases
    case struct
    with run obtain st2 c' where charge: "charge_nodes 1 st = (Inr (), st2)"
        and parse: "parse_structure_desc parse_type_desc (drop 1 data) st2 = (Inr (d, c'), st')"
      by (auto simp: parse_introspection_tag_def Let_def bind_dec_Inr)
    have "st_ok st2" by (rule within_Inr [OF within_charge ok charge])
    from tp.struct_type_post [OF this _ parse, of "FT_Structure d"] depth
      charge_nodes_Inr [OF ok charge] show ?thesis by simp
  next
    case full
    with run obtain c' st2 where rec: "parse (drop 3 data) st = (Inr (d, c'), st2)"
        and "d_nodes st' = d_nodes st2"
      by (auto simp: parse_introspection_tag_def Let_def bind_dec_Inr read_key_def register_def
          split: if_splits)
    with intro_post [OF ok rec] show ?thesis by (simp add: type_post_def)
  next
    case only
    with run obtain key h ns where reg: "d_registry st key = Some (FT_Structure d, h, ns)"
        and check: "d_depth st + h - 1 \<le> max_depth (d_limits st)"
        and charge: "charge_nodes ns st = (Inr (), st')"
      by (auto simp: parse_introspection_tag_def bind_dec_Inr read_key_def check_resolved_height_def
          Let_def split: if_splits option.splits field_type.splits)
    from reg ok have "h = type_height (FT_Structure d)" "ns = type_nodes (FT_Structure d)"
      unfolding st_ok_def reg_ok_def by blast+
    with check charge_nodes_Inr [OF ok charge] show ?thesis by auto
  qed
qed

lemma intro_body_post:
  assumes ok: "st_ok st" and run: "parse_introspection_body parse data st = (Inr (d, c), st')"
  shows "type_post st (FT_Structure d) st'"
proof -
  define st1 where "st1 = st\<lparr>d_budget_scope := Suc (d_budget_scope st), d_depth := Suc (d_depth st)\<rparr>"
  have ok1: "st_ok st1" using ok by (auto simp: st1_def st_ok_def)
  from run ok obtain st2 where depth: "d_depth st < max_depth (d_limits st)"
    and tag: "parse_introspection_tag parse data st1 = (Inr (d, c), st2)"
    and nodes: "d_nodes st' = d_nodes st2"
    by (auto simp: parse_introspection_body_def with_scope_def with_depth_def Let_def st1_def
        st_ok_def split: prod.splits if_splits)
  from intro_tag_post [OF ok1 _ tag] depth nodes show ?thesis
    by (simp add: type_post_def st1_def)
qed

end

lemma with_scope_exhausted [simp]: "with_scope n depth_exhausted st \<noteq> (Inr x, st')"
  by (simp add: with_scope_def depth_exhausted_def Let_def)

lemma intro_parser_fuel: "intro_parser (parse_introspection_fuel n)"
proof (induction n)
  case 0
  show ?case
    by unfold_locales (auto intro: keeps_intros within_intros)
next
  case (Suc n)
  show ?case
    by unfold_locales
      (auto intro: intro_parser.intro_body_frame [OF Suc] intro_parser.intro_body_within [OF Suc]
        dest: intro_parser.intro_body_bounds [OF Suc] intro_parser.intro_body_post [OF Suc])
qed

lemma intro_parser_closed: "intro_parser parse_introspection_with_len"
proof
  fix data
  show "keeps frame (parse_introspection_with_len data)"
    using intro_parser.intro_frame [OF intro_parser_fuel]
    by (simp add: keeps_def parse_introspection_with_len_def)
  show "within (parse_introspection_with_len data)"
    unfolding within_def parse_introspection_with_len_def
    using intro_parser.intro_within [OF intro_parser_fuel, unfolded within_def] by blast
next
  fix data st d c st'
  assume run: "parse_introspection_with_len data st = (Inr (d, c), st')"
  then show "0 < c \<and> c \<le> length data"
    unfolding parse_introspection_with_len_def
    by (rule intro_parser.intro_bounds [OF intro_parser_fuel])
  assume "st_ok st"
  then show "type_post st (FT_Structure d) st'"
    using run unfolding parse_introspection_with_len_def
    by (rule intro_parser.intro_post [OF intro_parser_fuel])
qed

interpretation ip: intro_parser parse_introspection_with_len
  by (rule intro_parser_closed)

lemma parse_introspection_unfold:
  "parse_introspection_with_len data st =
     parse_introspection_body parse_introspection_with_len data st"
proof (cases "d_depth st < max_depth (d_limits st)")
  case True
  define n where "n = max_depth (d_limits st) - d_depth st"
  have fuel: "depth_fuel st = Suc n"
    using True by (simp add: depth_fuel_def n_def)
  have rec: "parse_introspection_fuel n dt s = parse_introspection_with_len dt s"
    if "d_depth s = Suc (d_depth st)" "d_limits s = d_limits st" for dt s
    using that by (simp add: parse_introspection_with_len_def depth_fuel_at n_def)
  have "parse_introspection_body (parse_introspection_fuel n) data st
      = parse_introspection_body parse_introspection_with_len data st"
    by (simp add: parse_introspection_body_def parse_introspection_tag_def with_scope_def
        with_depth_def bind_dec_def read_key_def ret_def Let_def rec)
  then show ?thesis
    by (simp add: parse_introspection_with_len_def [of data] fuel)
next
  case False
  then have body: "parse_introspection_body p data st = with_scope (length data) depth_exhausted st" for p
    by (simp add: parse_introspection_body_def with_scope_def with_depth_exhausted Let_def)
  show ?thesis
    by (cases "depth_fuel st") (simp_all add: parse_introspection_with_len_def [of data] body)
qed

section \<open>Between messages\<close>

text \<open>A decoder no call is running in: no guard is held, and the registry is consistent. This is
  the state a decoder is created in and the state every message finds.\<close>

definition idle :: "pvd_decoder \<Rightarrow> bool" where
  "idle st \<longleftrightarrow> d_depth st = 0 \<and> d_budget_scope st = 0 \<and> reg_ok st \<and>
     max_struct_fields (d_limits st) < usize_max"

lemma idle_new [simp]: "max_struct_fields lims < usize_max \<Longrightarrow> idle (pvd_with_limits be lims)"
  by (simp add: idle_def pvd_with_limits_def reg_ok_def)

lemma node_ceiling_bounds:
  "node_ceiling m n \<le> max m MAX_DECODE_NODES"
  "node_ceiling m n \<le> max m (m + 16 * n)"
  "m < usize_max \<Longrightarrow> node_ceiling m n < usize_max"
  by (auto simp: node_ceiling_def saturating_add_def saturating_mul_def NODES_PER_BYTE_def
      MAX_DECODE_NODES_def usize_max_def)

text \<open>The state in which the outermost scope runs its body.\<close>

definition open_scope :: "nat \<Rightarrow> pvd_decoder \<Rightarrow> pvd_decoder" where
  "open_scope n st = st\<lparr>d_nodes := 0,
     d_node_limit := node_ceiling (max_struct_fields (d_limits st)) n, d_budget_scope := 1\<rparr>"

lemma open_scope_ok: "idle st \<Longrightarrow> st_ok (open_scope n st)"
  by (simp add: idle_def st_ok_def open_scope_def node_ceiling_bounds(3))

lemma with_scope_idle:
  "idle st \<Longrightarrow> with_scope n m st =
     (case m (open_scope n st) of (r, st') \<Rightarrow> (r, st'\<lparr>d_budget_scope := d_budget_scope st' - 1\<rparr>))"
  by (simp add: with_scope_def open_scope_def idle_def Let_def)

lemma idle_frame: "idle st \<Longrightarrow> frame st st' \<Longrightarrow> idle st'"
  by (simp add: idle_def frame_def)

lemma intro_scope_nested:
  assumes "idle st" "parse_introspection_with_len data st = (Inr (d, c), st')"
  shows "\<exists>st2. with_depth (if data = [] then fail (Truncated 1 0)
      else parse_introspection_tag parse_introspection_with_len data) (open_scope (length data) st)
      = (Inr (d, c), st2) \<and> d_nodes st' = d_nodes st2 \<and> d_node_limit st' = d_node_limit st2"
  using assms
  by (auto simp: parse_introspection_unfold [of data st] parse_introspection_body_def
      with_scope_idle split: prod.splits)

lemma intro_idle_post:
  assumes idle: "idle st" and run: "parse_introspection_with_len data st = (Inr (d, c), st')"
  shows "type_height (FT_Structure d) \<le> max_depth (d_limits st) \<and>
    type_nodes (FT_Structure d) \<le> node_ceiling (max_struct_fields (d_limits st)) (length data)"
proof -
  define st1 where "st1 = open_scope (length data) st"
  define st2 where "st2 = st1\<lparr>d_depth := 1\<rparr>"
  have ok: "st_ok st1" "st_ok st2" using open_scope_ok [OF idle] by (simp_all add: st1_def st2_def)
  have st1: "d_depth st1 = 0" "d_limits st1 = d_limits st" "d_nodes st1 = 0"
    "d_node_limit st1 = node_ceiling (max_struct_fields (d_limits st)) (length data)"
    using idle by (simp_all add: st1_def open_scope_def idle_def)
  from intro_scope_nested [OF assms] obtain st3 where depth: "0 < max_depth (d_limits st)"
    and tag: "parse_introspection_tag parse_introspection_with_len data st2 = (Inr (d, c), st3)"
    unfolding st1_def [symmetric] by (auto simp: with_depth_Inr st1 st2_def split: if_splits)
  have "st_ok st3" "frame st2 st3"
    using within_Inr [OF ip.intro_tag_within ok(2) tag] keeps_frameD [OF ip.intro_tag_frame tag]
    by simp_all
  then have "d_nodes st3 \<le> d_node_limit st2"
    using ok by (auto simp: st_ok_def frame_def)
  then show ?thesis
    using ip.intro_tag_post [OF ok(2) _ tag] depth by (simp add: st2_def st1)
qed

section \<open>Running the parser on concrete bytes\<close>

lemmas parser_run = parse_introspection_unfold parse_introspection_body_def
  parse_introspection_tag_def parse_type_desc_unfold parse_type_desc_body_def parse_type_tag_def
  parse_structure_desc_def parse_field_desc_def with_scope_def with_depth_def bind_dec_def
  charge_nodes_def read_key_def decode_size_def decode_string_def decode_size_prefixed_def
  decode_string_prefixed_def ret_def fail_def Let_def register_def check_resolved_height_def
  tc_from_byte_def saturating_add_def saturating_mul_def node_ceiling_def usize_max_def
  NODES_PER_BYTE_def MAX_DECODE_NODES_def of_utf8_def char_of_def bit_Suc_0_iff
  pvd_new_def pvd_with_limits_def default_limits_def

text \<open>A structure with one field \<^verbatim>\<open>a\<close> of type double, as a peer writes it.\<close>

definition sample_bytes :: bytes where
  "sample_bytes = [0x80, 0, 1, 1, 0x61, 0x43]"

definition sample_desc :: structure_desc where
  "sample_desc = StructureDesc None [FieldDesc ''a'' (FT_Scalar TC_Float64)]"

lemma sample_run:
  "\<exists>st'. parse_introspection_with_len sample_bytes (pvd_new True) = (Inr (sample_desc, 6), st')"
  by (simp add: parser_run sample_desc_def sample_bytes_def)

lemma idle_pvd_new [simp]: "idle (pvd_new be)"
  by (simp add: pvd_new_def default_limits_def usize_max_def)

section \<open>Properties of the parser\<close>


text \<open>C7: hostile introspection is bounded. Whatever bytes arrive, a structure descriptor that is
  accepted is no higher than the depth limit and has no more nodes than the budget, which is at
  most the configured field limit plus sixteen nodes for every input byte, and at most a million
  nodes (or the configured limit, when that is larger); a type reference by ID cannot go around
  either bound.\<close>

theorem introspection_bounded:
  assumes "idle st" "parse_introspection_with_len data st = (Inr (d, c), st')"
  shows "type_height (FT_Structure d) \<le> max_depth (d_limits st) \<and>
    type_nodes (FT_Structure d) \<le> max_struct_fields (d_limits st) + 16 * length data \<and>
    type_nodes (FT_Structure d) \<le> max (max_struct_fields (d_limits st)) MAX_DECODE_NODES"
  using intro_idle_post [OF assms] node_ceiling_bounds [of "max_struct_fields (d_limits st)" "length data"]
  by linarith

theorem introspection_bounded_witness:
  "type_height (FT_Structure sample_desc) \<le> 32 \<and> type_nodes (FT_Structure sample_desc) \<le> 65632"
proof -
  obtain st' where "parse_introspection_with_len sample_bytes (pvd_new True) = (Inr (sample_desc, 6), st')"
    using sample_run by blast
  from introspection_bounded [OF idle_pvd_new this] show ?thesis
    by (simp add: pvd_new_def pvd_with_limits_def default_limits_def sample_bytes_def
        del: type_height_node type_nodes_node)
qed

text \<open>C10: the parser consumes at least one byte of what it accepts and never reads past the end of
  its input, so no slice in the source is taken out of range and every loop over it advances.\<close>

theorem parser_consumes:
  "(\<forall>ft c st'. parse_type_desc data st = (Inr (ft, c), st') \<longrightarrow> 0 < c \<and> c \<le> length data) \<and>
   (\<forall>d c st'. parse_introspection_with_len data st = (Inr (d, c), st') \<longrightarrow>
      0 < c \<and> c \<le> length data)"
  using tp.parse_bounds ip.intro_bounds by blast

theorem parser_consumes_witness:
  "\<exists>c st'. parse_introspection_with_len sample_bytes (pvd_new True) = (Inr (sample_desc, c), st') \<and>
     0 < c \<and> c \<le> length sample_bytes"
  using parser_consumes [of sample_bytes "pvd_new True"] sample_run by blast

text \<open>C9: every exit of the parser, with a result or with an error, gives the decoder back as
  it found it but for the registry and the spent budget: both guards are released, byte order
  and limits are untouched, and the heights and node counts cached in the registry are those of
  the registered types. A decoder that rejected one message is fit for the next.\<close>

theorem parser_releases_guards:
  assumes "idle st" "parse_introspection_with_len data st = (r, st')"
  shows "idle st' \<and> d_is_be st' = d_is_be st \<and> d_limits st' = d_limits st"
  using keeps_frameD [OF ip.intro_frame assms(2)] idle_frame [OF assms(1)]
  by (simp add: frame_simps)

theorem parser_releases_guards_witness:
  "idle (snd (parse_introspection_with_len sample_bytes (pvd_new True))) \<and>
   idle (snd (parse_introspection_with_len [0x80, 0, 1, 1] (pvd_new True)))"
  using parser_releases_guards [OF idle_pvd_new surjective_pairing] by blast

end
