(* ===== verification/Pvd_Decode.thy ===== *)
theory Pvd_Decode
  imports Pvd_Parse
begin

text \<open>
  Decoding values: \<^verbatim>\<open>DecodedValue\<close>, \<^verbatim>\<open>decode_scalar\<close>, \<^verbatim>\<open>decode_value\<close>,
  \<^verbatim>\<open>decode_structure\<close> and the bitset-driven decoder of monitor deltas, from
  \<^verbatim>\<open>spvirit-codec/src/spvd_decode.rs\<close>.

  As for the type parser, \<^verbatim>\<open>decode_value\<close> is written with its recursive call as a
  parameter and closed with as many levels as the depth guard still admits.
\<close>

section \<open>Decoded values\<close>

datatype decoded_value =
    DV_Null
  | DV_Boolean bool
  | DV_Int8 i8
  | DV_Int16 i16
  | DV_Int32 i32
  | DV_Int64 i64
  | DV_UInt8 u8
  | DV_UInt16 u16
  | DV_UInt32 u32
  | DV_UInt64 u64
  | DV_Float32 f32
  | DV_Float64 f64
  | DV_String string
  | DV_Array "decoded_value list"
  | DV_Structure "(string \<times> decoded_value) list"
  | DV_Raw bytes

section \<open>Scalars and array guards\<close>

definition decode_scalar :: "bytes \<Rightarrow> type_code \<Rightarrow> (decoded_value \<times> nat) dec" where
  "decode_scalar data tc st =
     (let be = d_is_be st in
      case tc_size tc of
        None \<Rightarrow> (Inl (Malformed ''type code has no fixed scalar size''), st)
      | Some sz \<Rightarrow>
          if length data < sz then (Inl (Truncated sz (length data)), st)
          else
            let bs = take sz data;
                value = (case tc of
                    TC_Boolean \<Rightarrow> Some (DV_Boolean (data ! 0 \<noteq> 0))
                  | TC_Int8 \<Rightarrow> Some (DV_Int8 (data ! 0))
                  | TC_UInt8 \<Rightarrow> Some (DV_UInt8 (data ! 0))
                  | TC_Int16 \<Rightarrow> Some (DV_Int16 (of_bytes be bs))
                  | TC_UInt16 \<Rightarrow> Some (DV_UInt16 (of_bytes be bs))
                  | TC_Int32 \<Rightarrow> Some (DV_Int32 (of_bytes be bs))
                  | TC_UInt32 \<Rightarrow> Some (DV_UInt32 (of_bytes be bs))
                  | TC_Int64 \<Rightarrow> Some (DV_Int64 (of_bytes be bs))
                  | TC_UInt64 \<Rightarrow> Some (DV_UInt64 (of_bytes be bs))
                  | TC_Float32 \<Rightarrow> Some (DV_Float32 (of_bytes be bs))
                  | TC_Float64 \<Rightarrow> Some (DV_Float64 (of_bytes be bs))
                  | _ \<Rightarrow> None)
            in case value of
                Some v \<Rightarrow> (Inr (v, sz), st)
              | None \<Rightarrow> (Inl (Malformed ''type code is not a decodable scalar''), st))"

definition check_array_count :: "nat \<Rightarrow> nat \<Rightarrow> nat \<Rightarrow> string \<Rightarrow> nat \<Rightarrow> unit dec" where
  "check_array_count count min_elem available kind limit =
     (if count > limit then fail (ArrayTooLarge kind count limit)
      else let min_bytes = saturating_mul count min_elem in
        if min_bytes > available then fail (CountExceedsBuffer count min_bytes available)
        else ret ())"

text \<open>\<^verbatim>\<open>for _ in 0..count { ... values.push(v); offset = ...; }\<close>\<close>

primrec decode_many :: "(nat \<Rightarrow> ('a \<times> nat) dec) \<Rightarrow> nat \<Rightarrow> nat \<Rightarrow> 'a list \<Rightarrow> ('a list \<times> nat) dec" where
  "decode_many elem 0 offset acc = ret (acc, offset)"
| "decode_many elem (Suc k) offset acc =
     bind_dec (elem offset) (\<lambda>(v, offset'). decode_many elem k offset' (acc @ [v]))"

text \<open>The shape the five array arms of \<^verbatim>\<open>decode_value\<close> share: count, guard, loop.\<close>

definition decode_array_upto :: "bytes \<Rightarrow> string \<Rightarrow> nat \<Rightarrow> nat
    \<Rightarrow> (nat \<Rightarrow> (decoded_value \<times> nat) dec) \<Rightarrow> (decoded_value \<times> nat) dec" where
  "decode_array_upto data kind min_elem limit elem =
     bind_dec (decode_size data) (\<lambda>(count, offset).
     bind_dec (check_array_count count min_elem (length data - offset) kind limit) (\<lambda>_.
     bind_dec (decode_many elem count offset []) (\<lambda>(values, offset).
     ret (DV_Array values, offset))))"

definition decode_array :: "bytes \<Rightarrow> string \<Rightarrow> nat \<Rightarrow> (decode_limits \<Rightarrow> nat)
    \<Rightarrow> (nat \<Rightarrow> (decoded_value \<times> nat) dec) \<Rightarrow> (decoded_value \<times> nat) dec" where
  "decode_array data kind min_elem limit elem st =
     decode_array_upto data kind min_elem (limit (d_limits st)) elem st"

section \<open>Structures and values\<close>

type_synonym value_rec = "bytes \<Rightarrow> field_type \<Rightarrow> (decoded_value \<times> nat) dec"

fun decode_fields :: "value_rec \<Rightarrow> bytes \<Rightarrow> field_desc list \<Rightarrow> nat
    \<Rightarrow> (string \<times> decoded_value) list \<Rightarrow> (decoded_value \<times> nat) dec" where
  "decode_fields dv data [] offset acc st = (Inr (DV_Structure acc, offset), st)"
| "decode_fields dv data (f # fs) offset acc st =
     (if offset \<ge> length data then (Inr (DV_Structure acc, offset), st)
      else case dv (drop offset data) (fd_type f) st of
          (Inr (v, consumed), st') \<Rightarrow>
            decode_fields dv data fs (offset + consumed) (acc @ [(fd_name f, v)]) st'
        | (Inl e, st') \<Rightarrow>
            if is_hostile e then (Inl e, st') else (Inr (DV_Structure acc, offset), st'))"

definition decode_structure_with :: "value_rec \<Rightarrow> bytes \<Rightarrow> structure_desc
    \<Rightarrow> (decoded_value \<times> nat) dec" where
  "decode_structure_with dv data desc =
     with_scope (length data) (decode_fields dv data (sd_fields desc) 0 [])"

definition union_field :: "field_desc list \<Rightarrow> nat \<Rightarrow> field_desc dec" where
  "union_field fs selector =
     (if selector < length fs then ret (fs ! selector)
      else fail (UnknownUnionSelector selector (length fs)))"

text \<open>One element of a structure array: a null indicator, then the structure unless it is zero.\<close>

definition struct_element :: "value_rec \<Rightarrow> bytes \<Rightarrow> structure_desc \<Rightarrow> nat
    \<Rightarrow> (decoded_value \<times> nat) dec" where
  "struct_element dv data desc offset =
     (if offset \<ge> length data then fail (Truncated (offset + 1) (length data))
      else if data ! offset = 0 then ret (DV_Structure [], offset + 1)
      else bind_dec (decode_structure_with dv (drop (offset + 1) data) desc)
        (\<lambda>(item, consumed). ret (item, offset + 1 + consumed)))"

definition decode_value_match :: "value_rec \<Rightarrow> value_rec" where
  "decode_value_match dv data field_type =
     (case field_type of
        FT_Scalar tc \<Rightarrow> decode_scalar data tc
      | FT_String \<Rightarrow> bind_dec (decode_string data) (\<lambda>(s, consumed). ret (DV_String s, consumed))
      | FT_BoundedString _ \<Rightarrow>
          bind_dec (decode_string data) (\<lambda>(s, consumed). ret (DV_String s, consumed))
      | FT_ScalarArray tc \<Rightarrow>
          decode_array data ''scalar array'' (case tc_size tc of Some n \<Rightarrow> n | None \<Rightarrow> 1)
            max_scalar_array
            (\<lambda>offset. bind_dec (decode_scalar (drop offset data) tc) (\<lambda>(v, consumed).
               ret (v, offset + consumed)))
      | FT_StringArray \<Rightarrow>
          decode_array data ''string array'' 1 max_string_array
            (\<lambda>offset. bind_dec (decode_string (drop offset data)) (\<lambda>(s, consumed).
               ret (DV_String s, offset + consumed)))
      | FT_Structure desc \<Rightarrow> decode_structure_with dv data desc
      | FT_StructureArray desc \<Rightarrow>
          decode_array data ''structure array'' 1 max_struct_array
            (struct_element dv data desc)
      | FT_Union fds \<Rightarrow>
          bind_dec (decode_size data) (\<lambda>(selector, consumed).
          bind_dec (union_field fds selector) (\<lambda>field.
          bind_dec (dv (drop consumed data) (fd_type field)) (\<lambda>(value, val_consumed).
          ret (DV_Structure [(fd_name field, value)], consumed + val_consumed))))
      | FT_UnionArray fds \<Rightarrow>
          decode_array data ''union array'' 1 max_union_array
            (\<lambda>offset.
               bind_dec (decode_size (drop offset data)) (\<lambda>(selector, consumed).
               bind_dec (union_field fds selector) (\<lambda>field.
               bind_dec (dv (drop (offset + consumed) data) (fd_type field))
                 (\<lambda>(value, val_consumed).
               ret (DV_Structure [(fd_name field, value)], offset + consumed + val_consumed)))))
      | FT_Variant \<Rightarrow>
          if data = [] then fail (Truncated 1 0)
          else if data ! 0 = 0xFF then ret (DV_Null, 1)
          else bind_dec (parse_type_desc data) (\<lambda>(variant_type, type_consumed).
               bind_dec (dv (drop type_consumed data) variant_type) (\<lambda>(value, value_consumed).
               ret (value, type_consumed + value_consumed)))
      | FT_VariantArray \<Rightarrow>
          decode_array data ''variant array'' 1 max_variant_array
            (\<lambda>offset. bind_dec (dv (drop offset data) FT_Variant) (\<lambda>(v, consumed).
               ret (v, offset + consumed))))"

definition decode_value_body :: "value_rec \<Rightarrow> value_rec" where
  "decode_value_body dv data field_type =
     with_scope (length data) (with_depth (decode_value_match dv data field_type))"

primrec decode_value_fuel :: "nat \<Rightarrow> value_rec" where
  "decode_value_fuel 0 data field_type = with_scope (length data) depth_exhausted"
| "decode_value_fuel (Suc n) data field_type = decode_value_body (decode_value_fuel n) data field_type"

definition decode_value :: value_rec where
  "decode_value data field_type st = decode_value_fuel (depth_fuel st) data field_type st"

definition decode_structure :: "bytes \<Rightarrow> structure_desc \<Rightarrow> (decoded_value \<times> nat) dec" where
  "decode_structure data desc = decode_structure_with decode_value data desc"

section \<open>Bitset-driven decoding\<close>

definition bit_set :: "bytes \<Rightarrow> nat \<Rightarrow> bool" where
  "bit_set bitset i \<longleftrightarrow>
     i div 8 < length bitset \<and> (bitset ! (i div 8)) AND push_bit (i mod 8) 1 \<noteq> 0"

text \<open>The walk over a descriptor's fields in bit order. It carries the data offset, the bit
  offset and the fields decoded so far; the flag is the source's \<^verbatim>\<open>Ok(true)\<close> or
  \<^verbatim>\<open>Ok(false)\<close>, where \<^verbatim>\<open>false\<close> stops the walk and keeps what was decoded.\<close>

type_synonym bitset_state = "bool \<times> nat \<times> nat \<times> (string \<times> decoded_value) list"

lemma size_nested_fields:
  "fd_type f = FT_Structure nested \<Longrightarrow>
   size_list size (sd_fields nested) < Suc (size f + size_list size fs)"
  by (cases f; cases nested) simp

function bitset_fields :: "bytes \<Rightarrow> bytes \<Rightarrow> nat list \<Rightarrow> field_desc list \<Rightarrow> nat \<Rightarrow> nat
    \<Rightarrow> (string \<times> decoded_value) list \<Rightarrow> bitset_state dec" where
  "bitset_fields data bitset counts [] offset bo acc st = (Inr (True, offset, bo, acc), st)"
| "bitset_fields data bitset counts (f # fs) offset bo acc st =
     (let field_present = bit_set bitset bo; current_bit = bo; bo = bo + 1 in
      case fd_type f of
        FT_Structure nested \<Rightarrow>
          (let child_count = counts ! (current_bit - 1);
               any_child = (\<exists>i \<in> set [0..<child_count]. bit_set bitset (bo + i))
           in
           if field_present \<and> \<not> any_child then
             (if offset < length data then
                case decode_structure (drop offset data) nested st of
                  (Inr (v, consumed), st') \<Rightarrow>
                    bitset_fields data bitset counts fs (offset + consumed) (bo + child_count)
                      (acc @ [(fd_name f, v)]) st'
                | (Inl e, st') \<Rightarrow>
                    if is_hostile e then (Inl e, st')
                    else (Inr (False, offset, bo + child_count, acc), st')
              else bitset_fields data bitset counts fs offset (bo + child_count) acc st)
           else if any_child then
             (case bitset_fields data bitset counts (sd_fields nested) offset bo [] st of
                (Inr (True, offset', bo', nested_fields), st') \<Rightarrow>
                  bitset_fields data bitset counts fs offset' bo'
                    (if nested_fields \<noteq> [] then acc @ [(fd_name f, DV_Structure nested_fields)]
                     else acc) st'
              | (Inr (False, offset', bo', _), st') \<Rightarrow> (Inr (False, offset', bo', acc), st')
              | (Inl e, st') \<Rightarrow> (Inl e, st'))
           else bitset_fields data bitset counts fs offset (bo + child_count) acc st)
      | ft \<Rightarrow>
          if field_present then
            (if offset \<ge> length data then (Inr (False, offset, bo, acc), st)
             else case decode_value (drop offset data) ft st of
                 (Inr (v, consumed), st') \<Rightarrow>
                   bitset_fields data bitset counts fs (offset + consumed) bo
                     (acc @ [(fd_name f, v)]) st'
               | (Inl e, st') \<Rightarrow>
                   if is_hostile e then (Inl e, st') else (Inr (False, offset, bo, acc), st'))
          else bitset_fields data bitset counts fs offset bo acc st)"
  by pat_completeness auto
termination
  by (relation "measure (\<lambda>(data, bitset, counts, fs, _). size_list size fs)")
    (auto dest: size_nested_fields)

definition has_field_bits :: "bytes \<Rightarrow> bool" where
  "has_field_bits bitset \<longleftrightarrow>
     (\<exists>i \<in> set [0..<length bitset].
        (if i = 0 then (bitset ! i) AND NOT 0x01 else bitset ! i) \<noteq> 0)"

definition decode_bitset_walk :: "bytes \<Rightarrow> structure_desc \<Rightarrow> bytes \<Rightarrow> (decoded_value \<times> nat) dec" where
  "decode_bitset_walk data desc bitset =
     bind_dec (bitset_fields data bitset (subtree_field_counts desc) (sd_fields desc) 0 1 [])
       (\<lambda>(_, offset, _, decoded). ret (DV_Structure decoded, offset))"

text \<open>A hostile input is not retried through the per-field walk; another failure is.\<close>

definition unless_hostile :: "'a dec \<Rightarrow> 'a dec \<Rightarrow> 'a dec" where
  "unless_hostile m retry st =
     (case m st of
        (Inr r, st') \<Rightarrow> (Inr r, st')
      | (Inl e, st') \<Rightarrow> if is_hostile e then (Inl e, st') else retry st')"

definition decode_structure_with_bitset_body ::
  "bytes \<Rightarrow> structure_desc \<Rightarrow> bytes \<Rightarrow> (decoded_value \<times> nat) dec" where
  "decode_structure_with_bitset_body data desc bitset = with_scope (length data)
     (if \<not> has_field_bits bitset \<and> bitset \<noteq> [] \<and> (bitset ! 0) AND 0x01 \<noteq> 0
      then unless_hostile (decode_structure data desc) (decode_bitset_walk data desc bitset)
      else decode_bitset_walk data desc bitset)"

definition decode_structure_with_bitset ::
  "bytes \<Rightarrow> structure_desc \<Rightarrow> (decoded_value \<times> nat) dec" where
  "decode_structure_with_bitset data desc =
     (if data = [] then fail (Truncated 1 0)
      else bind_dec (decode_size data) (\<lambda>(bitset_size, offset).
        if bitset_size = 0 \<or> offset + bitset_size > length data
        then ret (DV_Structure [], offset)
        else
          let bitset = take bitset_size (drop offset data);
              offset = offset + bitset_size
          in bind_dec (decode_structure_with_bitset_body (drop offset data) desc bitset)
               (\<lambda>(value, consumed). ret (value, offset + consumed))))"

section \<open>Sub-descriptors\<close>

text \<open>\<^verbatim>\<open>path.splitn(2, '.')\<close>: the part before the first dot, and the rest or nothing.\<close>

definition split_dot :: "string \<Rightarrow> string \<times> string" where
  "split_dot path = (takeWhile (\<lambda>c. c \<noteq> CHR ''.'') path, drop 1 (dropWhile (\<lambda>c. c \<noteq> CHR ''.'') path))"

lemma split_dot_shorter: "path \<noteq> [] \<Longrightarrow> length (snd (split_dot path)) < length path"
  by (cases path)
    (auto simp: split_dot_def less_Suc_eq_le intro: le_trans [OF diff_le_self] length_dropWhile_le)

function extract_subfield_desc :: "structure_desc \<Rightarrow> string \<Rightarrow> structure_desc option" where
  "extract_subfield_desc desc path =
     (if path = [] then Some desc
      else
        let (head, tail) = split_dot path in
        case sd_field desc head of
          None \<Rightarrow> None
        | Some field \<Rightarrow>
            (case fd_type field of
               FT_Structure nested \<Rightarrow> extract_subfield_desc nested tail
             | FT_StructureArray nested \<Rightarrow> extract_subfield_desc nested tail
             | _ \<Rightarrow> if tail = [] then Some (StructureDesc None [field]) else None))"
  by pat_completeness auto
termination
  by (relation "measure (\<lambda>(d, path). length path)")
    (use split_dot_shorter in \<open>fastforce simp: prod_eq_iff\<close>)+

end
