(* ===== verification/Value_Safety.thy ===== *)
theory Value_Safety
  imports Pvd_Safety Pvd_Decode
begin

text \<open>
  What the value decoder guarantees on every input: the guards are released on every exit, no
  more than the input is consumed, every array it builds is within the configured limits and
  within the size of the input, and the recursion of the source ends. \<open>value_decoder\<close> is
  the interface the recursive callers rely on; it is interpreted on \<open>decode_value\<close>.
\<close>

section \<open>Generic rules\<close>

lemma keeps_case_prod: "(\<And>a b. keeps R (f a b)) \<Longrightarrow> keeps R (case p of (a, b) \<Rightarrow> f a b)"
  by (simp split: prod.splits)

lemma within_case_prod: "(\<And>a b. within (f a b)) \<Longrightarrow> within (case p of (a, b) \<Rightarrow> f a b)"
  by (simp split: prod.splits)

lemma decode_scalar_state: "snd (decode_scalar data tc st) = st"
  by (simp add: decode_scalar_def Let_def split: option.splits)

lemma decode_scalar_bounds:
  "decode_scalar data tc st = (Inr (v, c), st') \<Longrightarrow> 0 < c \<and> c \<le> length data"
  by (cases tc) (auto simp: decode_scalar_def Let_def Suc_le_eq split: if_splits)

lemma keeps_decode_scalar: "keeps frame (decode_scalar data tc)"
  by (rule fr.keeps_same) (rule decode_scalar_state)

lemma within_decode_scalar: "within (decode_scalar data tc)"
  by (rule within_same) (rule decode_scalar_state)

lemma keeps_check_array_count: "keeps frame (check_array_count n m a kind limit)"
  unfolding check_array_count_def Let_def by (intro keeps_intros)

lemma within_check_array_count: "within (check_array_count n m a kind limit)"
  unfolding check_array_count_def Let_def by (intro within_intros)

lemma check_array_count_Inr:
  "check_array_count count m a kind limit st = (Inr u, st') \<Longrightarrow>
   count \<le> limit \<and> saturating_mul count m \<le> a \<and> st' = st"
  by (auto simp: check_array_count_def Let_def split: if_splits)

lemma keeps_union_field: "keeps frame (union_field fs s)"
  unfolding union_field_def by (intro keeps_intros)

lemma within_union_field: "within (union_field fs s)"
  unfolding union_field_def by (intro within_intros)

lemma keeps_decode_many:
  "(\<And>off. keeps frame (elem off)) \<Longrightarrow> keeps frame (decode_many elem k off acc)"
  by (induction k arbitrary: off acc) (auto intro!: keeps_intros split: prod.split)

lemma within_decode_many:
  "(\<And>off. within (elem off)) \<Longrightarrow> within (decode_many elem k off acc)"
  by (induction k arbitrary: off acc) (auto intro!: within_intros split: prod.split)

lemma keeps_decode_array:
  assumes "\<And>off. keeps frame (elem off)"
  shows "keeps frame (decode_array data kind m limit elem)"
proof -
  have "keeps frame (decode_array_upto data kind m n elem)" for n
    unfolding decode_array_upto_def
    by (intro keeps_intros keeps_case_prod keeps_check_array_count keeps_decode_many assms)
  then show ?thesis by (simp add: keeps_def decode_array_def)
qed

lemma within_decode_array:
  assumes "\<And>off. within (elem off)"
  shows "within (decode_array data kind m limit elem)"
proof -
  have "within (decode_array_upto data kind m n elem)" for n
    unfolding decode_array_upto_def
    by (intro within_intros within_case_prod within_check_array_count within_decode_many assms)
  then show ?thesis unfolding within_def decode_array_def by blast
qed

text \<open>A loop whose element decoder stays in the data stays in the data, and keeps what holds of
  each element.\<close>

lemma decode_many_Inr:
  assumes "decode_many elem k off acc st = (Inr (vs, off'), st')" "off \<le> n" "list_all P acc"
    and "d_limits st = L"
    and elem: "\<And>off st v off' st'. elem off st = (Inr (v, off'), st') \<Longrightarrow> off \<le> n \<Longrightarrow>
      d_limits st = L \<Longrightarrow> off' \<le> n \<and> P v"
    and frame: "\<And>off. keeps frame (elem off)"
  shows "off' \<le> n \<and> list_all P vs \<and> length vs = length acc + k"
  using assms(1-4)
proof (induction k arbitrary: off acc st)
  case 0
  then show ?case by simp
next
  case (Suc k)
  from Suc.prems(1) obtain v off1 st1 where step: "elem off st = (Inr (v, off1), st1)"
    and rest: "decode_many elem k off1 (acc @ [v]) st1 = (Inr (vs, off'), st')"
    by (auto simp: bind_dec_Inr)
  from elem [OF step Suc.prems(2,4)] have "off1 \<le> n" "P v" by simp_all
  moreover have "d_limits st1 = L"
    using keeps_frameD [OF frame step] Suc.prems(4) by (simp add: frame_def)
  ultimately show ?case using Suc.IH [OF rest] Suc.prems(3) by auto
qed

definition max_array :: "decode_limits \<Rightarrow> nat" where
  "max_array L = max_list [max_scalar_array L, max_string_array L, max_struct_array L,
     max_union_array L, max_variant_array L]"

lemma max_array_ge:
  "max_scalar_array L \<le> max_array L" "max_string_array L \<le> max_array L"
  "max_struct_array L \<le> max_array L" "max_union_array L \<le> max_array L"
  "max_variant_array L \<le> max_array L"
  by (simp_all add: max_array_def)

text \<open>Every array in a value has at most \<open>n\<close> elements.\<close>

fun arrays_ok :: "nat \<Rightarrow> decoded_value \<Rightarrow> bool" where
  "arrays_ok n (DV_Array vs) \<longleftrightarrow> length vs \<le> n \<and> list_all (arrays_ok n) vs"
| "arrays_ok n (DV_Structure fs) \<longleftrightarrow> list_all (\<lambda>f. arrays_ok n (snd f)) fs"
| "arrays_ok n _ \<longleftrightarrow> True"

lemma arrays_ok_mono: "arrays_ok m v \<Longrightarrow> m \<le> n \<Longrightarrow> arrays_ok n v"
proof (induction m v rule: arrays_ok.induct)
  case (1 m vs)
  then show ?case by (auto simp: list_all_iff)
next
  case (2 m fs)
  then show ?case by (fastforce simp: list_all_iff)
qed simp_all

lemma decode_scalar_arrays: "decode_scalar data tc st = (Inr (v, c), st') \<Longrightarrow> arrays_ok n v"
  by (cases tc) (auto simp: decode_scalar_def Let_def split: if_splits)

lemma decode_array_Inr:
  assumes run: "decode_array data kind m limit elem st = (Inr (v, c), st')"
    and m: "0 < m" and limit: "limit (d_limits st) \<le> n"
    and elem: "\<And>off st1 v off' st'. elem off st1 = (Inr (v, off'), st') \<Longrightarrow> off \<le> length data \<Longrightarrow>
      d_limits st1 = d_limits st \<Longrightarrow> off' \<le> length data \<and> arrays_ok (min n (length data)) v"
    and frame: "\<And>off. keeps frame (elem off)"
  shows "c \<le> length data \<and> arrays_ok (min n (length data)) v"
proof -
  from run obtain count off st1 vs where size: "decode_size_prefixed data (d_is_be st) = Inr (count, off)"
    and check: "check_array_count count m (length data - off) kind (limit (d_limits st)) st = (Inr (), st1)"
    and many: "decode_many elem count off [] st1 = (Inr (vs, c), st')" and v: "v = DV_Array vs"
    by (auto simp: decode_array_def decode_array_upto_def bind_dec_Inr decode_size_def)
  have off: "off \<le> length data" using decode_size_bounds [OF size] by simp
  from check_array_count_Inr [OF check] have "count \<le> n" "saturating_mul count m \<le> length data"
      "st1 = st"
    using limit by auto
  moreover have "count \<le> saturating_mul count m"
    using m decode_size_lt [OF size] by (simp add: saturating_mul_def usize_max_def)
  ultimately show ?thesis
    using decode_many_Inr [OF many off, of "arrays_ok (min n (length data))" "d_limits st", OF _ _ elem frame] v by simp
qed

section \<open>What the value decoder promises\<close>

locale value_decoder =
  fixes dv :: value_rec
  assumes dv_frame: "keeps frame (dv data ft)"
    and dv_within: "within (dv data ft)"
    and dv_bounds: "dv data ft st = (Inr (v, c), st') \<Longrightarrow> max_array (d_limits st) \<le> n \<Longrightarrow>
      c \<le> length data \<and> arrays_ok (min n (length data)) v"
begin

lemma fields_frame: "keeps frame (decode_fields dv data fs off acc)"
proof (induction fs arbitrary: off acc)
  case Nil
  show ?case by (simp add: keeps_def fr.refl)
next
  case (Cons f fs)
  show ?case
    unfolding keeps_def
  proof
    fix st
    obtain r st1 where run: "dv (drop off data) (fd_type f) st = (r, st1)"
      by (cases "dv (drop off data) (fd_type f) st")
    have "frame st st1" by (rule keeps_frameD [OF dv_frame run])
    moreover have "frame st1 (snd (decode_fields dv data fs off' acc' st1))" for off' acc'
      using Cons by (simp add: keeps_def)
    ultimately show "frame st (snd (decode_fields dv data (f # fs) off acc st))"
      using run by (auto simp: fr.refl intro: fr.trans split: sum.splits)
  qed
qed

lemma structure_frame: "keeps frame (decode_structure_with dv data d)"
  unfolding decode_structure_with_def by (intro keeps_intros fields_frame)

lemma fields_within: "within (decode_fields dv data fs off acc)"
proof (induction fs arbitrary: off acc)
  case Nil
  show ?case by (simp add: within_def)
next
  case (Cons f fs)
  show ?case
    unfolding within_def
  proof (intro allI impI)
    fix st r st'
    assume st: "st_ok st" and run: "decode_fields dv data (f # fs) off acc st = (r, st')"
    obtain r1 st1 where dv: "dv (drop off data) (fd_type f) st = (r1, st1)"
      by (cases "dv (drop off data) (fd_type f) st")
    note ok1 = withinD [OF dv_within st dv]
    show "st_ok st' \<or> (\<exists>e. r = Inl e \<and> is_hostile e)"
      using run dv st ok1 withinD [OF Cons, of st1]
      by (auto split: if_splits sum.splits prod.splits)
  qed
qed

lemma structure_within: "within (decode_structure_with dv data d)"
  unfolding decode_structure_with_def by (intro within_intros fields_within fields_frame)

lemma fields_bounds:
  assumes "decode_fields dv data fs off acc st = (Inr (v, c), st')" "off \<le> length data"
    and "max_array (d_limits st) \<le> n"
    and "list_all (\<lambda>f. arrays_ok (min n (length data)) (snd f)) acc"
  shows "c \<le> length data \<and> arrays_ok (min n (length data)) v"
  using assms
proof (induction fs arbitrary: off acc st)
  case Nil
  then show ?case by auto
next
  case (Cons f fs)
  show ?case
  proof (cases "off < length data")
    case True
    obtain r1 st1 where dv: "dv (drop off data) (fd_type f) st = (r1, st1)"
      by (cases "dv (drop off data) (fd_type f) st")
    show ?thesis
    proof (cases r1)
      case (Inl e)
      then show ?thesis using Cons.prems True dv by (auto split: if_splits)
    next
      case (Inr p)
      obtain v1 c1 where p: "p = (v1, c1)" by (cases p)
      note dv = dv [unfolded Inr p]
      from dv_bounds [OF dv Cons.prems(3)] True
      have "off + c1 \<le> length data" "arrays_ok (min n (length data)) v1"
        by (auto elim: arrays_ok_mono)
      moreover have "max_array (d_limits st1) \<le> n"
        using Cons.prems(3) keeps_frameD [OF dv_frame dv] by (simp add: frame_def)
      ultimately show ?thesis
        using Cons.prems True dv by (intro Cons.IH [of "off + c1" "acc @ [(fd_name f, v1)]" st1]) auto
    qed
  qed (use Cons.prems in auto)
qed

lemma structure_bounds:
  assumes "decode_structure_with dv data d st = (Inr (v, c), st')" "max_array (d_limits st) \<le> n"
  shows "c \<le> length data \<and> arrays_ok (min n (length data)) v"
proof -
  from assms obtain st1 st2 where run: "decode_fields dv data (sd_fields d) 0 [] st1 = (Inr (v, c), st2)"
      and "d_limits st1 = d_limits st"
    by (auto simp: decode_structure_with_def with_scope_def Let_def split: prod.splits if_splits)
  with assms(2) fields_bounds [OF run, of n] show ?thesis by simp
qed

lemma element_frame: "keeps frame (struct_element dv data d off)"
  unfolding struct_element_def by (intro keeps_intros keeps_case_prod structure_frame)

lemma element_within: "within (struct_element dv data d off)"
  unfolding struct_element_def by (intro within_intros within_case_prod structure_within)

lemma match_frame: "keeps frame (decode_value_match dv data ft)"
  by (cases ft)
    (auto simp: decode_value_match_def intro!: keeps_intros keeps_case_prod keeps_decode_scalar
      keeps_decode_array keeps_union_field structure_frame element_frame dv_frame tp.parse_frame)

lemma match_within: "within (decode_value_match dv data ft)"
  by (cases ft)
    (auto simp: decode_value_match_def intro!: within_intros within_case_prod within_decode_scalar
      within_decode_array within_union_field structure_within element_within dv_within tp.parse_within)

lemma body_frame: "keeps frame (decode_value_body dv data ft)"
  unfolding decode_value_body_def by (intro keeps_intros match_frame)

lemma body_within: "within (decode_value_body dv data ft)"
  unfolding decode_value_body_def by (intro within_intros keeps_intros match_within match_frame)

lemma union_bounds:
  assumes "bind_dec (decode_size (drop off data)) (\<lambda>(selector, consumed).
      bind_dec (union_field fds selector) (\<lambda>field.
      bind_dec (dv (drop (off + consumed) data) (fd_type field)) (\<lambda>(value, val_consumed).
      ret (DV_Structure [(fd_name field, value)], off + consumed + val_consumed)))) st
      = (Inr (v, c), st')"
    and "off \<le> length data" "max_array (d_limits st) \<le> n"
  shows "c \<le> length data \<and> arrays_ok (min n (length data)) v"
proof -
  from assms(1) obtain c1 sel field v1 c2
    where size: "decode_size_prefixed (drop off data) (d_is_be st) = Inr (sel, c1)"
      and dv: "dv (drop (off + c1) data) (fd_type field) st = (Inr (v1, c2), st')"
      and v: "v = DV_Structure [(fd_name field, v1)]" "c = off + c1 + c2"
    by (auto simp: bind_dec_Inr decode_size_def union_field_def split: if_splits)
  from decode_size_bounds [OF size] dv_bounds [OF dv assms(3)] assms(2) v show ?thesis
    by (auto elim: arrays_ok_mono)
qed

lemma variant_bounds:
  assumes "decode_value_match dv data FT_Variant st = (Inr (v, c), st')"
    "max_array (d_limits st) \<le> n"
  shows "c \<le> length data \<and> arrays_ok (min n (length data)) v"
proof -
  consider (null) "v = DV_Null" "c = 1" "data \<noteq> []"
    | (typed) ft c1 st1 c2 where "parse_type_desc data st = (Inr (ft, c1), st1)"
        "dv (drop c1 data) ft st1 = (Inr (v, c2), st')" "c = c1 + c2"
    using assms(1) by (auto simp: decode_value_match_def bind_dec_Inr split: if_splits)
  then show ?thesis
  proof cases
    case null
    then show ?thesis by (cases data) simp_all
  next
    case typed
    have "d_limits st1 = d_limits st"
      using keeps_frameD [OF tp.parse_frame typed(1)] by (simp add: frame_def)
    with tp.parse_bounds [OF typed(1)] dv_bounds [OF typed(2)] typed(3) assms(2) show ?thesis
      by (fastforce elim: arrays_ok_mono)
  qed
qed

lemma struct_elem_bounds:
  assumes "struct_element dv data desc offset st = (Inr (v, c), st')"
    and "max_array (d_limits st) \<le> n"
  shows "c \<le> length data \<and> arrays_ok (min n (length data)) v"
proof -
  consider (null) "offset < length data" "v = DV_Structure []" "c = offset + 1"
    | (item) c1 where "offset < length data"
        "decode_structure_with dv (drop (offset + 1) data) desc st = (Inr (v, c1), st')"
        "c = offset + 1 + c1"
    using assms(1) by (auto simp: struct_element_def bind_dec_Inr split: if_splits)
  then show ?thesis
    by cases (auto dest!: structure_bounds [OF _ assms(2)] elim: arrays_ok_mono)
qed

lemma array_arm_bounds:
  assumes "max_array (d_limits st) \<le> n"
  shows "decode_value_match dv data (FT_ScalarArray tc) st = (Inr (v, c), st') \<Longrightarrow>
      c \<le> length data \<and> arrays_ok (min n (length data)) v"
    and "decode_value_match dv data FT_StringArray st = (Inr (v, c), st') \<Longrightarrow>
      c \<le> length data \<and> arrays_ok (min n (length data)) v"
    and "decode_value_match dv data (FT_StructureArray d) st = (Inr (v, c), st') \<Longrightarrow>
      c \<le> length data \<and> arrays_ok (min n (length data)) v"
    and "decode_value_match dv data (FT_UnionArray fds) st = (Inr (v, c), st') \<Longrightarrow>
      c \<le> length data \<and> arrays_ok (min n (length data)) v"
    and "decode_value_match dv data FT_VariantArray st = (Inr (v, c), st') \<Longrightarrow>
      c \<le> length data \<and> arrays_ok (min n (length data)) v"
  unfolding decode_value_match_def field_type.case
proof -
  note limit = max_array_ge [THEN le_trans, OF assms]
  have width: "0 < (case tc_size tc of Some n \<Rightarrow> n | None \<Rightarrow> 1)" for tc by (cases tc) simp_all
  note frames = keeps_intros keeps_case_prod keeps_decode_scalar keeps_union_field structure_frame
    dv_frame
  show "c \<le> length data \<and> arrays_ok (min n (length data)) v"
    if "decode_array data ''scalar array'' (case tc_size tc of Some n \<Rightarrow> n | None \<Rightarrow> 1)
            max_scalar_array
            (\<lambda>offset. bind_dec (decode_scalar (drop offset data) tc) (\<lambda>(v, consumed).
               ret (v, offset + consumed))) st = (Inr (v, c), st')"
    by (rule decode_array_Inr [OF that width limit(1)])
      (auto simp: bind_dec_Inr dest: decode_scalar_bounds intro!: frames elim: decode_scalar_arrays)
  show "c \<le> length data \<and> arrays_ok (min n (length data)) v"
    if "decode_array data ''string array'' 1 max_string_array
            (\<lambda>offset. bind_dec (decode_string (drop offset data)) (\<lambda>(s, consumed).
               ret (DV_String s, offset + consumed))) st = (Inr (v, c), st')"
    by (rule decode_array_Inr [OF that _ limit(2)])
      (auto simp: bind_dec_Inr decode_string_def dest: decode_string_bounds intro!: frames)
  show "c \<le> length data \<and> arrays_ok (min n (length data)) v"
    if "decode_array data ''structure array'' 1 max_struct_array
            (struct_element dv data d) st = (Inr (v, c), st')"
    by (rule decode_array_Inr [OF that _ limit(3)]; (intro frames element_frame)?)
      (simp, erule struct_elem_bounds, simp add: assms)
  show "c \<le> length data \<and> arrays_ok (min n (length data)) v"
    if "decode_array data ''union array'' 1 max_union_array
            (\<lambda>offset.
               bind_dec (decode_size (drop offset data)) (\<lambda>(selector, consumed).
               bind_dec (union_field fds selector) (\<lambda>field.
               bind_dec (dv (drop (offset + consumed) data) (fd_type field))
                 (\<lambda>(value, val_consumed).
               ret (DV_Structure [(fd_name field, value)], offset + consumed + val_consumed)))))
            st = (Inr (v, c), st')"
    by (rule decode_array_Inr [OF that _ limit(4)]; (intro frames)?)
      (simp, erule union_bounds, simp_all add: assms)
  show "c \<le> length data \<and> arrays_ok (min n (length data)) v"
    if "decode_array data ''variant array'' 1 max_variant_array
            (\<lambda>offset. bind_dec (dv (drop offset data) FT_Variant) (\<lambda>(v, consumed).
               ret (v, offset + consumed))) st = (Inr (v, c), st')"
    by (rule decode_array_Inr [OF that _ limit(5)])
      (auto simp: bind_dec_Inr assms dest!: dv_bounds [where n = n] intro!: frames
        elim: arrays_ok_mono)
qed

lemma match_bounds:
  assumes run: "decode_value_match dv data ft st = (Inr (v, c), st')"
    and lim: "max_array (d_limits st) \<le> n"
  shows "c \<le> length data \<and> arrays_ok (min n (length data)) v"
proof (cases ft)
  case (FT_Structure d)
  with run show ?thesis
    by (intro structure_bounds [OF _ lim]) (auto simp: decode_value_match_def)
next
  case (FT_Union fds)
  with run show ?thesis
    using union_bounds [OF _ _ lim, of 0 data fds v c st'] by (simp add: decode_value_match_def)
qed (use run lim in \<open>auto simp: array_arm_bounds variant_bounds decode_value_match_def bind_dec_Inr
    decode_string_def elim: decode_scalar_arrays dest: decode_scalar_bounds decode_string_bounds\<close>)

lemma body_bounds:
  assumes "decode_value_body dv data ft st = (Inr (v, c), st')" "max_array (d_limits st) \<le> n"
  shows "c \<le> length data \<and> arrays_ok (min n (length data)) v"
  using assms
  by (auto simp: decode_value_body_def with_scope_def with_depth_def Let_def
      split: prod.splits if_splits dest!: match_bounds [where n = n])

end

section \<open>Closing the recursion\<close>

lemma value_decoder_fuel: "value_decoder (decode_value_fuel n)"
proof (induction n)
  case 0
  show ?case by unfold_locales (auto intro: keeps_intros within_intros)
next
  case (Suc n)
  show ?case
    by unfold_locales
      (auto intro: value_decoder.body_frame [OF Suc] value_decoder.body_within [OF Suc]
        dest: value_decoder.body_bounds [OF Suc])
qed

lemma value_decoder_decode_value: "value_decoder decode_value"
proof
  fix data ft
  show "keeps frame (decode_value data ft)"
    using value_decoder.dv_frame [OF value_decoder_fuel]
    by (simp add: keeps_def decode_value_def)
  show "within (decode_value data ft)"
    unfolding within_def decode_value_def
    using value_decoder.dv_within [OF value_decoder_fuel, unfolded within_def] by blast
next
  fix data ft st v c st' n
  assume "decode_value data ft st = (Inr (v, c), st')" "max_array (d_limits st) \<le> n"
  then show "c \<le> length data \<and> arrays_ok (min n (length data)) v"
    unfolding decode_value_def by (rule value_decoder.dv_bounds [OF value_decoder_fuel])
qed

interpretation vd: value_decoder decode_value
  by (rule value_decoder_decode_value)

text \<open>Actions that run alike at one depth under one set of limits.\<close>

definition same_at :: "nat \<Rightarrow> decode_limits \<Rightarrow> 'a dec \<Rightarrow> 'a dec \<Rightarrow> bool" where
  "same_at D L m m' \<longleftrightarrow> (\<forall>st. d_depth st = D \<and> d_limits st = L \<longrightarrow> m st = m' st)"

lemma same_atD: "same_at (d_depth st) (d_limits st) m m' \<Longrightarrow> m st = m' st"
  by (simp add: same_at_def)

lemma same_refl: "same_at D L m m"
  by (simp add: same_at_def)

lemma same_if: "same_at D L m m' \<Longrightarrow> same_at D L k k' \<Longrightarrow>
    same_at D L (if b then m else k) (if b then m' else k')"
  by simp

lemma same_bind:
  assumes "keeps frame m" "same_at D L m m'" "\<And>x. same_at D L (f x) (f' x)"
  shows "same_at D L (bind_dec m f) (bind_dec m' f')"
  unfolding same_at_def
proof (intro allI impI)
  fix st :: pvd_decoder
  assume st: "d_depth st = D \<and> d_limits st = L"
  obtain r st1 where m: "m st = (r, st1)" by (cases "m st")
  then have "m' st = (r, st1)" using assms(2) st by (simp add: same_at_def)
  moreover have "d_depth st1 = D" "d_limits st1 = L"
    using keeps_frameD [OF assms(1) m] st by (simp_all add: frame_def)
  ultimately show "bind_dec m f st = bind_dec m' f' st"
    using m assms(3) by (auto simp: bind_dec_def same_at_def split: sum.splits)
qed

lemma same_case_prod:
  "(\<And>a b. same_at D L (f a b) (f' a b)) \<Longrightarrow>
   same_at D L (case p of (a, b) \<Rightarrow> f a b) (case p of (a, b) \<Rightarrow> f' a b)"
  by (simp split: prod.splits)

lemma same_with_depth:
  "same_at (Suc D) L m m' \<Longrightarrow> same_at D L (with_depth m) (with_depth m')"
  by (simp add: same_at_def with_depth_def Let_def)

lemma same_with_scope: "same_at D L m m' \<Longrightarrow> same_at D L (with_scope n m) (with_scope n m')"
  by (simp add: same_at_def with_scope_def Let_def)

lemma same_decode_many:
  assumes "\<And>off. keeps frame (elem off)" "\<And>off. same_at D L (elem off) (elem' off)"
  shows "same_at D L (decode_many elem k off acc) (decode_many elem' k off acc)"
  by (induction k arbitrary: off acc)
    (auto intro!: same_bind same_refl assms split: prod.splits)

lemma same_decode_array:
  assumes "\<And>off. keeps frame (elem off)" "\<And>off. same_at D L (elem off) (elem' off)"
  shows "same_at D L (decode_array data kind m limit elem) (decode_array data kind m limit elem')"
proof -
  have "same_at D L (decode_array_upto data kind m n elem) (decode_array_upto data kind m n elem')" for n
    unfolding decode_array_upto_def
    by (intro same_bind same_case_prod same_decode_many same_refl assms keeps_intros
        keeps_check_array_count keeps_decode_many)
  then show ?thesis by (simp add: same_at_def decode_array_def)
qed

lemma same_decode_fields:
  assumes "value_decoder dv" "\<And>data ft. same_at D L (dv data ft) (dv' data ft)"
  shows "same_at D L (decode_fields dv data fs off acc) (decode_fields dv' data fs off acc)"
  unfolding same_at_def
proof (intro allI impI)
  fix st :: pvd_decoder
  assume "d_depth st = D \<and> d_limits st = L"
  then show "decode_fields dv data fs off acc st = decode_fields dv' data fs off acc st"
  proof (induction fs arbitrary: off acc st)
    case (Cons f fs)
    obtain r st1 where dv: "dv (drop off data) (fd_type f) st = (r, st1)"
      by (cases "dv (drop off data) (fd_type f) st")
    then have "dv' (drop off data) (fd_type f) st = (r, st1)"
      using assms(2) Cons.prems by (simp add: same_at_def)
    moreover have "d_depth st1 = D \<and> d_limits st1 = L"
      using keeps_frameD [OF value_decoder.dv_frame [OF assms(1)] dv] Cons.prems
      by (simp add: frame_def)
    ultimately show ?case
      using dv Cons.IH by (simp split: sum.splits)
  qed simp
qed

lemma same_decode_value_body:
  assumes "value_decoder dv" "\<And>data ft. same_at (Suc D) L (dv data ft) (dv' data ft)"
  shows "same_at D L (decode_value_body dv data ft) (decode_value_body dv' data ft)"
proof -
  note frames = keeps_intros keeps_case_prod keeps_union_field value_decoder.dv_frame [OF assms(1)]
    value_decoder.structure_frame [OF assms(1)] tp.parse_frame
  have struct: "same_at (Suc D) L (decode_structure_with dv data d) (decode_structure_with dv' data d)"
    for data d
    unfolding decode_structure_with_def
    by (intro same_with_scope same_decode_fields assms)
  have element: "same_at (Suc D) L (struct_element dv data d off) (struct_element dv' data d off)"
    for data d off
    unfolding struct_element_def
    by (intro same_if same_bind same_case_prod struct frames same_refl)
  show ?thesis
    unfolding decode_value_body_def
    by (intro same_with_scope same_with_depth, cases ft)
      (auto simp: decode_value_match_def intro!: same_if same_bind same_case_prod
        same_decode_array struct element value_decoder.element_frame [OF assms(1)] assms(2) frames same_refl)
qed

lemma decode_value_unfold:
  "decode_value data ft st = decode_value_body decode_value data ft st"
proof (cases "d_depth st < max_depth (d_limits st)")
  case True
  define n where "n = max_depth (d_limits st) - d_depth st"
  have fuel: "depth_fuel st = Suc n"
    using True by (simp add: depth_fuel_def n_def)
  have "same_at (Suc (d_depth st)) (d_limits st) (decode_value_fuel n dt t) (decode_value dt t)" for dt t
    by (simp add: same_at_def decode_value_def depth_fuel_at n_def)
  then show ?thesis
    using same_atD [OF same_decode_value_body [OF value_decoder_fuel]]
    by (simp add: decode_value_def [of data] fuel)
next
  case False
  then have body: "decode_value_body dv data ft st = with_scope (length data) depth_exhausted st" for dv
    by (simp add: decode_value_body_def with_scope_def with_depth_exhausted Let_def)
  show ?thesis
    by (cases "depth_fuel st") (simp_all add: decode_value_def [of data] body)
qed

end
