(* ===== verification/Bitset_Walk.thy ===== *)
theory Bitset_Walk
  imports Value_Safety
begin

text \<open>
  The bitset walk of monitor deltas (\<^verbatim>\<open>decode_with_bitset_recursive\<close>). The source looks up
  each nested structure's bit count in a table built once per descriptor and indexed by the
  running bit number; the walk is shown equal to one that counts each nested structure where it
  meets it, so every lookup is in range and right.
\<close>

section \<open>The walk without the table\<close>

text \<open>The same walk, with the number of bits below a nested structure counted afresh.\<close>

function bitset_fields_recount :: "bytes \<Rightarrow> bytes \<Rightarrow> field_desc list \<Rightarrow> nat \<Rightarrow> nat
    \<Rightarrow> (string \<times> decoded_value) list \<Rightarrow> bitset_state dec" where
  "bitset_fields_recount data bitset [] offset bo acc st = (Inr (True, offset, bo, acc), st)"
| "bitset_fields_recount data bitset (f # fs) offset bo acc st =
     (let field_present = bit_set bitset bo; bo = bo + 1 in
      case fd_type f of
        FT_Structure nested \<Rightarrow>
          (let child_count = count_structure_fields nested;
               any_child = (\<exists>i \<in> set [0..<child_count]. bit_set bitset (bo + i))
           in
           if field_present \<and> \<not> any_child then
             (if offset < length data then
                case decode_structure (drop offset data) nested st of
                  (Inr (v, consumed), st') \<Rightarrow>
                    bitset_fields_recount data bitset fs (offset + consumed) (bo + child_count)
                      (acc @ [(fd_name f, v)]) st'
                | (Inl e, st') \<Rightarrow>
                    if is_hostile e then (Inl e, st')
                    else (Inr (False, offset, bo + child_count, acc), st')
              else bitset_fields_recount data bitset fs offset (bo + child_count) acc st)
           else if any_child then
             (case bitset_fields_recount data bitset (sd_fields nested) offset bo [] st of
                (Inr (True, offset', bo', nested_fields), st') \<Rightarrow>
                  bitset_fields_recount data bitset fs offset' bo'
                    (if nested_fields \<noteq> [] then acc @ [(fd_name f, DV_Structure nested_fields)]
                     else acc) st'
              | (Inr (False, offset', bo', _), st') \<Rightarrow> (Inr (False, offset', bo', acc), st')
              | (Inl e, st') \<Rightarrow> (Inl e, st'))
           else bitset_fields_recount data bitset fs offset (bo + child_count) acc st)
      | ft \<Rightarrow>
          if field_present then
            (if offset \<ge> length data then (Inr (False, offset, bo, acc), st)
             else case decode_value (drop offset data) ft st of
                 (Inr (v, consumed), st') \<Rightarrow>
                   bitset_fields_recount data bitset fs (offset + consumed) bo
                     (acc @ [(fd_name f, v)]) st'
               | (Inl e, st') \<Rightarrow>
                   if is_hostile e then (Inl e, st') else (Inr (False, offset, bo, acc), st'))
          else bitset_fields_recount data bitset fs offset bo acc st)"
  by pat_completeness auto
termination
  by (relation "measure (\<lambda>(data, bitset, fs, _). size_list size fs)")
    (auto dest: size_nested_fields)

section \<open>Bit numbering along the walk\<close>

text \<open>The bits of a list of fields: their counts in bit order, and how many they are.\<close>

definition bits_of :: "field_desc list \<Rightarrow> nat list" where
  "bits_of fs = bit_counts (StructureDesc None fs)"

lemma bits_of_sd_fields: "bits_of (sd_fields d) = bit_counts d"
  by (cases d) (simp add: bits_of_def bit_counts.simps)

lemma bits_of_simps [simp]:
  "bits_of [] = []"
  "bits_of (f # fs) = field_bits f #
     (case fd_type f of FT_Structure nested \<Rightarrow> bits_of (sd_fields nested) | _ \<Rightarrow> []) @ bits_of fs"
  by (simp_all add: bits_of_sd_fields cong: field_type.case_cong)
    (simp_all add: bits_of_def bit_counts.simps)

lemma length_bits_of_nested: "length (bits_of (sd_fields d)) = count_structure_fields d"
  by (simp add: bits_of_sd_fields length_bit_counts)

lemma fields_induct [case_names Nil Cons]:
  assumes "P []"
    and "\<And>f fs. P fs \<Longrightarrow> (\<And>nested. fd_type f = FT_Structure nested \<Longrightarrow> P (sd_fields nested)) \<Longrightarrow>
      P (f # fs)"
  shows "P fs"
proof (induction fs rule: measure_induct_rule [of "size_list size"])
  case (less fs)
  show ?case
  proof (cases fs)
    case (Cons f gs)
    show ?thesis
      unfolding Cons
    proof (rule assms(2))
      show "P gs" by (rule less) (simp add: Cons)
      show "P (sd_fields nested)" if "fd_type f = FT_Structure nested" for nested
        using size_nested_fields [OF that] by (intro less) (simp add: Cons)
    qed
  qed (simp add: assms(1))
qed

declare bitset_fields.simps(2) [simp del] bitset_fields_recount.simps(2) [simp del]

lemma drop_step: "drop n xs = y # ys \<Longrightarrow> xs ! n = y \<and> drop (Suc n) xs = ys"
  by (metis drop_Suc list.sel(3) nth_via_drop tl_drop)

lemma recount_bits:
  "bitset_fields_recount data bitset fs off bo acc st = (Inr (True, off', bo', acc'), st') \<Longrightarrow>
   bo' = bo + length (bits_of fs)"
proof (induction fs arbitrary: off bo acc st off' bo' acc' st' rule: fields_induct)
  case Nil
  then show ?case by simp
next
  case (Cons f fs)
  note step = "Cons.prems" [unfolded bitset_fields_recount.simps(2) Let_def]
  show ?case
  proof (cases "fd_type f")
    case (FT_Structure nested)
    have len: "length (bits_of (f # fs)) = Suc (count_structure_fields nested + length (bits_of fs))"
      by (simp add: FT_Structure length_bits_of_nested)
    show ?thesis
      unfolding len using step FT_Structure
      by (auto split: if_splits prod.splits sum.splits bool.splits
          dest!: Cons.IH(1) Cons.IH(2) [OF FT_Structure] simp: length_bits_of_nested)
  qed (use step in \<open>auto split: if_splits prod.splits sum.splits dest!: Cons.IH(1)\<close>)
qed

text \<open>The table the source builds answers every lookup of the walk with the recount.\<close>

lemma walk_recounts:
  "0 < bo \<Longrightarrow> drop (bo - 1) counts = bits_of fs @ rest \<Longrightarrow>
   bitset_fields data bitset counts fs off bo acc st =
     bitset_fields_recount data bitset fs off bo acc st"
proof (induction fs arbitrary: off bo acc st rest rule: fields_induct)
  case Nil
  then show ?case by simp
next
  case (Cons f fs)
  have lookup: "counts ! (bo - 1) = field_bits f"
    and tail: "drop bo counts =
      (case fd_type f of FT_Structure nested \<Rightarrow> bits_of (sd_fields nested) | _ \<Rightarrow> []) @ bits_of fs @ rest"
    using drop_step [OF Cons.prems(2) [unfolded bits_of_simps append_Cons]] Cons.prems(1)
    by simp_all
  show ?case
  proof (cases "fd_type f")
    case (FT_Structure nested)
    have child: "counts ! (bo - 1) = count_structure_fields nested"
      using lookup by (simp add: field_bits_def FT_Structure)
    have tail': "drop (bo + count_structure_fields nested) counts = bits_of fs @ rest"
      using tail unfolding add.commute [of bo] drop_drop [symmetric]
      by (simp add: FT_Structure length_bits_of_nested)
    have rec: "bitset_fields data bitset counts (sd_fields nested) o1 (Suc bo) [] s =
        bitset_fields_recount data bitset (sd_fields nested) o1 (Suc bo) [] s" for o1 s
      using Cons.IH(2) [OF FT_Structure, of "Suc bo"] tail by (simp add: FT_Structure)
    have onward: "bitset_fields data bitset counts fs o1 (Suc (bo + count_structure_fields nested)) a s =
        bitset_fields_recount data bitset fs o1 (Suc (bo + count_structure_fields nested)) a s" for o1 a s
      using Cons.IH(1) tail' by simp
    show ?thesis
      unfolding bitset_fields.simps(2) bitset_fields_recount.simps(2) Let_def child
      by (auto simp: FT_Structure rec onward length_bits_of_nested dest!: recount_bits
          split: prod.splits sum.splits bool.splits)
  qed (use Cons tail in \<open>simp_all add: bitset_fields.simps(2) bitset_fields_recount.simps(2) Let_def
      split: prod.splits sum.splits\<close>)
qed

section \<open>Safety of the walk\<close>

lemma decode_structure_frame: "keeps frame (decode_structure data d)"
  unfolding decode_structure_def by (rule vd.structure_frame)

lemma recount_frame: "keeps frame (bitset_fields_recount data bitset fs off bo acc)"
proof (induction fs arbitrary: off bo acc rule: fields_induct)
  case Nil
  show ?case by (simp add: keeps_def fr.refl)
next
  case (Cons f fs)
  note struct = keeps_frameD [OF decode_structure_frame]
    and leaf = keeps_frameD [OF vd.dv_frame] and tail = keeps_frameD [OF Cons.IH(1)]
    and nested = keeps_frameD [OF Cons.IH(2)]
  show ?case
    unfolding keeps_def
  proof
    fix st
    obtain r st' where run: "bitset_fields_recount data bitset (f # fs) off bo acc st = (r, st')"
      by (cases "bitset_fields_recount data bitset (f # fs) off bo acc st")
    note step = run [unfolded bitset_fields_recount.simps(2) Let_def]
    have "frame st st'"
    proof (cases "fd_type f")
      case (FT_Structure d)
      show ?thesis
        using step unfolding FT_Structure field_type.case
        by (auto split: if_splits prod.splits sum.splits bool.splits
            dest!: struct nested [OF FT_Structure] tail intro: fr.trans fr.refl)
    qed (use step in \<open>auto split: if_splits prod.splits sum.splits dest!: leaf tail
        intro: fr.trans fr.refl\<close>)
    with run show "frame st (snd (bitset_fields_recount data bitset (f # fs) off bo acc st))" by simp
  qed
qed

text \<open>What the walk has decoded stays in the data and within the array limits.\<close>

definition walk_ok :: "nat \<Rightarrow> bytes \<Rightarrow> nat \<Rightarrow> (string \<times> decoded_value) list \<Rightarrow> bool" where
  "walk_ok n data off acc \<longleftrightarrow>
     off \<le> length data \<and> list_all (\<lambda>f. arrays_ok (min n (length data)) (snd f)) acc"

lemma structure_walk_ok:
  assumes "decode_structure (drop off data) d st = (Inr (v, c), st')" "max_array (d_limits st) \<le> n"
    "walk_ok n data off acc"
  shows "walk_ok n data (off + c) (acc @ [(name, v)])"
  using vd.structure_bounds [OF assms(1) [unfolded decode_structure_def] assms(2)] assms(3)
  by (auto simp: walk_ok_def elim: arrays_ok_mono)

lemma value_walk_ok:
  assumes "decode_value (drop off data) ft st = (Inr (v, c), st')" "max_array (d_limits st) \<le> n"
    "walk_ok n data off acc"
  shows "walk_ok n data (off + c) (acc @ [(name, v)])"
  using vd.dv_bounds [OF assms(1,2)] assms(3) by (auto simp: walk_ok_def elim: arrays_ok_mono)

lemma limits_kept: "keeps frame m \<Longrightarrow> m st = (r, st') \<Longrightarrow> d_limits st' = d_limits st"
  using keeps_frameD by (fastforce simp: frame_def)

lemma recount_ok:
  "bitset_fields_recount data bitset fs off bo acc st = (Inr (b, off', bo', acc'), st') \<Longrightarrow>
   max_array (d_limits st) \<le> n \<Longrightarrow> walk_ok n data off acc \<Longrightarrow> walk_ok n data off' acc'"
proof (induction fs arbitrary: off bo acc st b off' bo' acc' st' rule: fields_induct)
  case Nil
  then show ?case by simp
next
  case (Cons f fs)
  note step = Cons.prems(1) [unfolded bitset_fields_recount.simps(2) Let_def]
  show ?case
  proof (cases "fd_type f")
    case (FT_Structure d)
    have nested: "walk_ok n data o1 (acc @ [(fd_name f, DV_Structure a)]) \<and> walk_ok n data o1 acc"
      if "bitset_fields_recount data bitset (sd_fields d) off b1 [] st = (Inr (c, o1, b2, a), st1)"
      for b1 c o1 b2 a st1
      using Cons.IH(2) [OF FT_Structure that Cons.prems(2)] Cons.prems(3)
      by (auto simp: walk_ok_def)
    show ?thesis
      using step Cons.prems unfolding FT_Structure field_type.case
      by (auto split: if_splits prod.splits sum.splits bool.splits elim!: Cons.IH(1)
          simp: limits_kept [OF decode_structure_frame] limits_kept [OF recount_frame]
          intro: structure_walk_ok dest: nested)
  qed (use step Cons.prems in \<open>auto split: if_splits prod.splits sum.splits elim!: Cons.IH(1)
      simp: limits_kept [OF vd.dv_frame] intro: value_walk_ok\<close>)
qed

section \<open>The entry points\<close>

lemma decode_bitset_walk_recounts:
  "decode_bitset_walk data desc bitset =
     bind_dec (bitset_fields_recount data bitset (sd_fields desc) 0 1 [])
       (\<lambda>(_, offset, _, decoded). ret (DV_Structure decoded, offset))"
proof -
  have "bitset_fields data bitset (subtree_field_counts desc) (sd_fields desc) 0 1 [] =
      bitset_fields_recount data bitset (sd_fields desc) 0 1 []"
    using walk_recounts [of 1 "subtree_field_counts desc" "sd_fields desc" "[]"]
    by (simp add: fun_eq_iff subtree_field_counts_eq bits_of_sd_fields)
  then show ?thesis by (simp add: decode_bitset_walk_def)
qed

lemma bitset_walk_frame: "keeps frame (decode_bitset_walk data desc bitset)"
  unfolding decode_bitset_walk_recounts
  by (intro keeps_intros recount_frame) (auto intro: keeps_intros split: prod.split)

lemma bitset_walk_bounds:
  assumes "decode_bitset_walk data desc bitset st = (Inr (v, c), st')" "max_array (d_limits st) \<le> n"
  shows "c \<le> length data \<and> arrays_ok (min n (length data)) v"
proof -
  from assms(1) obtain b bo acc
    where "bitset_fields_recount data bitset (sd_fields desc) 0 1 [] st = (Inr (b, c, bo, acc), st')"
      and v: "v = DV_Structure acc"
    by (auto simp: decode_bitset_walk_recounts bind_dec_Inr)
  from recount_ok [OF this(1) assms(2)] v show ?thesis by (simp add: walk_ok_def)
qed

lemma keeps_unless_hostile:
  assumes "keeps frame m" "keeps frame k"
  shows "keeps frame (unless_hostile m k)"
  unfolding keeps_def
proof
  fix st
  obtain r st1 where run: "m st = (r, st1)" by (cases "m st")
  have "frame st st1" by (rule keeps_frameD [OF assms(1) run])
  moreover have "frame st1 (snd (k st1))" using assms(2) by (simp add: keeps_def)
  ultimately show "frame st (snd (unless_hostile m k st))"
    using run by (auto simp: unless_hostile_def split: sum.splits intro: fr.trans)
qed

lemma bitset_body_frame: "keeps frame (decode_structure_with_bitset_body data desc bitset)"
  unfolding decode_structure_with_bitset_body_def
  by (intro keeps_intros keeps_unless_hostile decode_structure_frame bitset_walk_frame)

lemma with_scope_Inr:
  "with_scope n m st = (Inr x, st') \<Longrightarrow>
   \<exists>st1 st2. m st1 = (Inr x, st2) \<and> d_limits st1 = d_limits st"
  by (auto simp: with_scope_def Let_def split: prod.splits if_splits)

lemma unless_hostile_Inr:
  assumes "unless_hostile m k st = (Inr x, st')" "keeps frame m"
  shows "m st = (Inr x, st') \<or> (\<exists>st1. k st1 = (Inr x, st') \<and> d_limits st1 = d_limits st)"
proof -
  obtain r st1 where run: "m st = (r, st1)" by (cases "m st")
  then show ?thesis
    using assms(1) limits_kept [OF assms(2) run]
    by (auto simp: unless_hostile_def split: sum.splits if_splits)
qed

lemma bitset_body_bounds:
  assumes "decode_structure_with_bitset_body data desc bitset st = (Inr (v, c), st')"
    "max_array (d_limits st) \<le> n"
  shows "c \<le> length data \<and> arrays_ok (min n (length data)) v"
proof -
  from with_scope_Inr [OF assms(1) [unfolded decode_structure_with_bitset_body_def]]
  obtain st1 st2 where "d_limits st1 = d_limits st"
    and "unless_hostile (decode_structure data desc) (decode_bitset_walk data desc bitset) st1
        = (Inr (v, c), st2) \<or>
      decode_bitset_walk data desc bitset st1 = (Inr (v, c), st2)"
    by (auto split: if_splits)
  then obtain st1 st2 where "d_limits st1 = d_limits st"
    and "decode_structure data desc st1 = (Inr (v, c), st2) \<or>
      decode_bitset_walk data desc bitset st1 = (Inr (v, c), st2)"
    using unless_hostile_Inr [OF _ decode_structure_frame] by metis
  then show ?thesis
    using assms(2) vd.structure_bounds [of data desc st1 v c st2 n]
      bitset_walk_bounds [of data desc bitset st1 v c st2 n]
    by (auto simp: decode_structure_def)
qed

lemma bitset_decode_frame: "keeps frame (decode_structure_with_bitset data desc)"
  unfolding decode_structure_with_bitset_def Let_def
  by (intro keeps_intros keeps_case_prod bitset_body_frame)

lemma bitset_decode_bounds:
  assumes "decode_structure_with_bitset data desc st = (Inr (v, c), st')"
    "max_array (d_limits st) \<le> n"
  shows "c \<le> length data \<and> arrays_ok (min n (length data)) v"
proof -
  from assms(1) obtain m off where size: "decode_size_prefixed data (d_is_be st) = Inr (m, off)"
    and run: "(m = 0 \<or> length data < off + m) \<and> v = DV_Structure [] \<and> c = off \<or>
      (\<exists>c1. off + m \<le> length data \<and> c = off + m + c1 \<and>
        decode_structure_with_bitset_body (drop (off + m) data) desc (take m (drop off data)) st
          = (Inr (v, c1), st'))"
    by (auto simp: decode_structure_with_bitset_def bind_dec_Inr decode_size_def Let_def
        split: if_splits)
  from decode_size_bounds [OF size] run assms(2) show ?thesis
    by (auto dest!: bitset_body_bounds elim: arrays_ok_mono)
qed

section \<open>Properties of value decoding\<close>






text \<open>C15: the delta decoder's bit-count table is right. The walk that looks up, by running bit
  number, how many bits each nested structure owns in a table built once per descriptor does
  exactly what a walk does that counts each nested structure where it meets it. In particular no
  lookup of the source is out of range.\<close>

theorem bitset_table_correct:
  "decode_bitset_walk data desc bitset st =
     bind_dec (bitset_fields_recount data bitset (sd_fields desc) 0 1 [])
       (\<lambda>(_, offset, _, decoded). ret (DV_Structure decoded, offset)) st"
  by (simp add: decode_bitset_walk_recounts)

end
