(* ===== verification/Desc_Roundtrip.thy ===== *)
theory Desc_Roundtrip
  imports Pvd_Safety
begin

text \<open>
  The descriptor encoder (\<^verbatim>\<open>encode_structure_desc\<close>, \<^verbatim>\<open>encode_type_desc\<close> of
  \<^verbatim>\<open>spvd_encode.rs\<close>) against the descriptor parser (\<^verbatim>\<open>parse_type_desc\<close>,
  \<^verbatim>\<open>parse_introspection\<close> of \<^verbatim>\<open>spvd_decode.rs\<close>): every descriptor the encoder
  can express and the decoder's limits admit is read back unchanged, from exactly the bytes that
  were written, and its cost is exactly its node count.
\<close>

section \<open>Descriptors the wire can carry\<close>

text \<open>
  The descriptors that survive the wire: strings are UTF-8 and have a 32-bit length, a structure
  has no more fields than the decoder admits, a structure ID that is present is not empty (an
  empty one reads back as absent), and the scalar codes are those with a tag of their own
  (a \<^verbatim>\<open>Scalar(String)\<close> reads back as \<^verbatim>\<open>String\<close>).
\<close>

definition wf_scalar_code :: "type_code \<Rightarrow> bool" where
  "wf_scalar_code tc \<longleftrightarrow> tc \<noteq> TC_Null \<and> tc \<noteq> TC_Variant \<and> tc \<noteq> TC_String"

fun wf_structure_desc :: "nat \<Rightarrow> structure_desc \<Rightarrow> bool"
  and wf_field_desc :: "nat \<Rightarrow> field_desc \<Rightarrow> bool"
  and wf_field_type :: "nat \<Rightarrow> field_type \<Rightarrow> bool" where
  "wf_structure_desc m (StructureDesc sid fs) \<longleftrightarrow>
     (case sid of None \<Rightarrow> True | Some s \<Rightarrow> s \<noteq> [] \<and> wf_string s) \<and>
     length fs \<le> m \<and> length fs < 2 ^ 32 \<and> list_all (wf_field_desc m) fs"
| "wf_field_desc m (FieldDesc name ft) \<longleftrightarrow> wf_string name \<and> wf_field_type m ft"
| "wf_field_type m (FT_Scalar tc) = wf_scalar_code tc"
| "wf_field_type m (FT_ScalarArray tc) = wf_scalar_code tc"
| "wf_field_type m (FT_Structure d) = wf_structure_desc m d"
| "wf_field_type m (FT_StructureArray d) = wf_structure_desc m d"
| "wf_field_type m (FT_Union fs) = wf_structure_desc m (StructureDesc None fs)"
| "wf_field_type m (FT_UnionArray fs) = wf_structure_desc m (StructureDesc None fs)"
| "wf_field_type m _ = True"

section \<open>Reading a type back\<close>

text \<open>A type is read back where the depth limit and the node budget have room for it; the cost
  is its node count, and nothing else of the decoder changes.\<close>

definition reads_back :: "field_type \<Rightarrow> bool" where
  "reads_back ft \<longleftrightarrow> (\<forall>st rest. st_ok st \<longrightarrow> wf_field_type (max_struct_fields (d_limits st)) ft \<longrightarrow>
     d_depth st + type_height ft \<le> max_depth (d_limits st) \<longrightarrow>
     d_nodes st + type_nodes ft \<le> d_node_limit st \<longrightarrow>
     parse_type_desc (encode_type_desc ft (d_is_be st) @ rest) st =
       (Inr (ft, length (encode_type_desc ft (d_is_be st))),
        st\<lparr>d_nodes := d_nodes st + type_nodes ft\<rparr>))"

lemma reads_backD:
  assumes "reads_back ft" "st_ok st" "wf_field_type (max_struct_fields (d_limits st)) ft"
    "d_depth st + type_height ft \<le> max_depth (d_limits st)"
    "d_nodes st + type_nodes ft \<le> d_node_limit st" "be = d_is_be st"
  shows "parse_type_desc (encode_type_desc ft be @ rest) st =
       (Inr (ft, length (encode_type_desc ft be)),
        st\<lparr>d_nodes := d_nodes st + type_nodes ft\<rparr>)"
  using assms unfolding reads_back_def by blast

lemma with_scope_nested:
  "0 < d_budget_scope st \<Longrightarrow>
   m (st\<lparr>d_budget_scope := Suc (d_budget_scope st)\<rparr>) = (r, st'\<lparr>d_budget_scope := Suc n\<rparr>) \<Longrightarrow>
   with_scope k m st = (r, st'\<lparr>d_budget_scope := n\<rparr>)"
  by (simp add: with_scope_def Let_def)

lemma charge_nodes_ok:
  "st_ok st \<Longrightarrow> d_nodes st + n \<le> d_node_limit st \<Longrightarrow>
   charge_nodes n st = (Inr (), st\<lparr>d_nodes := d_nodes st + n\<rparr>)"
  by (simp add: charge_nodes_def st_ok_def saturating_add_def Let_def)

lemma parse_field_desc_encode:
  assumes "reads_back (fd_type f)" and ok: "st_ok st"
    and wf: "wf_field_desc (max_struct_fields (d_limits st)) f"
    and depth: "d_depth st + type_height (fd_type f) \<le> max_depth (d_limits st)"
    and nodes: "d_nodes st + type_nodes (fd_type f) \<le> d_node_limit st"
  shows "parse_field_desc parse_type_desc (encode_field_desc f (d_is_be st) @ rest) st =
    (Inr (f, length (encode_field_desc f (d_is_be st))),
     st\<lparr>d_nodes := d_nodes st + type_nodes (fd_type f)\<rparr>)"
proof -
  obtain name ft where f: "f = FieldDesc name ft" by (cases f)
  define st1 where "st1 = st\<lparr>d_budget_scope := Suc (d_budget_scope st)\<rparr>"
  have "st_ok st1" using ok by (simp add: st1_def st_ok_def)
  then have "parse_type_desc (encode_type_desc ft (d_is_be st) @ rest) st1 =
      (Inr (ft, length (encode_type_desc ft (d_is_be st))),
       st1\<lparr>d_nodes := d_nodes st1 + type_nodes ft\<rparr>)"
    using assms by (intro reads_backD) (simp_all add: f st1_def)
  then show ?thesis
    using ok wf
    by (simp add: parse_field_desc_def f with_scope_def Let_def bind_dec_def decode_string_def
        decode_encode_string st1_def st_ok_def ret_def)
qed

text \<open>The fields of a structure are read one after another, each paying for its nodes.\<close>

definition fields_nodes :: "field_desc list \<Rightarrow> nat" where
  "fields_nodes fs = sum_list (map (\<lambda>f. type_nodes (fd_type f)) fs)"

lemma st_ok_nodes: "st_ok st \<Longrightarrow> n \<le> d_node_limit st \<Longrightarrow> st_ok (st\<lparr>d_nodes := n\<rparr>)"
  by (simp add: st_ok_def)

lemma parse_fields_encode:
  assumes "\<forall>f \<in> set fs. reads_back (fd_type f)" "st_ok st" "be = d_is_be st"
    and "list_all (wf_field_desc (max_struct_fields (d_limits st))) fs"
    and "\<forall>f \<in> set fs. d_depth st + type_height (fd_type f) \<le> max_depth (d_limits st)"
    and "d_nodes st + fields_nodes fs \<le> d_node_limit st"
    and "data = pre @ concat (map (\<lambda>f. encode_field_desc f be) fs) @ rest"
  shows "parse_fields parse_type_desc (length fs) data (length pre) acc st =
    (Inr (acc @ fs, length pre + length (concat (map (\<lambda>f. encode_field_desc f be) fs))),
     st\<lparr>d_nodes := d_nodes st + fields_nodes fs\<rparr>)"
  using assms
proof (induction fs arbitrary: pre acc st)
  case Nil
  then show ?case by (simp add: fields_nodes_def)
next
  case (Cons f fs)
  define st1 where "st1 = st\<lparr>d_nodes := d_nodes st + type_nodes (fd_type f)\<rparr>"
  define pre1 where "pre1 = pre @ encode_field_desc f be"
  have room: "d_nodes st + type_nodes (fd_type f) + fields_nodes fs \<le> d_node_limit st"
    using Cons.prems(6) by (simp add: fields_nodes_def)
  have data: "drop (length pre) data =
      encode_field_desc f be @ concat (map (\<lambda>f. encode_field_desc f be) fs) @ rest"
    using Cons.prems(7) by simp
  have field: "parse_field_desc parse_type_desc (drop (length pre) data) st =
      (Inr (f, length (encode_field_desc f be)), st1)"
    unfolding data st1_def using Cons.prems room
    by (auto intro!: parse_field_desc_encode)
  have "encode_field_desc f be \<noteq> []" by (cases f) simp
  with Cons.prems(7) have more: "length pre < length data" by simp
  have "parse_fields parse_type_desc (length fs) data (length pre1) (acc @ [f]) st1 =
      (Inr ((acc @ [f]) @ fs,
         length pre1 + length (concat (map (\<lambda>f. encode_field_desc f be) fs))),
       st1\<lparr>d_nodes := d_nodes st1 + fields_nodes fs\<rparr>)"
    using Cons.prems room by (intro Cons.IH) (auto simp: st1_def pre1_def intro: st_ok_nodes)
  with field more show ?case
    by (simp add: pre1_def st1_def fields_nodes_def ac_simps)
qed

lemma sub_height:
  "sub_fields ft = Some fs \<Longrightarrow> f \<in> set fs \<Longrightarrow> type_height (fd_type f) < type_height ft"
  by (simp add: less_Suc_eq_le max_list_ge)

lemma parse_structure_desc_encode:
  assumes "\<forall>f \<in> set (sd_fields d). reads_back (fd_type f)" "st_ok st"
    and wf: "wf_structure_desc (max_struct_fields (d_limits st)) d"
    and "\<forall>f \<in> set (sd_fields d). d_depth st + type_height (fd_type f) \<le> max_depth (d_limits st)"
    and "d_nodes st + fields_nodes (sd_fields d) \<le> d_node_limit st"
  shows "parse_structure_desc parse_type_desc (encode_structure_desc d (d_is_be st) @ rest) st =
    (Inr (d, length (encode_structure_desc d (d_is_be st))),
     st\<lparr>d_nodes := d_nodes st + fields_nodes (sd_fields d)\<rparr>)"
proof -
  obtain sid fs where d: "d = StructureDesc sid fs" by (cases d)
  define be where "be = d_is_be st"
  define name where "name = (case sid of None \<Rightarrow> [] | Some s \<Rightarrow> s)"
  define pre where "pre = encode_string name be @ encode_size (length fs) be"
  define data where "data = encode_structure_desc d be @ rest"
  have data: "data = pre @ concat (map (\<lambda>f. encode_field_desc f be) fs) @ rest"
    by (simp add: data_def d pre_def name_def)
  have name: "wf_string name" "(if name = [] then None else Some name) = sid"
    using wf by (auto simp: name_def d split: option.splits)
  have "parse_fields parse_type_desc (length fs) data (length pre) [] st =
    (Inr ([] @ fs, length pre + length (concat (map (\<lambda>f. encode_field_desc f be) fs))),
     st\<lparr>d_nodes := d_nodes st + fields_nodes fs\<rparr>)"
    using assms d by (intro parse_fields_encode [OF _ _ be_def _ _ _ data]) simp_all
  then have "parse_structure_desc parse_type_desc data st =
    (Inr (d, length (pre @ concat (map (\<lambda>f. encode_field_desc f be) fs))),
     st\<lparr>d_nodes := d_nodes st + fields_nodes fs\<rparr>)"
    using name wf
    by (simp add: parse_structure_desc_def bind_dec_def decode_string_def decode_size_def data
        pre_def decode_encode_string decode_encode_size d ret_def flip: be_def)
  then show ?thesis
    by (simp add: data_def be_def d pre_def name_def)
qed

text \<open>The dispatch on the tag the encoder wrote, one level down and one node charged.\<close>

lemma parse_type_tag_encode:
  assumes sub: "\<And>fs f. sub_fields ft = Some fs \<Longrightarrow> f \<in> set fs \<Longrightarrow> reads_back (fd_type f)"
    and ok: "st_ok st" and wf: "wf_field_type (max_struct_fields (d_limits st)) ft"
    and depth: "d_depth st + type_height ft \<le> Suc (max_depth (d_limits st))"
    and nodes: "d_nodes st + type_nodes ft \<le> Suc (d_node_limit st)"
  shows "parse_type_tag parse_type_desc (encode_type_desc ft (d_is_be st) @ rest) st =
    (Inr (ft, length (encode_type_desc ft (d_is_be st))),
     st\<lparr>d_nodes := d_nodes st + type_nodes ft - 1\<rparr>)"
proof -
  have struct: "parse_structure_desc parse_type_desc (encode_structure_desc d (d_is_be st) @ rest) st =
      (Inr (d, length (encode_structure_desc d (d_is_be st))),
       st\<lparr>d_nodes := d_nodes st + fields_nodes (sd_fields d)\<rparr>)"
    if "sub_fields ft = Some (sd_fields d)" "wf_structure_desc (max_struct_fields (d_limits st)) d" for d
    using that depth nodes
    by (intro parse_structure_desc_encode ok)
      (auto simp: sub fields_nodes_def dest!: sub_height [OF that(1)] simp del: type_height_node)
  note run = parse_type_tag_def bind_dec_def ret_def Let_def
  show ?thesis
  proof (cases ft)
    case (FT_Structure d)
    then show ?thesis using wf struct [of d] by (simp add: run fields_nodes_def)
  next
    case (FT_StructureArray d)
    then show ?thesis using wf struct [of d] by (simp add: run fields_nodes_def)
  next
    case (FT_Union fs)
    then show ?thesis
      using wf struct [of "StructureDesc None fs"] by (simp add: run fields_nodes_def)
  next
    case (FT_UnionArray fs)
    then show ?thesis
      using wf struct [of "StructureDesc None fs"] by (simp add: run fields_nodes_def)
  next
    case (FT_BoundedString b)
    have "unat b < 2 ^ 32" using unsigned_less [of b, where ?'a = nat] by simp
    then show ?thesis
      using FT_BoundedString by (simp add: run decode_size_def decode_encode_size)
  next
    case (FT_Scalar tc)
    then show ?thesis using wf by (cases tc) (simp_all add: run wf_scalar_code_def tc_from_byte_def)
  next
    case (FT_ScalarArray tc)
    then show ?thesis using wf by (cases tc) (simp_all add: run wf_scalar_code_def tc_from_byte_def)
  qed (simp_all add: run)
qed

lemma encode_type_tag_literal:
  assumes "wf_field_type m ft"
  shows "(encode_type_desc ft be @ rest) ! 0 \<noteq> 0xFD" "(encode_type_desc ft be @ rest) ! 0 \<noteq> 0xFE"
proof -
  have "(encode_type_desc ft be @ rest) ! 0 \<noteq> 0xFD \<and> (encode_type_desc ft be @ rest) ! 0 \<noteq> 0xFE"
  proof (cases ft)
    case (FT_Scalar tc)
    then show ?thesis using assms by (cases tc) (simp_all add: wf_scalar_code_def)
  next
    case (FT_ScalarArray tc)
    then show ?thesis using assms by (cases tc) (simp_all add: wf_scalar_code_def)
  qed simp_all
  then show "(encode_type_desc ft be @ rest) ! 0 \<noteq> 0xFD"
    "(encode_type_desc ft be @ rest) ! 0 \<noteq> 0xFE" by simp_all
qed

lemma type_reads_back: "reads_back ft"
proof (induction ft rule: field_type_induct)
  case (Node ft)
  show ?case
    unfolding reads_back_def
  proof (intro allI impI)
    fix st rest
    assume ok: "st_ok st" and wf: "wf_field_type (max_struct_fields (d_limits st)) ft"
      and depth: "d_depth st + type_height ft \<le> max_depth (d_limits st)"
      and nodes: "d_nodes st + type_nodes ft \<le> d_node_limit st"
    define data where "data = encode_type_desc ft (d_is_be st) @ rest"
    define st1 where "st1 = st\<lparr>d_depth := Suc (d_depth st)\<rparr>"
    define st2 where "st2 = st1\<lparr>d_nodes := Suc (d_nodes st)\<rparr>"
    have pos: "0 < type_nodes ft" "0 < type_height ft" by (simp_all add: type_nodes_pos type_height_pos)
    have "charge_nodes 1 st1 = (Inr (), st2)"
      using charge_nodes_ok [of st1 1] ok nodes pos by (simp add: st1_def st2_def)
    moreover have "parse_type_tag parse_type_desc data st2 =
        (Inr (ft, length (encode_type_desc ft (d_is_be st))),
         st2\<lparr>d_nodes := d_nodes st2 + type_nodes ft - 1\<rparr>)"
      using parse_type_tag_encode [of ft st2 rest] Node ok wf depth nodes pos
      by (simp add: data_def st2_def st1_def st_ok_nodes)
    ultimately have "parse_type_desc_body parse_type_desc data st =
        (Inr (ft, length (encode_type_desc ft (d_is_be st))),
         st\<lparr>d_nodes := d_nodes st + type_nodes ft\<rparr>)"
      using depth pos encode_type_tag_literal [OF wf]
      by (simp add: parse_type_desc_body_def with_depth_def bind_dec_def data_def st1_def st2_def)
    then show "parse_type_desc (encode_type_desc ft (d_is_be st) @ rest) st =
        (Inr (ft, length (encode_type_desc ft (d_is_be st))),
         st\<lparr>d_nodes := d_nodes st + type_nodes ft\<rparr>)"
      by (simp add: parse_type_desc_unfold [of _ st] data_def)
  qed
qed

section \<open>The introspection entry point\<close>

lemma type_nodes_le_length: "type_nodes ft \<le> length (encode_type_desc ft be)"
proof (induction ft rule: field_type_induct)
  case (Node ft)
  have fields: "(\<Sum>f\<leftarrow>fs. type_nodes (fd_type f)) \<le>
      length (concat (map (\<lambda>f. encode_field_desc f be) fs))" if "sub_fields ft = Some fs" for fs
  proof -
    have "type_nodes (fd_type f) \<le> length (encode_field_desc f be)" if "f \<in> set fs" for f
      using Node [OF \<open>sub_fields ft = Some fs\<close> that] by (cases f) simp
    then show ?thesis
      by (simp add: length_concat comp_def sum_list_mono)
  qed
  have "(\<Sum>f\<leftarrow>sd_fields d. type_nodes (fd_type f)) \<le> length (encode_structure_desc d be)"
    if "sub_fields ft = Some (sd_fields d)" for d
    using fields [OF that] by (cases d) simp
  note struct = this this [of "StructureDesc None fs" for fs, simplified]
  show ?case
    using struct by (cases ft) (simp_all add: le_SucI)
qed

lemma node_ceiling_ge:
  "n \<le> MAX_DECODE_NODES \<Longrightarrow> n \<le> len \<Longrightarrow> n \<le> node_ceiling m len"
  by (auto simp: node_ceiling_def saturating_add_def saturating_mul_def NODES_PER_BYTE_def
      MAX_DECODE_NODES_def usize_max_def)

lemma introspection_encode:
  assumes idle: "idle st" and be: "d_is_be st = be"
    and wf: "wf_structure_desc (max_struct_fields (d_limits st)) d"
    and height: "type_height (FT_Structure d) \<le> max_depth (d_limits st)"
    and nodes: "type_nodes (FT_Structure d) \<le> MAX_DECODE_NODES"
    and data: "data = encode_type_desc (FT_Structure d) be @ rest"
  shows "parse_introspection_with_len data st =
    (Inr (d, length (encode_type_desc (FT_Structure d) be)),
     st\<lparr>d_nodes := type_nodes (FT_Structure d),
        d_node_limit := node_ceiling (max_struct_fields (d_limits st)) (length data)\<rparr>)"
proof -
  define st1 where "st1 = (open_scope (length data) st)\<lparr>d_depth := 1\<rparr>"
  define st2 where "st2 = st1\<lparr>d_nodes := 1\<rparr>"
  have "type_nodes (FT_Structure d) \<le> length data"
    using type_nodes_le_length [of "FT_Structure d" be] by (simp add: data)
  then have room: "type_nodes (FT_Structure d) \<le> d_node_limit st1"
    using node_ceiling_ge [OF nodes] by (simp add: st1_def open_scope_def)
  have ok: "st_ok st1" using open_scope_ok [OF idle] by (simp add: st1_def)
  have below: "\<forall>f \<in> set (sd_fields d). Suc (type_height (fd_type f)) \<le> max_depth (d_limits st)"
    using sub_height [of "FT_Structure d"] height by (fastforce simp del: type_height_node)
  have "charge_nodes 1 st1 = (Inr (), st2)"
    using charge_nodes_ok [OF ok, of 1] room by (simp add: st1_def st2_def open_scope_def)
  moreover have "parse_structure_desc parse_type_desc (encode_structure_desc d be @ rest) st2 =
      (Inr (d, length (encode_structure_desc d be)),
       st2\<lparr>d_nodes := Suc (fields_nodes (sd_fields d))\<rparr>)"
    using parse_structure_desc_encode [of d st2 rest] ok room wf be below
    by (simp add: type_reads_back st2_def st1_def open_scope_def st_ok_def fields_nodes_def)
  ultimately have "parse_introspection_tag parse_introspection_with_len data st1 =
      (Inr (d, length (encode_type_desc (FT_Structure d) be)),
       st1\<lparr>d_nodes := type_nodes (FT_Structure d)\<rparr>)"
    by (simp add: parse_introspection_tag_def bind_dec_def data ret_def st2_def fields_nodes_def)
  then show ?thesis
    unfolding parse_introspection_unfold [of data st] parse_introspection_body_def
      with_scope_idle [OF idle]
    using idle height by (simp add: with_depth_def st1_def open_scope_def idle_def data)
qed

text \<open>The same inside another parse, below a full-ID tag.\<close>

lemma introspection_encode_nested:
  assumes ok: "st_ok st" and be: "d_is_be st = be"
    and wf: "wf_structure_desc (max_struct_fields (d_limits st)) d"
    and height: "d_depth st + type_height (FT_Structure d) \<le> max_depth (d_limits st)"
    and nodes: "d_nodes st + type_nodes (FT_Structure d) \<le> d_node_limit st"
  shows "parse_introspection_with_len (encode_type_desc (FT_Structure d) be @ rest) st =
    (Inr (d, length (encode_type_desc (FT_Structure d) be)),
     st\<lparr>d_nodes := d_nodes st + type_nodes (FT_Structure d)\<rparr>)"
proof -
  define st1 where "st1 = st\<lparr>d_budget_scope := Suc (d_budget_scope st), d_depth := Suc (d_depth st)\<rparr>"
  define st2 where "st2 = st1\<lparr>d_nodes := Suc (d_nodes st)\<rparr>"
  have ok1: "st_ok st1" using ok by (simp add: st1_def st_ok_def)
  have below: "\<forall>f \<in> set (sd_fields d). d_depth st + Suc (type_height (fd_type f)) \<le> max_depth (d_limits st)"
    using sub_height [of "FT_Structure d"] height by (fastforce simp del: type_height_node)
  have "charge_nodes 1 st1 = (Inr (), st2)"
    using charge_nodes_ok [OF ok1, of 1] nodes by (simp add: st1_def st2_def)
  moreover have "parse_structure_desc parse_type_desc (encode_structure_desc d be @ rest) st2 =
      (Inr (d, length (encode_structure_desc d be)),
       st2\<lparr>d_nodes := Suc (d_nodes st + fields_nodes (sd_fields d))\<rparr>)"
    using parse_structure_desc_encode [of d st2 rest] ok1 nodes wf be below
    by (simp add: type_reads_back st2_def st1_def st_ok_def fields_nodes_def)
  ultimately have "parse_introspection_tag parse_introspection_with_len
      (encode_type_desc (FT_Structure d) be @ rest) st1 =
      (Inr (d, length (encode_type_desc (FT_Structure d) be)),
       st1\<lparr>d_nodes := d_nodes st + type_nodes (FT_Structure d)\<rparr>)"
    by (simp add: parse_introspection_tag_def bind_dec_def ret_def st2_def fields_nodes_def)
  then show ?thesis
    unfolding parse_introspection_unfold [of _ st] parse_introspection_body_def
    using ok height by (simp add: with_scope_def with_depth_def st1_def st_ok_def Let_def)
qed

lemma introspection_encode_full_id:
  assumes idle: "idle st" and be: "d_is_be st = be"
    and wf: "wf_structure_desc (max_struct_fields (d_limits st)) d"
    and height: "Suc (type_height (FT_Structure d)) \<le> max_depth (d_limits st)"
    and nodes: "type_nodes (FT_Structure d) \<le> MAX_DECODE_NODES"
  shows "fst (parse_introspection_with_len (0xFD # a # b # encode_type_desc (FT_Structure d) be @ rest) st) =
    Inr (d, 3 + length (encode_type_desc (FT_Structure d) be))"
proof -
  let ?enc = "encode_type_desc (FT_Structure d) be"
  define st1 where "st1 = (open_scope (length (0xFD # a # b # ?enc @ rest)) st)\<lparr>d_depth := 1\<rparr>"
  have ok: "st_ok st1" using open_scope_ok [OF idle] by (simp add: st1_def)
  have "type_nodes (FT_Structure d) \<le> length (0xFD # a # b # ?enc @ rest)"
    using type_nodes_le_length [of "FT_Structure d" be] by simp
  then have "type_nodes (FT_Structure d) \<le> d_node_limit st1"
    using node_ceiling_ge [OF nodes] by (simp add: st1_def open_scope_def)
  then have "fst (parse_introspection_with_len (?enc @ rest) st1) = Inr (d, length ?enc)"
    using introspection_encode_nested [OF ok, of be d rest] be wf height
    by (simp add: st1_def open_scope_def del: type_height_node type_nodes_node)
  moreover have "d_is_be st1 = be" using be by (simp add: st1_def open_scope_def)
  ultimately have "fst (parse_introspection_tag parse_introspection_with_len
      (0xFD # a # b # ?enc @ rest) st1) = Inr (d, 3 + length ?enc)"
    by (auto simp: parse_introspection_tag_def bind_dec_def ret_def read_key_def register_def Let_def
        simp del: encode_type_desc.simps split: prod.splits sum.splits)
  then show ?thesis
    unfolding parse_introspection_unfold [of _ st] parse_introspection_body_def
      with_scope_idle [OF idle]
    using idle height
    by (auto simp: with_depth_def st1_def open_scope_def idle_def simp del: encode_type_desc.simps
        split: prod.splits)
qed

section \<open>Type IDs\<close>

text \<open>The two bytes of a type ID, in the decoder's byte order.\<close>

lemma length_two: "length xs = 2 \<longleftrightarrow> (\<exists>a b. xs = [a, b])"
  by (auto simp: numeral_2_eq_2 length_Suc_conv)

lemma key_bytes:
  "\<exists>a b. to_bytes be (key :: u16) = [a, b] \<and> of_bytes be [a, b] = key"
proof -
  obtain a b where ab: "to_bytes be key = [a, b]"
    using length_two [of "to_bytes be key"] by auto
  have "of_bytes be [a, b] = key"
    unfolding ab [symmetric] by (rule of_bytes_to_bytes) simp
  with ab show ?thesis by blast
qed

lemma full_id_registers:
  assumes "parse_type_desc (0xFD # to_bytes (d_is_be st) (key :: u16) @ data) st = (Inr (ft, c), st')"
  shows "d_registry st' key = Some (ft, type_height ft, type_nodes ft)"
proof -
  obtain a b where "to_bytes (d_is_be st) key = [a, b]" "of_bytes (d_is_be st) [a, b] = key"
    using key_bytes by blast
  with assms show ?thesis
    by (auto simp: parse_type_desc_unfold [of _ st] parse_type_desc_body_def with_depth_Inr
        parse_type_tag_def read_key_def register_def bind_dec_Inr)
qed

lemma only_id_resolves:
  assumes "d_registry st key = Some (ft, h, n)" "d_depth st + h \<le> max_depth (d_limits st)"
    "0 < h" "st_ok st" "d_nodes st + n \<le> d_node_limit st"
  shows "parse_type_desc (0xFE # to_bytes (d_is_be st) key @ rest) st =
    (Inr (ft, 3), st\<lparr>d_nodes := d_nodes st + n\<rparr>)"
proof -
  obtain a b where "to_bytes (d_is_be st) key = [a, b]" "of_bytes (d_is_be st) [a, b] = key"
    using key_bytes by blast
  with assms charge_nodes_ok [of "st\<lparr>d_depth := Suc (d_depth st)\<rparr>" n] show ?thesis
    by (simp add: parse_type_desc_unfold [of _ st] parse_type_desc_body_def with_depth_def
        bind_dec_def parse_type_tag_def read_key_def check_resolved_height_def ret_def)
qed

section \<open>Properties of descriptors on the wire\<close>

text \<open>C6: introspection round trip. A structure descriptor written with the structure tag and
  \<^verbatim>\<open>encode_structure_desc\<close>, followed by any bytes, is parsed back unchanged by
  \<^verbatim>\<open>parse_introspection_with_len\<close>, which reports exactly the bytes written; it suffices that
  the descriptor's strings and counts fit the wire, its height is within the depth limit, and it
  has at most a million nodes. The node budget never refuses a descriptor for being short on
  the wire.\<close>

theorem introspection_round_trip:
  assumes "idle st" "d_is_be st = be"
    and "wf_structure_desc (max_struct_fields (d_limits st)) d"
    and "type_height (FT_Structure d) \<le> max_depth (d_limits st)"
    and "type_nodes (FT_Structure d) \<le> MAX_DECODE_NODES"
  shows "fst (parse_introspection_with_len (0x80 # encode_structure_desc d be @ rest) st) =
    Inr (d, 1 + length (encode_structure_desc d be))"
  using introspection_encode [OF assms refl, of rest] by (simp del: type_nodes_node)

definition nested_desc :: structure_desc where
  "nested_desc = StructureDesc (Some ''t'')
     [FieldDesc ''v'' (FT_Scalar TC_Int32),
      FieldDesc ''s'' (FT_StructureArray (StructureDesc None [FieldDesc ''u'' (FT_Union [])]))]"

theorem introspection_round_trip_witness:
  "fst (parse_introspection_with_len (0x80 # encode_structure_desc nested_desc False @ [7]) (pvd_new False)) =
     Inr (nested_desc, 1 + length (encode_structure_desc nested_desc False))"
  by (rule introspection_round_trip)
    (simp_all add: pvd_new_def pvd_with_limits_def default_limits_def idle_def reg_ok_def
      usize_max_def nested_desc_def wf_scalar_code_def wf_string_def as_bytes_def
      MAX_DECODE_NODES_def)

text \<open>C11: a type ID stands for the type it was sent with. After a type was read with the full-ID
  tag, reading the ID alone, in the decoder state that left, gives the same type from three
  bytes, at the full cost of the type's nodes, wherever the node budget has room for it.\<close>

theorem type_id_resolves:
  assumes "st_ok st"
    and "parse_type_desc (0xFD # to_bytes (d_is_be st) (key :: u16) @ data) st = (Inr (ft, c), st')"
    and "d_nodes st' + type_nodes ft \<le> d_node_limit st'"
  shows "parse_type_desc (0xFE # to_bytes (d_is_be st) key @ rest) st' =
    (Inr (ft, 3), st'\<lparr>d_nodes := d_nodes st' + type_nodes ft\<rparr>)"
proof -
  have frame: "frame st st'" by (rule keeps_frameD [OF tp.parse_frame assms(2)])
  have "st_ok st'" by (rule within_Inr [OF tp.parse_within assms(1,2)])
  moreover have "d_depth st' + type_height ft \<le> max_depth (d_limits st')"
    using tp.parse_post [OF assms(1,2)] frame by (simp add: type_post_def frame_def)
  ultimately show ?thesis
    using only_id_resolves [OF full_id_registers [OF assms(2)] _ type_height_pos _ assms(3)] frame
    by (simp add: frame_def)
qed

definition full_id_bytes :: bytes where
  "full_id_bytes = 0xFD # to_bytes True (1 :: u16) @ [0x43]"

lemma full_id_run:
  "\<exists>st'. parse_type_desc full_id_bytes (open_scope 4 (pvd_new True)) = (Inr (FT_Scalar TC_Float64, 4), st') \<and>
    d_nodes st' = 1 \<and> d_node_limit st' = 65600"
  by (simp add: full_id_bytes_def parser_run open_scope_def to_bytes_def le_bytes_numeral)

theorem type_id_resolves_witness:
  "\<exists>st'. parse_type_desc full_id_bytes (open_scope 4 (pvd_new True)) = (Inr (FT_Scalar TC_Float64, 4), st') \<and>
     fst (parse_type_desc (0xFE # to_bytes True (1 :: u16)) st') = Inr (FT_Scalar TC_Float64, 3)"
proof -
  define st where "st = open_scope 4 (pvd_new True)"
  obtain st' where run: "parse_type_desc full_id_bytes st = (Inr (FT_Scalar TC_Float64, 4), st')"
      "d_nodes st' = 1" "d_node_limit st' = 65600"
    using full_id_run unfolding st_def by blast
  have be: "d_is_be st = True"
    by (simp add: st_def open_scope_def pvd_new_def pvd_with_limits_def)
  have "st_ok st" unfolding st_def by (rule open_scope_ok) simp
  from type_id_resolves [OF this, of 1 "[0x43]" "FT_Scalar TC_Float64" 4 st' "[]"] run show ?thesis
    unfolding st_def [symmetric] by (simp add: be full_id_bytes_def)
qed

end
