(* ===== verification/Pv_Request.thy ===== *)
theory Pv_Request
  imports Desc_Roundtrip "HOL-Library.Sublist"
begin

text \<open>
  pvRequests (\<^verbatim>\<open>spvirit-codec/src/spvd_encode.rs\<close>): the tree of requested field paths, the
  narrowing of a descriptor to it, and the encoder and decoders of the request structure. The
  tree is a trie; it stands for the set of paths that some requested path is a prefix of, and
  narrowing keeps exactly the leaves in that set.
\<close>

section \<open>The tree of requested paths\<close>

text \<open>\<^verbatim>\<open>str::split('.')\<close>\<close>

fun split_dots :: "string \<Rightarrow> string list" where
  "split_dots [] = [[]]"
| "split_dots (c # cs) =
     (if c = CHR ''.'' then [] # split_dots cs
      else case split_dots cs of [] \<Rightarrow> [[c]] | p # ps \<Rightarrow> (c # p) # ps)"

definition path_parts :: "string \<Rightarrow> string list" where
  "path_parts p = filter (\<lambda>s. s \<noteq> []) (split_dots p)"

datatype path_node = PathNode (select_all: bool) (children: "(string \<times> path_node) list")

definition path_node_default :: path_node where
  "path_node_default = PathNode False []"

text \<open>\<^verbatim>\<open>child_mut\<close> followed by an update of the child it returns.\<close>

fun child_mut :: "string \<Rightarrow> (path_node \<Rightarrow> path_node) \<Rightarrow> (string \<times> path_node) list
    \<Rightarrow> (string \<times> path_node) list" where
  "child_mut name upd [] = [(name, upd path_node_default)]"
| "child_mut name upd ((n, c) # cs) =
     (if n = name then (n, upd c) # cs else (n, c) # child_mut name upd cs)"

definition child :: "path_node \<Rightarrow> string \<Rightarrow> path_node option" where
  "child node name = map_option snd (find (\<lambda>(n, _). n = name) (children node))"

primrec insert_path :: "string list \<Rightarrow> path_node \<Rightarrow> path_node" where
  "insert_path [] node = node"
| "insert_path (part # parts) node =
     PathNode (select_all node)
       (child_mut part (\<lambda>c. insert_path parts (if parts = [] then PathNode True [] else c))
         (children node))"

definition build_path_tree :: "string list \<Rightarrow> path_node" where
  "build_path_tree paths = fold (\<lambda>p root. insert_path (path_parts p) root) paths path_node_default"

section \<open>Narrowing a descriptor\<close>

lemma size_field_nested:
  "f \<in> set (sd_fields d) \<Longrightarrow> fd_type f = FT_Structure inner \<or> fd_type f = FT_StructureArray inner \<Longrightarrow>
   size inner < size d"
proof (cases d)
  case (StructureDesc i fs)
  assume "f \<in> set (sd_fields d)" and ft: "fd_type f = FT_Structure inner \<or> fd_type f = FT_StructureArray inner"
  then have "size f < Suc (size_list size fs)"
    using size_list_estimation' [of f fs "size f" size] by (auto simp: StructureDesc less_Suc_eq_le)
  moreover have "size inner < size f" using ft by (cases f) auto
  ultimately show ?thesis by (simp add: StructureDesc)
qed

function prune_structure :: "structure_desc \<Rightarrow> path_node \<Rightarrow> structure_desc" where
  "prune_structure desc node =
     (if select_all node then desc
      else StructureDesc (struct_id desc) (concat (map (\<lambda>field.
        case child node (fd_name field) of
          None \<Rightarrow> []
        | Some c \<Rightarrow>
            if select_all c then [field]
            else case fd_type field of
                FT_Structure inner \<Rightarrow>
                  let pruned = prune_structure inner c in
                  if sd_fields pruned \<noteq> [] then [FieldDesc (fd_name field) (FT_Structure pruned)] else []
              | FT_StructureArray inner \<Rightarrow>
                  let pruned = prune_structure inner c in
                  if sd_fields pruned \<noteq> [] then [FieldDesc (fd_name field) (FT_StructureArray pruned)] else []
              | _ \<Rightarrow> []) (sd_fields desc))))"
  by pat_completeness auto
termination
  by (relation "measure (\<lambda>(d, _). size d)") (auto dest: size_field_nested)

declare prune_structure.simps [simp del]

definition filter_structure_desc :: "structure_desc \<Rightarrow> string list \<Rightarrow> structure_desc" where
  "filter_structure_desc desc requested =
     (if requested = [] then desc else prune_structure desc (build_path_tree requested))"

section \<open>The request structure\<close>

lemma size_child: "(n, c) \<in> set (children t) \<Longrightarrow> size c < size t"
proof (cases t)
  case (PathNode a cs)
  assume "(n, c) \<in> set (children t)"
  then have "size c \<le> size_list (size_prod (\<lambda>_. 0) size) cs"
    unfolding PathNode path_node.sel by (induction cs) auto
  then show ?thesis by (simp add: PathNode)
qed

function path_tree_to_field_descs :: "path_node \<Rightarrow> field_desc list" where
  "path_tree_to_field_descs node = map (\<lambda>(name, c).
     FieldDesc name (FT_Structure (StructureDesc None
       (if select_all c then [] else path_tree_to_field_descs c)))) (children node)"
  by pat_completeness auto
termination
  by (relation "measure size") (auto dest: size_child)

declare path_tree_to_field_descs.simps [simp del]

definition pv_request_desc :: "string list \<Rightarrow> (string \<times> string) list \<Rightarrow> structure_desc" where
  "pv_request_desc fs options =
     StructureDesc None (FieldDesc ''field''
         (FT_Structure (StructureDesc None (path_tree_to_field_descs (build_path_tree fs))))
       # (if options \<noteq> [] then
            [FieldDesc ''record'' (FT_Structure (StructureDesc None
              [FieldDesc ''_options'' (FT_Structure (StructureDesc None
                (map (\<lambda>(k, _). FieldDesc k FT_String) options)))]))]
          else []))"

definition encode_pv_request_with_options :: "string list \<Rightarrow> (string \<times> string) list \<Rightarrow> bool \<Rightarrow> bytes" where
  "encode_pv_request_with_options fs options be =
     [0x80] @ encode_structure_desc (pv_request_desc fs options) be
     @ concat (map (\<lambda>(_, v). encode_string v be) options)"

definition encode_pv_request :: "string list \<Rightarrow> bool \<Rightarrow> bytes" where
  "encode_pv_request fs be = encode_pv_request_with_options fs [] be"

text \<open>\<^verbatim>\<open>format!("{}.{}", prefix, name)\<close>, or the name alone under an empty prefix.\<close>

definition join_path :: "string \<Rightarrow> string \<Rightarrow> string" where
  "join_path pre name = (if pre = [] then name else pre @ ''.'' @ name)"

function collect_pv_request_paths :: "structure_desc \<Rightarrow> string \<Rightarrow> string list" where
  "collect_pv_request_paths desc pre = concat (map (\<lambda>field.
     case fd_type field of
       FT_Structure nested \<Rightarrow>
         if sd_fields nested \<noteq> [] then collect_pv_request_paths nested (join_path pre (fd_name field))
         else [join_path pre (fd_name field)]
     | _ \<Rightarrow> [join_path pre (fd_name field)]) (sd_fields desc))"
  by pat_completeness auto
termination
  by (relation "measure (\<lambda>(d, _). size d)") (auto dest: size_field_nested)

declare collect_pv_request_paths.simps [simp del]

text \<open>The first field of the given name that is a structure.\<close>

primrec find_structure :: "string \<Rightarrow> field_desc list \<Rightarrow> structure_desc option" where
  "find_structure name [] = None"
| "find_structure name (f # fs) =
     (case (fd_name f = name, fd_type f) of
        (True, FT_Structure inner) \<Rightarrow> Some inner | _ \<Rightarrow> find_structure name fs)"

definition decode_pv_request_fields :: "bytes \<Rightarrow> bool \<Rightarrow> string list option" where
  "decode_pv_request_fields body be =
     (if body = [] then None
      else case fst (parse_introspection body (pvd_new be)) of
          Inl _ \<Rightarrow> None
        | Inr desc \<Rightarrow>
            (case find_structure ''field'' (sd_fields desc) of
               None \<Rightarrow> None
             | Some inner \<Rightarrow>
                 if sd_fields inner = [] then None
                 else let paths = collect_pv_request_paths inner [] in
                   if paths = [] then None else Some paths))"

text \<open>\<^verbatim>\<open>find_map\<close> over the fields named \<open>record\<close>, then over those named \<open>_options\<close>.\<close>

primrec find_options :: "field_desc list \<Rightarrow> structure_desc option" where
  "find_options [] = None"
| "find_options (f # fs) =
     (case (if fd_name f \<noteq> ''record'' then None
            else case fd_type f of
                FT_Structure inner \<Rightarrow> find_structure ''_options'' (sd_fields inner)
              | _ \<Rightarrow> None) of
        Some opts \<Rightarrow> Some opts
      | None \<Rightarrow> find_options fs)"

primrec decode_options :: "field_desc list \<Rightarrow> bytes \<Rightarrow> bool \<Rightarrow> (string \<times> string) list option" where
  "decode_options [] cursor be = Some []"
| "decode_options (f # fs) cursor be =
     (if fd_type f \<noteq> FT_String then None
      else case decode_string_prefixed cursor be Lossy of
          Inl _ \<Rightarrow> None
        | Inr (s, consumed) \<Rightarrow>
            map_option (\<lambda>out. (fd_name f, s) # out) (decode_options fs (drop consumed cursor) be))"

definition decode_pv_request_options :: "bytes \<Rightarrow> bool \<Rightarrow> (string \<times> string) list option" where
  "decode_pv_request_options body be =
     (if body = [] then None
      else case fst (parse_introspection body (pvd_new be)) of
          Inl _ \<Rightarrow> None
        | Inr desc \<Rightarrow>
            (case find_options (sd_fields desc) of
               None \<Rightarrow> None
             | Some options_desc \<Rightarrow>
                 let values_start = 1 + length (encode_structure_desc desc be) in
                 if values_start > length body then None
                 else decode_options (sd_fields options_desc) (drop values_start body) be))"

section \<open>The paths a tree stands for\<close>

primrec path_selected :: "string list \<Rightarrow> path_node \<Rightarrow> bool" where
  "path_selected [] t = select_all t"
| "path_selected (q # qs) t =
     (select_all t \<or> (case child t q of None \<Rightarrow> False | Some c \<Rightarrow> path_selected qs c))"

lemma path_selected_all: "select_all t \<Longrightarrow> path_selected q t"
  by (cases q) simp_all

lemma path_selected_default [simp]: "\<not> path_selected q path_node_default"
  by (cases q) (simp_all add: path_node_default_def child_def)

lemma child_child_mut:
  "child (PathNode a (child_mut p upd cs)) q =
     (if q = p then Some (upd (case child (PathNode a cs) p of None \<Rightarrow> path_node_default | Some c \<Rightarrow> c))
      else child (PathNode a cs) q)"
  by (induction cs) (auto simp: child_def)

lemma insert_path_selected:
  "parts \<noteq> [] \<Longrightarrow> path_selected q (insert_path parts t) \<longleftrightarrow> path_selected q t \<or> prefix parts q"
proof (induction parts arbitrary: q t)
  case (Cons p ps)
  obtain a cs where t: "t = PathNode a cs" by (cases t)
  show ?case
  proof (cases q)
    case (Cons x xs)
    show ?thesis
    proof (cases "ps = []")
      case True
      then show ?thesis by (auto simp: t Cons child_child_mut path_selected_all)
    next
      case False
      with Cons.IH [OF False, of xs] show ?thesis
        by (auto simp: t Cons child_child_mut split: option.splits)
    qed
  qed (simp add: t)
qed simp

lemma build_path_tree_selected:
  "path_selected q (build_path_tree paths) \<longleftrightarrow>
     (\<exists>p \<in> set paths. path_parts p \<noteq> [] \<and> prefix (path_parts p) q)"
proof -
  have "path_selected q (fold (\<lambda>p root. insert_path (path_parts p) root) paths t) \<longleftrightarrow>
      path_selected q t \<or> (\<exists>p \<in> set paths. path_parts p \<noteq> [] \<and> prefix (path_parts p) q)" for t
  proof (induction paths arbitrary: t)
    case (Cons p ps)
    then show ?case by (cases "path_parts p = []") (auto simp: insert_path_selected)
  qed simp
  from this [of path_node_default] show ?thesis by (simp add: build_path_tree_def)
qed

section \<open>The leaves a narrowed descriptor keeps\<close>

text \<open>The leaves of a descriptor, with their paths and types, in order.\<close>

function leaf_paths :: "structure_desc \<Rightarrow> (string list \<times> field_type) list" where
  "leaf_paths d = concat (map (\<lambda>f.
     case fd_type f of
       FT_Structure inner \<Rightarrow>
         if sd_fields inner = [] then [([fd_name f], fd_type f)]
         else map (apfst ((#) (fd_name f))) (leaf_paths inner)
     | FT_StructureArray inner \<Rightarrow>
         if sd_fields inner = [] then [([fd_name f], fd_type f)]
         else map (apfst ((#) (fd_name f))) (leaf_paths inner)
     | ft \<Rightarrow> [([fd_name f], ft)]) (sd_fields d))"
  by pat_completeness auto
termination
  by (relation "measure size") (auto dest: size_field_nested)

declare leaf_paths.simps [simp del]

definition field_leaves :: "field_desc \<Rightarrow> (string list \<times> field_type) list" where
  "field_leaves f = (case fd_type f of
       FT_Structure inner \<Rightarrow>
         if sd_fields inner = [] then [([fd_name f], fd_type f)]
         else map (apfst ((#) (fd_name f))) (leaf_paths inner)
     | FT_StructureArray inner \<Rightarrow>
         if sd_fields inner = [] then [([fd_name f], fd_type f)]
         else map (apfst ((#) (fd_name f))) (leaf_paths inner)
     | ft \<Rightarrow> [([fd_name f], ft)])"

lemma leaf_paths_eq: "leaf_paths d = concat (map field_leaves (sd_fields d))"
  by (simp add: leaf_paths.simps [of d] field_leaves_def [abs_def])

lemma leaf_paths_Nil [simp]: "leaf_paths d = [] \<longleftrightarrow> sd_fields d = []"
proof (induction d rule: measure_induct_rule [of size])
  case (less d)
  have "field_leaves f \<noteq> []" if "f \<in> set (sd_fields d)" for f
    using less size_field_nested [OF that] by (auto simp: field_leaves_def split: field_type.split)
  then show ?case by (cases "sd_fields d") (auto simp: leaf_paths_eq)
qed

definition prune_field :: "path_node \<Rightarrow> field_desc \<Rightarrow> field_desc list" where
  "prune_field node field = (case child node (fd_name field) of
          None \<Rightarrow> []
        | Some c \<Rightarrow>
            if select_all c then [field]
            else case fd_type field of
                FT_Structure inner \<Rightarrow>
                  let pruned = prune_structure inner c in
                  if sd_fields pruned \<noteq> [] then [FieldDesc (fd_name field) (FT_Structure pruned)] else []
              | FT_StructureArray inner \<Rightarrow>
                  let pruned = prune_structure inner c in
                  if sd_fields pruned \<noteq> [] then [FieldDesc (fd_name field) (FT_StructureArray pruned)] else []
              | _ \<Rightarrow> [])"

lemma prune_structure_eq:
  "prune_structure d t = (if select_all t then d
     else StructureDesc (struct_id d) (concat (map (prune_field t) (sd_fields d))))"
  by (subst prune_structure.simps) (simp add: prune_field_def cong: map_cong)

lemma filter_concat_map: "filter P (concat (map f xs)) = concat (map (\<lambda>x. filter P (f x)) xs)"
  by (induction xs) simp_all

lemma concat_concat_map: "concat (map g (concat (map f xs))) = concat (map (\<lambda>x. concat (map g (f x))) xs)"
  by (induction xs) simp_all

lemma filter_paths_Cons:
  "\<not> select_all t \<Longrightarrow> child t n = Some c \<Longrightarrow>
   filter (\<lambda>(q, _). path_selected q t) (map (apfst ((#) n)) ls) =
     map (apfst ((#) n)) (filter (\<lambda>(q, _). path_selected q c) ls)"
  by (induction ls) auto

lemma filter_all_False: "(\<And>x. x \<in> set xs \<Longrightarrow> \<not> P x) \<Longrightarrow> filter P xs = []"
  by (simp add: filter_empty_conv)

lemma prune_leaves:
  "leaf_paths (prune_structure d t) = filter (\<lambda>(q, _). path_selected q t) (leaf_paths d)"
proof (induction d arbitrary: t rule: measure_induct_rule [of size])
  case (less d)
  show ?case
  proof (cases "select_all t")
    case True
    then show ?thesis by (simp add: prune_structure_eq path_selected_all)
  next
    case False
    have "concat (map field_leaves (prune_field t f)) =
        filter (\<lambda>(q, _). path_selected q t) (field_leaves f)" if f: "f \<in> set (sd_fields d)" for f
    proof (cases "child t (fd_name f)")
      case None
      then have "\<not> path_selected (fst x) t" if "x \<in> set (field_leaves f)" for x
        using that False by (auto simp: field_leaves_def split: field_type.splits if_splits)
      then have "filter (\<lambda>(q, _). path_selected q t) (field_leaves f) = []"
        by (intro filter_all_False) (auto simp: case_prod_beta)
      with None show ?thesis by (simp add: prune_field_def)
    next
      case (Some c)
      have IH: "leaf_paths (prune_structure y c) = filter (\<lambda>(q, _). path_selected q c) (leaf_paths y)"
        if "fd_type f = FT_Structure y \<or> fd_type f = FT_StructureArray y" for y
        by (rule less.IH [OF size_field_nested [OF f that]])
      have "sd_fields (prune_structure y c) = [] \<longleftrightarrow> filter (\<lambda>(q, _). path_selected q c) (leaf_paths y) = []"
        "sd_fields y = [] \<longleftrightarrow> leaf_paths y = []"
        if "fd_type f = FT_Structure y \<or> fd_type f = FT_StructureArray y" for y
        using IH [OF that] by (metis leaf_paths_Nil) simp
      with False Some IH show ?thesis
        by (auto simp: prune_field_def field_leaves_def path_selected_all filter_paths_Cons Let_def
            simp del: leaf_paths_Nil split: field_type.splits)
    qed
    then show ?thesis
      using False by (simp add: prune_structure_eq leaf_paths_eq filter_concat_map concat_concat_map
          cong: map_cong)
  qed
qed


definition sample_desc2 :: structure_desc where
  "sample_desc2 = StructureDesc None
     [FieldDesc ''value'' (FT_Scalar TC_Int32),
      FieldDesc ''alarm'' (FT_Structure (StructureDesc None
        [FieldDesc ''severity'' (FT_Scalar TC_Int32), FieldDesc ''message'' FT_String]))]"


text \<open>Narrowing depends only on the paths the tree stands for.\<close>

lemma prune_nothing:
  assumes "\<And>q. \<not> path_selected q t"
  shows "sd_fields (prune_structure d t) = []"
proof -
  have "leaf_paths (prune_structure d t) = []" using assms by (simp add: prune_leaves)
  then show ?thesis by simp
qed

lemma prune_cong:
  "(\<And>q. path_selected q t1 = path_selected q t2) \<Longrightarrow> prune_structure d t1 = prune_structure d t2"
proof (induction d arbitrary: t1 t2 rule: measure_induct_rule [of size])
  case (less d)
  have all: "select_all t1 = select_all t2" using less.prems [of "[]"] by simp
  show ?case
  proof (cases "select_all t1")
    case True
    with all show ?thesis by (simp add: prune_structure_eq)
  next
    case False
    have "prune_field t1 f = prune_field t2 f" if f: "f \<in> set (sd_fields d)" for f
    proof -
      let ?c = "\<lambda>t. case child t (fd_name f) of None \<Rightarrow> path_node_default | Some c \<Rightarrow> c"
      have sel: "path_selected q (?c t1) = path_selected q (?c t2)" for q
        using less.prems [of "fd_name f # q"] False all by (auto split: option.splits)
      have part: "prune_field t f = (if select_all (?c t) then [f]
          else case fd_type f of
              FT_Structure inner \<Rightarrow>
                let pruned = prune_structure inner (?c t) in
                if sd_fields pruned \<noteq> [] then [FieldDesc (fd_name f) (FT_Structure pruned)] else []
            | FT_StructureArray inner \<Rightarrow>
                let pruned = prune_structure inner (?c t) in
                if sd_fields pruned \<noteq> [] then [FieldDesc (fd_name f) (FT_StructureArray pruned)] else []
            | _ \<Rightarrow> [])" for t
        by (auto simp: prune_field_def prune_nothing Let_def path_node_default_def [THEN arg_cong, of select_all, simplified]
            split: option.split field_type.split)
      have "prune_structure inner (?c t1) = prune_structure inner (?c t2)"
        if "fd_type f = FT_Structure inner \<or> fd_type f = FT_StructureArray inner" for inner
        by (rule less.IH [OF size_field_nested [OF f that] sel])
      then show ?thesis
        unfolding part using sel [of "[]"] by (auto split: field_type.split)
    qed
    then show ?thesis using False all by (simp add: prune_structure_eq cong: map_cong)
  qed
qed

section \<open>Trees that requests build\<close>

definition plain_name :: "string \<Rightarrow> bool" where
  "plain_name n \<longleftrightarrow> n \<noteq> [] \<and> CHR ''.'' \<notin> set n"

inductive tree_ok :: "path_node \<Rightarrow> bool" where
  tree_okI: "distinct (map fst cs) \<Longrightarrow> (\<And>n c. (n, c) \<in> set cs \<Longrightarrow> plain_name n) \<Longrightarrow>
    (\<And>n c. (n, c) \<in> set cs \<Longrightarrow> \<not> select_all c \<Longrightarrow> children c \<noteq> []) \<Longrightarrow>
    (\<And>n c. (n, c) \<in> set cs \<Longrightarrow> tree_ok c) \<Longrightarrow> tree_ok (PathNode a cs)"

inductive_cases tree_okE: "tree_ok (PathNode a cs)"

lemma split_dots_plain: "p \<in> set (split_dots s) \<Longrightarrow> CHR ''.'' \<notin> set p"
  by (induction s arbitrary: p rule: split_dots.induct) (auto split: list.splits if_splits)

lemma path_parts_plain: "list_all plain_name (path_parts p)"
  by (auto simp: path_parts_def list_all_iff plain_name_def dest: split_dots_plain)

lemma fst_child_mut: "set (map fst (child_mut p upd cs)) = insert p (set (map fst cs))"
proof (induction cs)
  case (Cons c cs)
  then show ?case by (cases c) (auto simp del: set_map)
qed simp

lemma distinct_child_mut: "distinct (map fst cs) \<Longrightarrow> distinct (map fst (child_mut p upd cs))"
proof (induction cs)
  case (Cons c cs)
  then show ?case by (cases c) (auto simp: fst_child_mut simp del: set_map)
qed simp

lemma in_child_mut:
  "(n, c) \<in> set (child_mut p upd cs) \<Longrightarrow>
   (n, c) \<in> set cs \<or> (n = p \<and> (\<exists>c0. c = upd c0 \<and> (c0 = path_node_default \<or> (p, c0) \<in> set cs)))"
  by (induction cs) (auto split: if_splits)

lemma tree_ok_leaf: "tree_ok (PathNode a [])"
  by (intro tree_okI) simp_all

lemma children_insert: "parts \<noteq> [] \<Longrightarrow> children (insert_path parts t) \<noteq> []"
proof (cases parts)
  case (Cons p ps)
  have "child_mut p upd cs \<noteq> []" for upd cs by (cases cs) (auto split: if_splits)
  then show ?thesis by (simp add: Cons)
qed simp

lemma insert_path_ok:
  "list_all plain_name parts \<Longrightarrow> tree_ok t \<Longrightarrow> tree_ok (insert_path parts t)"
proof (induction parts arbitrary: t)
  case (Cons p ps)
  obtain a cs where t: "t = PathNode a cs" by (cases t)
  let ?upd = "\<lambda>c. insert_path ps (if ps = [] then PathNode True [] else c)"
  from Cons.prems(2) have cs: "distinct (map fst cs)" "\<And>n c. (n, c) \<in> set cs \<Longrightarrow> plain_name n"
      "\<And>n c. (n, c) \<in> set cs \<Longrightarrow> \<not> select_all c \<Longrightarrow> children c \<noteq> []"
      "\<And>n c. (n, c) \<in> set cs \<Longrightarrow> tree_ok c"
    unfolding t by (auto elim: tree_okE)
  have upd: "tree_ok (?upd c)" if "c = path_node_default \<or> (p, c) \<in> set cs" for c
    using that cs(4) Cons.prems(1) by (intro Cons.IH) (auto simp: tree_ok_leaf path_node_default_def)
  have grown: "\<not> select_all (?upd c) \<Longrightarrow> children (?upd c) \<noteq> []" for c
    using children_insert [of ps] by auto
  show ?case
    unfolding t insert_path.simps path_node.sel
    using cs upd grown Cons.prems(1)
    by (intro tree_okI) (auto dest!: in_child_mut intro: distinct_child_mut)
qed simp

lemma build_path_tree_ok: "tree_ok (build_path_tree paths)" "\<not> select_all (build_path_tree paths)"
proof -
  have "tree_ok (fold (\<lambda>p root. insert_path (path_parts p) root) paths t) \<and>
      \<not> select_all (fold (\<lambda>p root. insert_path (path_parts p) root) paths t)"
    if "tree_ok t" "\<not> select_all t" for t
    using that
  proof (induction paths arbitrary: t)
    case (Cons p ps)
    have "select_all (insert_path parts t) = select_all t" for parts by (cases parts) simp_all
    with Cons show ?case using insert_path_ok [OF path_parts_plain, of t p] by simp
  qed simp
  from this [of path_node_default]
  show "tree_ok (build_path_tree paths)" "\<not> select_all (build_path_tree paths)"
    by (simp_all add: build_path_tree_def path_node_default_def tree_ok_leaf)
qed

section \<open>Reading a request back\<close>

text \<open>The maximal paths of a tree, and their dotted form.\<close>

function tree_paths :: "path_node \<Rightarrow> string list list" where
  "tree_paths t = concat (map (\<lambda>(n, c). if select_all c then [[n]] else map ((#) n) (tree_paths c))
     (children t))"
  by pat_completeness auto
termination
  by (relation "measure size") (auto dest: size_child)

declare tree_paths.simps [simp del]

fun dotted :: "string list \<Rightarrow> string" where
  "dotted [] = []"
| "dotted [p] = p"
| "dotted (p # q # ps) = p @ ''.'' @ dotted (q # ps)"

lemma split_dots_plain_append:
  "CHR ''.'' \<notin> set p \<Longrightarrow> split_dots (p @ CHR ''.'' # s) = p # split_dots s"
  by (induction p) auto

lemma split_dots_no_dot: "CHR ''.'' \<notin> set p \<Longrightarrow> split_dots p = [p]"
  by (induction p) auto

lemma path_parts_dotted: "list_all plain_name ps \<Longrightarrow> ps \<noteq> [] \<Longrightarrow> path_parts (dotted ps) = ps"
proof (induction ps rule: dotted.induct)
  case (2 p)
  then show ?case by (simp add: path_parts_def plain_name_def split_dots_no_dot)
next
  case (3 p q ps)
  then show ?case by (simp add: path_parts_def plain_name_def split_dots_plain_append)
qed simp

lemma child_iff: "distinct (map fst (children t)) \<Longrightarrow> child t n = Some c \<longleftrightarrow> (n, c) \<in> set (children t)"
proof -
  have "map_option snd (find (\<lambda>(m, _). m = n) cs) = Some c \<longleftrightarrow> (n, c) \<in> set cs"
    if "distinct (map fst cs)" for cs
    using that by (induction cs) (auto split: if_splits simp: rev_image_eqI)
  then show "distinct (map fst (children t)) \<Longrightarrow> child t n = Some c \<longleftrightarrow> (n, c) \<in> set (children t)"
    by (simp add: child_def)
qed

lemma in_tree_paths:
  "p \<in> set (tree_paths t) \<longleftrightarrow>
     (\<exists>n c. (n, c) \<in> set (children t) \<and>
        (if select_all c then p = [n] else \<exists>r \<in> set (tree_paths c). p = n # r))"
  by (subst tree_paths.simps) (fastforce split: if_splits)

lemma tree_okD:
  assumes "tree_ok t"
  shows "distinct (map fst (children t))"
    and "(n, c) \<in> set (children t) \<Longrightarrow> plain_name n"
    and "(n, c) \<in> set (children t) \<Longrightarrow> \<not> select_all c \<Longrightarrow> children c \<noteq> []"
    and "(n, c) \<in> set (children t) \<Longrightarrow> tree_ok c"
  using assms by (cases t; auto elim!: tree_okE)+

lemma tree_paths_selected:
  "tree_ok t \<Longrightarrow> \<not> select_all t \<Longrightarrow> (\<exists>p \<in> set (tree_paths t). prefix p q) \<longleftrightarrow> path_selected q t"
proof (induction t arbitrary: q rule: measure_induct_rule [of size])
  case (less t)
  note ok = tree_okD [OF less.prems(1)]
  have below: "(\<exists>p \<in> set (tree_paths c). prefix p r) \<longleftrightarrow> path_selected r c"
    if "(n, c) \<in> set (children t)" "\<not> select_all c" for n c r
    using that ok(4) size_child by (intro less.IH)
  show ?case
  proof (cases q)
    case Nil
    then show ?thesis using less.prems(2) by (auto simp: in_tree_paths split: if_splits)
  next
    case (Cons x xs)
    have "(\<exists>p \<in> set (tree_paths t). prefix p q) \<longleftrightarrow>
        (\<exists>c. (x, c) \<in> set (children t) \<and> (select_all c \<or> (\<exists>p \<in> set (tree_paths c). prefix p xs)))"
    proof
      assume "\<exists>p \<in> set (tree_paths t). prefix p q"
      then obtain p n c where "prefix p q" and c: "(n, c) \<in> set (children t)"
          "if select_all c then p = [n] else \<exists>r \<in> set (tree_paths c). p = n # r"
        unfolding in_tree_paths [of _ t] Bex_def by blast
      then show "\<exists>c. (x, c) \<in> set (children t) \<and> (select_all c \<or> (\<exists>p \<in> set (tree_paths c). prefix p xs))"
        by (auto simp: Cons split: if_splits)
    next
      assume "\<exists>c. (x, c) \<in> set (children t) \<and> (select_all c \<or> (\<exists>p \<in> set (tree_paths c). prefix p xs))"
      then obtain c where c: "(x, c) \<in> set (children t)"
          "select_all c \<or> (\<exists>p \<in> set (tree_paths c). prefix p xs)" by blast
      show "\<exists>p \<in> set (tree_paths t). prefix p q"
      proof (cases "select_all c")
        case True
        with c(1) have "[x] \<in> set (tree_paths t)" unfolding in_tree_paths [of _ t] by auto
        then show ?thesis by (rule bexI [rotated]) (simp add: Cons)
      next
        case False
        with c obtain p where p: "p \<in> set (tree_paths c)" "prefix p xs" by blast
        with c(1) False have "x # p \<in> set (tree_paths t)" unfolding in_tree_paths [of _ t] by auto
        then show ?thesis by (rule bexI [rotated]) (simp add: Cons p)
      qed
    qed
    also have "\<dots> \<longleftrightarrow> (\<exists>c. (x, c) \<in> set (children t) \<and> path_selected xs c)"
      using below path_selected_all by blast
    also have "\<dots> \<longleftrightarrow> path_selected q t"
      using less.prems(2) by (simp add: Cons child_iff [OF ok(1), symmetric] split: option.split)
    finally show ?thesis .
  qed
qed

lemma tree_paths_plain: "tree_ok t \<Longrightarrow> p \<in> set (tree_paths t) \<Longrightarrow> list_all plain_name p \<and> p \<noteq> []"
proof (induction t arbitrary: p rule: measure_induct_rule [of size])
  case (less t)
  from less.prems(2) obtain n c where c: "(n, c) \<in> set (children t)"
      "p = [n] \<or> (\<exists>r \<in> set (tree_paths c). p = n # r)"
    unfolding in_tree_paths [of p t] by (auto split: if_splits)
  with tree_okD(2,4) [OF less.prems(1) c(1)] less.IH [OF size_child [OF c(1)]]
  show ?case by auto
qed

lemma tree_paths_Nil: "tree_ok t \<Longrightarrow> tree_paths t = [] \<longleftrightarrow> children t = []"
proof (induction t rule: measure_induct_rule [of size])
  case (less t)
  have "(if select_all c then [[n]] else map ((#) n) (tree_paths c)) \<noteq> []"
    if "(n, c) \<in> set (children t)" for n c
    using less.IH [OF size_child [OF that]] tree_okD(3,4) [OF less.prems that] by simp
  then show ?case
    by (cases "children t") (auto simp: tree_paths.simps [of t] split: prod.splits if_splits)
qed

lemma tree_descs_Nil: "path_tree_to_field_descs t = [] \<longleftrightarrow> children t = []"
  by (simp add: path_tree_to_field_descs.simps [of t])

definition dotted_under :: "string \<Rightarrow> string list \<Rightarrow> string" where
  "dotted_under pre ps = (if pre = [] then dotted ps else pre @ ''.'' @ dotted ps)"

lemma collect_tree_paths:
  "tree_ok t \<Longrightarrow> collect_pv_request_paths (StructureDesc i (path_tree_to_field_descs t)) pre =
     map (dotted_under pre) (tree_paths t)"
proof (induction t arbitrary: i pre rule: measure_induct_rule [of size])
  case (less t)
  have field: "(case fd_type f of
       FT_Structure nested \<Rightarrow>
         if sd_fields nested \<noteq> [] then collect_pv_request_paths nested (join_path pre (fd_name f))
         else [join_path pre (fd_name f)]
     | _ \<Rightarrow> [join_path pre (fd_name f)]) =
     map (dotted_under pre) (if select_all c then [[n]] else map ((#) n) (tree_paths c))"
    if c: "(n, c) \<in> set (children t)"
      and f: "f = FieldDesc n (FT_Structure (StructureDesc None
        (if select_all c then [] else path_tree_to_field_descs c)))" for n c f
  proof (cases "select_all c")
    case True
    then show ?thesis by (simp add: f dotted_under_def join_path_def)
  next
    case False
    have n: "plain_name n" "tree_ok c" "children c \<noteq> []"
      using tree_okD [OF less.prems] c False by auto
    have "dotted_under (join_path pre n) p = dotted_under pre (n # p)" if "p \<in> set (tree_paths c)" for p
      using tree_paths_plain [OF n(2) that] n(1)
      by (cases p) (auto simp: dotted_under_def join_path_def plain_name_def)
    with less.IH [OF size_child [OF c] n(2)] False n(3) show ?thesis
      by (simp add: f tree_descs_Nil)
  qed
  show ?case
    unfolding collect_pv_request_paths.simps [of "StructureDesc i _"] tree_paths.simps [of t]
      path_tree_to_field_descs.simps [of t] structure_desc.sel map_map map_concat
  proof (intro arg_cong [of _ _ concat] map_cong refl)
    fix x assume x: "x \<in> set (children t)"
    obtain n c where "x = (n, c)" by (cases x)
    with field [OF _ refl, of n c] x show "((\<lambda>field. case fd_type field of
        FT_Structure nested \<Rightarrow>
          if sd_fields nested \<noteq> [] then collect_pv_request_paths nested (join_path pre (fd_name field))
          else [join_path pre (fd_name field)]
      | _ \<Rightarrow> [join_path pre (fd_name field)]) \<circ> (\<lambda>(name, c). FieldDesc name (FT_Structure
          (StructureDesc None (if select_all c then [] else path_tree_to_field_descs c))))) x =
        (map (dotted_under pre) \<circ> (\<lambda>(n, c). if select_all c then [[n]] else map ((#) n) (tree_paths c))) x"
      by (simp only: comp_apply prod.case)
  qed
qed

lemma parse_request:
  assumes "wf_structure_desc 65536 (pv_request_desc fs options)"
    and "type_height (FT_Structure (pv_request_desc fs options)) \<le> 32"
    and "type_nodes (FT_Structure (pv_request_desc fs options)) \<le> MAX_DECODE_NODES"
  shows "fst (parse_introspection (encode_pv_request_with_options fs options be) (pvd_new be)) =
    Inr (pv_request_desc fs options)"
proof -
  have new: "d_is_be (pvd_new be) = be" "max_struct_fields (d_limits (pvd_new be)) = 65536"
    "max_depth (d_limits (pvd_new be)) = 32"
    by (simp_all add: pvd_new_def pvd_with_limits_def default_limits_def)
  show ?thesis
    using introspection_encode [OF idle_pvd_new new(1) _ _ _ refl,
        of "pv_request_desc fs options" "concat (map (\<lambda>(_, v). encode_string v be) options)"] assms
    by (simp add: new parse_introspection_def bind_dec_def ret_def encode_pv_request_with_options_def
        del: type_height_node type_nodes_node)
qed

definition request_ok :: "string list \<Rightarrow> (string \<times> string) list \<Rightarrow> bool" where
  "request_ok fs options \<longleftrightarrow> wf_structure_desc 65536 (pv_request_desc fs options) \<and>
     type_height (FT_Structure (pv_request_desc fs options)) \<le> 32 \<and>
     type_nodes (FT_Structure (pv_request_desc fs options)) \<le> MAX_DECODE_NODES"

lemma encode_request_not_Nil [simp]: "encode_pv_request_with_options fs options be \<noteq> []"
  by (simp add: encode_pv_request_with_options_def)

lemma decode_request_fields:
  assumes "request_ok fs options"
  shows "decode_pv_request_fields (encode_pv_request_with_options fs options be) be =
    (if children (build_path_tree fs) = [] then None
     else Some (map dotted (tree_paths (build_path_tree fs))))"
proof -
  have "map (dotted_under []) ps = map dotted ps" for ps by (simp add: dotted_under_def)
  then show ?thesis
    using parse_request [of fs options be] assms collect_tree_paths [OF build_path_tree_ok(1), of None fs "[]"]
      tree_paths_Nil [OF build_path_tree_ok(1), of fs]
    by (simp add: decode_pv_request_fields_def request_ok_def pv_request_desc_def tree_descs_Nil Let_def
        del: type_height_node type_nodes_node)
qed

lemma tree_of_decoded:
  "path_selected q (build_path_tree (map dotted (tree_paths (build_path_tree fs)))) =
     path_selected q (build_path_tree fs)"
proof -
  let ?t = "build_path_tree fs"
  have "path_selected q (build_path_tree (map dotted (tree_paths ?t))) \<longleftrightarrow>
      (\<exists>p \<in> set (tree_paths ?t). prefix p q)"
    using tree_paths_plain [OF build_path_tree_ok(1)]
    by (auto simp: build_path_tree_selected path_parts_dotted)
  then show ?thesis using tree_paths_selected [OF build_path_tree_ok] by simp
qed

lemma children_build: "children (build_path_tree fs) = [] \<longleftrightarrow> (\<forall>p \<in> set fs. path_parts p = [])"
proof -
  have "children (fold (\<lambda>p root. insert_path (path_parts p) root) fs t) = [] \<longleftrightarrow>
      children t = [] \<and> (\<forall>p \<in> set fs. path_parts p = [])" for t
  proof (induction fs arbitrary: t)
    case (Cons p ps)
    then show ?case by (cases "path_parts p = []") (simp_all add: children_insert)
  qed simp
  then show ?thesis by (simp add: build_path_tree_def path_node_default_def)
qed

text \<open>C25: client and server agree on a request. The paths the server reads from an encoded
  pvRequest narrow every descriptor to what the paths the client asked for narrow it to, although
  the request carries them merged into a tree; options in the request make no difference. The
  hypotheses are that some path names a field and that the request's own descriptor is within the
  decoder's limits.\<close>

theorem request_agrees:
  assumes "request_ok fs options" "\<exists>p \<in> set fs. path_parts p \<noteq> []"
  shows "\<exists>paths. decode_pv_request_fields (encode_pv_request_with_options fs options be) be = Some paths \<and>
    (\<forall>d. filter_structure_desc d paths = filter_structure_desc d fs)"
proof -
  let ?t = "build_path_tree fs"
  have "children ?t \<noteq> []" using assms(2) by (auto simp: children_build)
  moreover from this have "map dotted (tree_paths ?t) \<noteq> []"
    by (simp add: tree_paths_Nil build_path_tree_ok)
  moreover have "fs \<noteq> []" using assms(2) by auto
  ultimately show ?thesis
    using decode_request_fields [OF assms(1), of be] prune_cong [OF tree_of_decoded]
    by (auto simp: filter_structure_desc_def)
qed

lemma find_options_request:
  "find_options (sd_fields (pv_request_desc fs options)) =
     (if options = [] then None
      else Some (StructureDesc None (map (\<lambda>(k, _). FieldDesc k FT_String) options)))"
  by (simp add: pv_request_desc_def)

text \<open>C26: options survive the request. The options of an encoded pvRequest are read back in order,
  with their values; a request without options has none.\<close>

theorem options_round_trip:
  assumes "request_ok fs options" "list_all (\<lambda>(_, v). wf_string v) options"
  shows "decode_pv_request_options (encode_pv_request_with_options fs options be) be =
    (if options = [] then None else Some options)"
proof -
  have "decode_options (map (\<lambda>(k, _). FieldDesc k FT_String) os)
      (concat (map (\<lambda>(_, v). encode_string v be) os)) be = Some os" if "list_all (\<lambda>(_, v). wf_string v) os" for os
    using that by (induction os) (auto simp: decode_encode_string_any_policy)
  then show ?thesis
    using parse_request [of fs options be] assms
    by (simp add: decode_pv_request_options_def request_ok_def encode_pv_request_with_options_def Let_def
        find_options_request del: type_height_node type_nodes_node)
qed

lemma plain_request_ok: "request_ok [''alarm.severity'', ''value''] [(''queueSize'', ''4'')]"
  by (simp add: request_ok_def pv_request_desc_def build_path_tree_def path_parts_def path_node_default_def
      path_tree_to_field_descs.simps wf_string_def as_bytes_def MAX_DECODE_NODES_def)

theorem request_agrees_witness:
  "\<exists>paths. decode_pv_request_fields
      (encode_pv_request_with_options [''alarm.severity'', ''value''] [(''queueSize'', ''4'')] True) True = Some paths \<and>
    (\<forall>d. filter_structure_desc d paths = filter_structure_desc d [''alarm.severity'', ''value''])"
  by (rule request_agrees [OF plain_request_ok]) (simp add: path_parts_def)

theorem options_round_trip_witness:
  "decode_pv_request_options
      (encode_pv_request_with_options [''alarm.severity'', ''value''] [(''queueSize'', ''4'')] True) True =
    Some [(''queueSize'', ''4'')]"
  using options_round_trip [OF plain_request_ok, of True] by (simp add: wf_string_def as_bytes_def)

definition tagged_request :: bytes where
  "tagged_request = [0xFD, 1, 0] @ encode_pv_request_with_options [''value''] [(''a'', ''b'')] False"

text \<open>C27: options of a request sent with a type ID are misread. The parser accepts a request
  whose descriptor carries the full-ID tag, but the options are looked for where they would start
  without the ID, three bytes early: here the value of option \<open>a\<close> is read from the bytes of its
  own name.\<close>

theorem tagged_request_options:
  "decode_pv_request_fields tagged_request False = Some [''value''] \<and>
   decode_pv_request_options tagged_request False = Some [(''a'', ''a'')]"
proof -
  let ?d = "pv_request_desc [''value''] [(''a'', ''b'')]"
  have d: "?d = StructureDesc None
      [FieldDesc ''field'' (FT_Structure (StructureDesc None
         [FieldDesc ''value'' (FT_Structure (StructureDesc None []))])),
       FieldDesc ''record'' (FT_Structure (StructureDesc None
         [FieldDesc ''_options'' (FT_Structure (StructureDesc None [FieldDesc ''a'' FT_String]))]))]"
    by (simp add: pv_request_desc_def build_path_tree_def path_parts_def path_node_default_def
        path_tree_to_field_descs.simps)
  have "\<exists>pre. encode_structure_desc ?d False = pre @ [1, 97, 0x60]"
    unfolding d by (simp add: encode_string_eq as_bytes_def encode_size_def push_size_def)
  then obtain pre where enc: "encode_structure_desc ?d False = pre @ [1, 97, 0x60]" by blast
  have new: "d_is_be (pvd_new False) = False" "max_struct_fields (d_limits (pvd_new False)) = 65536"
    "max_depth (d_limits (pvd_new False)) = 32"
    by (simp_all add: pvd_new_def pvd_with_limits_def default_limits_def)
  have "wf_structure_desc 65536 ?d" "type_height (FT_Structure ?d) \<le> 31"
    "type_nodes (FT_Structure ?d) \<le> MAX_DECODE_NODES"
    unfolding d by (simp_all add: wf_string_def as_bytes_def MAX_DECODE_NODES_def)
  then have "fst (parse_introspection_with_len
      (0xFD # 1 # 0 # encode_type_desc (FT_Structure ?d) False @ encode_string ''b'' False) (pvd_new False)) =
      Inr (?d, 3 + length (encode_type_desc (FT_Structure ?d) False))"
    by (intro introspection_encode_full_id) (simp_all add: new del: type_height_node type_nodes_node)
  then have parse: "fst (parse_introspection tagged_request (pvd_new False)) = Inr ?d"
    by (auto simp: parse_introspection_def tagged_request_def encode_pv_request_with_options_def
        bind_dec_def ret_def split: prod.splits sum.splits)
  have cursor: "drop (1 + length (encode_structure_desc ?d False)) tagged_request =
      [1, 97, 0x60] @ encode_string ''b'' False"
    by (simp add: tagged_request_def encode_pv_request_with_options_def enc)
  have read: "decode_string_prefixed ([1, 97, 0x60] @ encode_string ''b'' False) False Lossy = Inr (''a'', 2)"
    using decode_encode_string_any_policy [where s = "''a''" and rest = "0x60 # encode_string ''b'' False" and be = False and policy = Lossy]
    by (simp add: encode_string_eq as_bytes_def encode_size_def push_size_def wf_string_def)
  have "decode_pv_request_fields tagged_request False = Some [''value'']"
    by (simp add: decode_pv_request_fields_def parse)
      (simp add: d tagged_request_def collect_pv_request_paths.simps join_path_def)
  moreover have "decode_pv_request_options tagged_request False = Some [(''a'', ''a'')]"
    using read cursor
    by (simp add: decode_pv_request_options_def parse find_options_request Let_def)
      (simp add: tagged_request_def encode_pv_request_with_options_def)
  ultimately show ?thesis by simp
qed

end
