(* ===== verification/Monitor_Update.thy ===== *)
theory Monitor_Update
  imports Bitset_Walk Pv_Request
begin

text \<open>
  MONITOR updates (\<^verbatim>\<open>spvirit-codec/src/monitor.rs\<close>): the changed bitset, the delta, the
  overrun bitset, the table of dotted paths the bits stand for, and the lenient decoder that tries
  the three known layouts and keeps the most plausible result.
\<close>

section \<open>Updates and their paths\<close>

record monitor_update =
  mu_value :: decoded_value
  mu_changed :: bytes
  mu_overrun :: bytes
  mu_consumed :: nat
  mu_paths :: "string list"

datatype monitor_layout = SpecOrder | OverrunBeforeData | ChangedOnly

definition has_overrun :: "monitor_update \<Rightarrow> bool" where
  "has_overrun u \<longleftrightarrow> (\<exists>b \<in> set (mu_overrun u). b \<noteq> 0)"

function flatten_fields :: "field_desc list \<Rightarrow> string \<Rightarrow> string list" where
  "flatten_fields [] pre = []"
| "flatten_fields (f # fs) pre =
     (let path = join_path pre (fd_name f) in
      path # (case fd_type f of FT_Structure nested \<Rightarrow> flatten_fields (sd_fields nested) path | _ \<Rightarrow> [])
        @ flatten_fields fs pre)"
  by pat_completeness auto
termination
  by (relation "measure (\<lambda>(fs, _). size_list size fs)") (auto dest: size_nested_fields)

definition flatten_field_paths :: "structure_desc \<Rightarrow> string \<Rightarrow> string list" where
  "flatten_field_paths desc pre = flatten_fields (sd_fields desc) pre"

definition bit_paths :: "structure_desc \<Rightarrow> string list" where
  "bit_paths desc = ''<whole structure>'' # flatten_field_paths desc []"

text \<open>Bit \<open>i\<close> of a bitset; \<^verbatim>\<open>select_paths\<close> tests it inline.\<close>

definition bit_is_set :: "bytes \<Rightarrow> nat \<Rightarrow> bool" where
  "bit_is_set changed i = (let byte = i div 8 in
     byte < length changed \<and> (changed ! byte) AND push_bit (i mod 8) 1 \<noteq> 0)"

definition select_paths :: "string list \<Rightarrow> bytes \<Rightarrow> string list" where
  "select_paths paths bits = map snd (filter (\<lambda>(i, _). bit_is_set bits i) (enumerate 0 paths))"

definition overrun_fields :: "monitor_update \<Rightarrow> structure_desc \<Rightarrow> string list" where
  "overrun_fields u desc = select_paths (bit_paths desc) (mu_overrun u)"

definition changed_paths :: "monitor_update \<Rightarrow> string list" where
  "changed_paths u = select_paths (mu_paths u) (mu_changed u)"

definition overrun_paths :: "monitor_update \<Rightarrow> string list" where
  "overrun_paths u = select_paths (mu_paths u) (mu_overrun u)"

section \<open>Decoding in specification order\<close>

definition read_bitset :: "bytes \<Rightarrow> nat \<Rightarrow> (bytes \<times> nat) dec" where
  "read_bitset data offset =
     (if offset > length data then fail (Truncated offset (length data))
      else bind_dec (decode_size (drop offset data)) (\<lambda>(size, consumed).
        let start = offset + consumed; ending = start + size in
        if ending > length data then fail (Truncated ending (length data))
        else ret (take (ending - start) (drop start data), ending)))"

definition decode_monitor_update_with_paths :: "bytes \<Rightarrow> structure_desc \<Rightarrow> string list \<Rightarrow> monitor_update dec" where
  "decode_monitor_update_with_paths data desc paths =
     bind_dec (read_bitset data 0) (\<lambda>(changed, offset).
     bind_dec (decode_structure_with_bitset_body (drop offset data) desc changed) (\<lambda>(value, consumed).
     bind_dec (read_bitset data (offset + consumed)) (\<lambda>(overrun, ending).
       ret \<lparr>mu_value = value, mu_changed = changed, mu_overrun = overrun, mu_consumed = ending,
         mu_paths = paths\<rparr>)))"

definition decode_monitor_update :: "bytes \<Rightarrow> structure_desc \<Rightarrow> monitor_update dec" where
  "decode_monitor_update data desc = decode_monitor_update_with_paths data desc (bit_paths desc)"

section \<open>Lenient decoding\<close>

definition decode_overrun_before_data :: "bytes \<Rightarrow> structure_desc \<Rightarrow> string list \<Rightarrow> monitor_update dec" where
  "decode_overrun_before_data data desc paths =
     bind_dec (read_bitset data 0) (\<lambda>(changed, offset).
     bind_dec (read_bitset data offset) (\<lambda>(overrun, offset).
     bind_dec (decode_structure_with_bitset_body (drop offset data) desc changed) (\<lambda>(value, consumed).
       ret \<lparr>mu_value = value, mu_changed = changed, mu_overrun = overrun,
         mu_consumed = offset + consumed, mu_paths = paths\<rparr>)))"

definition decode_changed_only :: "bytes \<Rightarrow> structure_desc \<Rightarrow> string list \<Rightarrow> monitor_update dec" where
  "decode_changed_only data desc paths =
     bind_dec (read_bitset data 0) (\<lambda>(changed, offset).
     bind_dec (decode_structure_with_bitset_body (drop offset data) desc changed) (\<lambda>(value, consumed).
       ret \<lparr>mu_value = value, mu_changed = changed, mu_overrun = [],
         mu_consumed = offset + consumed, mu_paths = paths\<rparr>))"

text \<open>The scores are small: the sums of the source, over at most \<^verbatim>\<open>max_struct_fields\<close> fields, do
  not leave the range of \<^verbatim>\<open>i32\<close>. The conversion of the field count is written out.\<close>

definition len_as_i32 :: "nat \<Rightarrow> int" where
  "len_as_i32 n = sint (of_nat n :: 32 word)"

definition value_score :: "decoded_value \<Rightarrow> int" where
  "value_score v = (case v of
     DV_Array items \<Rightarrow> if items = [] then - 2 else 6 + int (min (length items) 8)
   | DV_Structure _ \<Rightarrow> 1
   | _ \<Rightarrow> 2)"

text \<open>The first field of the given name that holds an \<^verbatim>\<open>Int64\<close>.\<close>

primrec find_int64 :: "string \<Rightarrow> (string \<times> decoded_value) list \<Rightarrow> i64 option" where
  "find_int64 name [] = None"
| "find_int64 name (f # fs) =
     (case (fst f = name, snd f) of (True, DV_Int64 s) \<Rightarrow> Some s | _ \<Rightarrow> find_int64 name fs)"

text \<open>\<^verbatim>\<open>i64::abs\<close> leaves the smallest value as it is.\<close>

definition abs_i64 :: "int \<Rightarrow> int" where
  "abs_i64 s = (if s = - (2 ^ 63) then s else \<bar>s\<bar>)"

definition time_score :: "decoded_value \<Rightarrow> int" where
  "time_score v = (case v of
     DV_Structure ts_fields \<Rightarrow>
       (case find_int64 ''secondsPastEpoch'' ts_fields of
          None \<Rightarrow> 0
        | Some w \<Rightarrow> (let secs = sint w in
            if 0 \<le> secs \<and> secs \<le> 4000000000 then 2
            else if abs_i64 secs > 10000000000 then - 2 else 0))
   | _ \<Rightarrow> 0)"

definition field_score :: "string \<times> decoded_value \<Rightarrow> int" where
  "field_score f =
     (if fst f = ''value'' then 4 + value_score (snd f)
      else if fst f = ''alarm'' then 2
      else if fst f = ''timeStamp'' then 2 + time_score (snd f)
      else if fst f = ''display'' \<or> fst f = ''control'' then 1
      else 0)"

definition score_decoded :: "decoded_value \<Rightarrow> int" where
  "score_decoded value = (case value of
     DV_Structure fs \<Rightarrow>
       fold (\<lambda>f score. score + field_score f) fs (len_as_i32 (length fs))
       - (if ''value'' \<in> fst ` set fs then 0 else 2)
       - (if ''alarm'' \<in> fst ` set fs then 0 else 1)
       - (if ''timeStamp'' \<in> fst ` set fs then 0 else 1)
   | _ \<Rightarrow> - 1)"

definition better :: "monitor_update \<Rightarrow> int \<Rightarrow> (monitor_update \<times> monitor_layout \<times> int) option \<Rightarrow> bool" where
  "better update score best = (case best of
     None \<Rightarrow> True
   | Some (prev, _, prev_score) \<Rightarrow>
       score > prev_score \<or> score = prev_score \<and> mu_consumed update > mu_consumed prev)"

fun pick_best :: "(monitor_layout \<times> monitor_update decode_result) list
    \<Rightarrow> (monitor_update \<times> monitor_layout \<times> int) option \<Rightarrow> decode_error
    \<Rightarrow> (monitor_update \<times> monitor_layout) decode_result" where
  "pick_best [] best last_err = (case best of Some (u, l, _) \<Rightarrow> Inr (u, l) | None \<Rightarrow> Inl last_err)"
| "pick_best ((layout, Inr update) # candidates) best last_err =
     (let score = score_decoded (mu_value update) in
      pick_best candidates (if better update score best then Some (update, layout, score) else best) last_err)"
| "pick_best ((layout, Inl e) # candidates) best last_err = pick_best candidates best e"

text \<open>A candidate that fails leaves its error as a value.\<close>

definition attempt :: "'a dec \<Rightarrow> 'a decode_result dec" where
  "attempt m st = (case m st of (r, st') \<Rightarrow> (Inr r, st'))"

definition decode_monitor_update_lenient :: "bytes \<Rightarrow> structure_desc \<Rightarrow> (monitor_update \<times> monitor_layout) dec" where
  "decode_monitor_update_lenient data desc =
     (let paths = bit_paths desc in
      bind_dec (attempt (decode_monitor_update_with_paths data desc paths)) (\<lambda>spec.
      bind_dec (attempt (decode_overrun_before_data data desc paths)) (\<lambda>early.
      bind_dec (attempt (decode_changed_only data desc paths)) (\<lambda>only.
        lift_result (pick_best [(SpecOrder, spec), (OverrunBeforeData, early), (ChangedOnly, only)]
          None (Malformed ''no monitor layout matched''))))))"

section \<open>Paths and bits\<close>

text \<open>The fields below a field: none for a leaf.\<close>

definition inner_fields :: "field_desc \<Rightarrow> field_desc list" where
  "inner_fields f = (case fd_type f of FT_Structure d \<Rightarrow> sd_fields d | _ \<Rightarrow> [])"

lemma inner_induct [case_names Nil Cons]:
  assumes "P []" "\<And>f fs. P fs \<Longrightarrow> P (inner_fields f) \<Longrightarrow> P (f # fs)"
  shows "P fs"
proof (induction fs rule: fields_induct)
  case (Cons f fs)
  have "P (inner_fields f)"
    using Cons.IH(2) assms(1) by (cases "fd_type f") (simp_all add: inner_fields_def)
  with Cons.IH(1) show ?case by (rule assms(2))
qed (rule assms(1))

lemma bits_of_inner: "length (bits_of (f # fs)) = Suc (length (bits_of (inner_fields f)) + length (bits_of fs))"
  by (cases "fd_type f") (simp_all add: inner_fields_def)

lemma flatten_fields_inner:
  "flatten_fields (f # fs) pre =
     join_path pre (fd_name f) # flatten_fields (inner_fields f) (join_path pre (fd_name f))
       @ flatten_fields fs pre"
  by (cases "fd_type f") (simp_all add: inner_fields_def Let_def)

lemma length_flatten: "length (flatten_fields fs pre) = length (bits_of fs)"
  by (induction fs arbitrary: pre rule: inner_induct)
    (simp_all add: flatten_fields_inner bits_of_inner del: flatten_fields.simps(2) bits_of_simps(2))

lemma length_bit_paths: "length (bit_paths d) = 1 + count_structure_fields d"
  by (simp add: bit_paths_def flatten_field_paths_def length_flatten length_bits_of_nested)

end
