(* ===== verification/Gateway_Bridge.thy ===== *)
theory Gateway_Bridge
  imports Monitor_Update Nt_Types
begin

text \<open>
  The gateway's read path (\<^verbatim>\<open>spvirit-gateway/src/bridge.rs\<close>): conversion of decoded values to
  payloads, dotted paths into decoded values, the merge of a monitor delta into the last full value
  (borrowing the update or consuming it), and the in-place patch of an already converted payload.
\<close>

section \<open>Decoded values as payload values\<close>

text \<open>\<^verbatim>\<open>std::mem::discriminant\<close>\<close>

fun discriminant :: "decoded_value \<Rightarrow> nat" where
  "discriminant DV_Null = 0"
| "discriminant (DV_Boolean _) = 1"
| "discriminant (DV_Int8 _) = 2"
| "discriminant (DV_Int16 _) = 3"
| "discriminant (DV_Int32 _) = 4"
| "discriminant (DV_Int64 _) = 5"
| "discriminant (DV_UInt8 _) = 6"
| "discriminant (DV_UInt16 _) = 7"
| "discriminant (DV_UInt32 _) = 8"
| "discriminant (DV_UInt64 _) = 9"
| "discriminant (DV_Float32 _) = 10"
| "discriminant (DV_Float64 _) = 11"
| "discriminant (DV_String _) = 12"
| "discriminant (DV_Array _) = 13"
| "discriminant (DV_Structure _) = 14"
| "discriminant (DV_Raw _) = 15"

definition is_scalar :: "decoded_value \<Rightarrow> bool" where
  "is_scalar v = (case v of DV_Array _ \<Rightarrow> False | DV_Structure _ \<Rightarrow> False | DV_Raw _ \<Rightarrow> False | _ \<Rightarrow> True)"

text \<open>The arms of the conversion of a homogeneous array, by its first element.\<close>

definition scalar_array :: "decoded_value \<Rightarrow> decoded_value list \<Rightarrow> scalar_array_value" where
  "scalar_array x items = (case x of
     DV_Boolean _ \<Rightarrow> SA_Bool (map (\<lambda>it. case it of DV_Boolean b \<Rightarrow> b | _ \<Rightarrow> False) items)
   | DV_Int8 _ \<Rightarrow> SA_I8 (map (\<lambda>it. case it of DV_Int8 v \<Rightarrow> v | _ \<Rightarrow> 0) items)
   | DV_Int16 _ \<Rightarrow> SA_I16 (map (\<lambda>it. case it of DV_Int16 v \<Rightarrow> v | _ \<Rightarrow> 0) items)
   | DV_Int32 _ \<Rightarrow> SA_I32 (map (\<lambda>it. case it of DV_Int32 v \<Rightarrow> v | _ \<Rightarrow> 0) items)
   | DV_Int64 _ \<Rightarrow> SA_I64 (map (\<lambda>it. case it of DV_Int64 v \<Rightarrow> v | _ \<Rightarrow> 0) items)
   | DV_UInt8 _ \<Rightarrow> SA_U8 (map (\<lambda>it. case it of DV_UInt8 v \<Rightarrow> v | _ \<Rightarrow> 0) items)
   | DV_UInt16 _ \<Rightarrow> SA_U16 (map (\<lambda>it. case it of DV_UInt16 v \<Rightarrow> v | _ \<Rightarrow> 0) items)
   | DV_UInt32 _ \<Rightarrow> SA_U32 (map (\<lambda>it. case it of DV_UInt32 v \<Rightarrow> v | _ \<Rightarrow> 0) items)
   | DV_UInt64 _ \<Rightarrow> SA_U64 (map (\<lambda>it. case it of DV_UInt64 v \<Rightarrow> v | _ \<Rightarrow> 0) items)
   | DV_Float32 _ \<Rightarrow> SA_F32 (map (\<lambda>it. case it of DV_Float32 v \<Rightarrow> v | _ \<Rightarrow> 0) items)
   | DV_Float64 _ \<Rightarrow> SA_F64 (map (\<lambda>it. case it of DV_Float64 v \<Rightarrow> v | _ \<Rightarrow> 0) items)
   | DV_String _ \<Rightarrow> SA_Str (map (\<lambda>it. case it of DV_String s \<Rightarrow> s | _ \<Rightarrow> []) items)
   | _ \<Rightarrow> SA_I32 (map (\<lambda>_. 0) items))"

lemma size_enumerate: "(i, e) \<in> set (enumerate k items) \<Longrightarrow> size e < Suc (size_list size items)"
  by (auto simp: enumerate_eq_zip less_Suc_eq_le dest!: set_zip_rightD intro: size_list_estimation')

lemma size_named: "(n :: string, v) \<in> set fs \<Longrightarrow> size v < Suc (size_list (size_prod (\<lambda>_. 0) size) fs)"
  by (induction fs) auto

function decoded_to_pv_value :: "decoded_value \<Rightarrow> pv_value"
  and decoded_array_to_pv_value :: "decoded_value list \<Rightarrow> pv_value" where
  "decoded_to_pv_value v = (case v of
     DV_Null \<Rightarrow> PV_Scalar (SV_I32 0)
   | DV_Boolean b \<Rightarrow> PV_Scalar (SV_Bool b)
   | DV_Int8 x \<Rightarrow> PV_Scalar (SV_I8 x)
   | DV_Int16 x \<Rightarrow> PV_Scalar (SV_I16 x)
   | DV_Int32 x \<Rightarrow> PV_Scalar (SV_I32 x)
   | DV_Int64 x \<Rightarrow> PV_Scalar (SV_I64 x)
   | DV_UInt8 x \<Rightarrow> PV_Scalar (SV_U8 x)
   | DV_UInt16 x \<Rightarrow> PV_Scalar (SV_U16 x)
   | DV_UInt32 x \<Rightarrow> PV_Scalar (SV_U32 x)
   | DV_UInt64 x \<Rightarrow> PV_Scalar (SV_U64 x)
   | DV_Float32 x \<Rightarrow> PV_Scalar (SV_F32 x)
   | DV_Float64 x \<Rightarrow> PV_Scalar (SV_F64 x)
   | DV_String s \<Rightarrow> PV_Scalar (SV_Str s)
   | DV_Structure fs \<Rightarrow> PV_Structure [] (map (\<lambda>(n, x). (n, decoded_to_pv_value x)) fs)
   | DV_Raw bs \<Rightarrow> PV_ScalarArray (SA_U8 bs)
   | DV_Array items \<Rightarrow> decoded_array_to_pv_value items)"
| "decoded_array_to_pv_value items = (case items of
     [] \<Rightarrow> PV_ScalarArray (SA_F64 [])
   | x # _ \<Rightarrow>
       if is_scalar x \<and> list_all (\<lambda>it. discriminant it = discriminant x) items
       then PV_ScalarArray (scalar_array x items)
       else PV_Structure [] (map (\<lambda>(i, e). (show_nat i, decoded_to_pv_value e)) (enumerate 0 items)))"
  by pat_completeness auto
termination
  by (relation "measure (\<lambda>x. case x of Inl v \<Rightarrow> 2 * size v | Inr vs \<Rightarrow> 2 * size_list size vs + 1)")
    (auto dest!: size_enumerate size_named)

declare decoded_to_pv_value.simps [simp del] decoded_array_to_pv_value.simps [simp del]

definition nt_payload_from_decoded :: "decoded_value \<Rightarrow> string \<Rightarrow> nt_payload" where
  "nt_payload_from_decoded value sid = (case decoded_to_pv_value value of
     PV_Structure _ fs \<Rightarrow> NT_Generic sid fs
   | other \<Rightarrow> NT_Generic sid [(''value'', other)])"

definition nt_payload_from_get :: "structure_desc \<Rightarrow> decoded_value \<Rightarrow> nt_payload" where
  "nt_payload_from_get introspection value =
     nt_payload_from_decoded value (case struct_id introspection of None \<Rightarrow> [] | Some sid \<Rightarrow> sid)"

section \<open>Dotted paths\<close>

primrec get_segments :: "string list \<Rightarrow> decoded_value \<Rightarrow> decoded_value option" where
  "get_segments [] v = Some v"
| "get_segments (s # ss) v = (case v of
     DV_Structure fs \<Rightarrow>
       (case find (\<lambda>(n, _). n = s) fs of None \<Rightarrow> None | Some (_, x) \<Rightarrow> get_segments ss x)
   | _ \<Rightarrow> None)"

definition get_at_path :: "decoded_value \<Rightarrow> string \<Rightarrow> decoded_value option" where
  "get_at_path v path =
     (if path = [] \<or> path = ''<whole structure>'' then Some v else get_segments (split_dots path) v)"

text \<open>The first entry of the name is updated; without one, a fresh entry is pushed.\<close>

primrec put_field :: "string \<Rightarrow> (decoded_value \<Rightarrow> decoded_value) \<Rightarrow> decoded_value
    \<Rightarrow> (string \<times> decoded_value) list \<Rightarrow> (string \<times> decoded_value) list" where
  "put_field name upd fresh [] = [(name, fresh)]"
| "put_field name upd fresh (f # fs) =
     (if fst f = name then (fst f, upd (snd f)) # fs else f # put_field name upd fresh fs)"

primrec set_at_path_segments :: "string list \<Rightarrow> decoded_value \<Rightarrow> decoded_value \<Rightarrow> decoded_value" where
  "set_at_path_segments [] val target = target"
| "set_at_path_segments (head # rest) val target = (case target of
     DV_Structure fs \<Rightarrow> DV_Structure
       (if rest = [] then put_field head (\<lambda>_. val) val fs
        else put_field head (set_at_path_segments rest val)
          (set_at_path_segments rest val (DV_Structure [])) fs)
   | _ \<Rightarrow> target)"

definition set_at_path :: "decoded_value \<Rightarrow> string \<Rightarrow> decoded_value \<Rightarrow> decoded_value" where
  "set_at_path target path val = set_at_path_segments (split_dots path) val target"

section \<open>Merging a delta\<close>

definition merge_step :: "monitor_update \<Rightarrow> nat \<times> string \<Rightarrow> decoded_value \<Rightarrow> decoded_value" where
  "merge_step update = (\<lambda>(i, path) last_full.
     if \<not> bit_is_set (mu_changed update) i then last_full
     else case get_at_path (mu_value update) path of
         None \<Rightarrow> last_full
       | Some new_val \<Rightarrow> set_at_path last_full path new_val)"

definition merge_monitor_delta :: "decoded_value \<Rightarrow> monitor_update \<Rightarrow> decoded_value" where
  "merge_monitor_delta last_full update =
     (if last_full = DV_Null \<or> bit_is_set (mu_changed update) 0 then mu_value update
      else fold (merge_step update) (drop 1 (enumerate 0 (mu_paths update))) last_full)"

text \<open>\<^verbatim>\<open>get_at_path_mut\<close> followed by \<^verbatim>\<open>mem::replace\<close> of the slot by \<^verbatim>\<open>Null\<close>.\<close>

primrec null_segments :: "string list \<Rightarrow> decoded_value \<Rightarrow> decoded_value" where
  "null_segments [] v = DV_Null"
| "null_segments (s # ss) v = (case v of
     DV_Structure fs \<Rightarrow>
       (case find (\<lambda>(n, _). n = s) fs of
          None \<Rightarrow> v
        | Some _ \<Rightarrow> DV_Structure (put_field s (null_segments ss) DV_Null fs))
   | _ \<Rightarrow> v)"

definition get_at_path_mut :: "decoded_value \<Rightarrow> string \<Rightarrow> (decoded_value \<times> decoded_value) option" where
  "get_at_path_mut v path = (case get_at_path v path of
     None \<Rightarrow> None
   | Some x \<Rightarrow> Some (x, if path = [] \<or> path = ''<whole structure>'' then DV_Null
       else null_segments (split_dots path) v))"

definition under :: "string \<Rightarrow> string \<Rightarrow> bool" where
  "under parent path \<longleftrightarrow> length path > length parent \<and> take (length parent) path = parent \<and>
     path ! length parent = CHR ''.''"

text \<open>The state of the consuming merge: what is left of the update's value, the last path moved
  and the merged value.\<close>

definition owned_step :: "bytes \<Rightarrow> nat \<times> string \<Rightarrow> decoded_value \<times> string option \<times> decoded_value
    \<Rightarrow> decoded_value \<times> string option \<times> decoded_value" where
  "owned_step changed = (\<lambda>(i, path) (value, moved, last_full).
     if \<not> bit_is_set changed i then (value, moved, last_full)
     else if (case moved of Some parent \<Rightarrow> under parent path | None \<Rightarrow> False) then (value, moved, last_full)
     else case get_at_path_mut value path of
         None \<Rightarrow> (value, moved, last_full)
       | Some (new_val, value) \<Rightarrow> (value, Some path, set_at_path last_full path new_val))"

definition merge_monitor_delta_owned :: "decoded_value \<Rightarrow> monitor_update \<Rightarrow> decoded_value \<times> monitor_update" where
  "merge_monitor_delta_owned last_full update =
     (if last_full = DV_Null \<or> bit_is_set (mu_changed update) 0
      then (mu_value update, update\<lparr>mu_value := DV_Null\<rparr>)
      else case fold (owned_step (mu_changed update)) (drop 1 (enumerate 0 (mu_paths update)))
          (mu_value update, None, last_full) of
        (value, _, last_full) \<Rightarrow> (last_full, update\<lparr>mu_value := value\<rparr>))"

section \<open>Patching a payload\<close>

text \<open>\<^verbatim>\<open>str::split_once('.')\<close>\<close>

fun split_once :: "string \<Rightarrow> (string \<times> string) option" where
  "split_once [] = None"
| "split_once (c # cs) =
     (if c = CHR ''.'' then Some ([], cs) else map_option (apfst ((#) c)) (split_once cs))"

lemma split_once_length: "split_once path = Some (h, r) \<Longrightarrow> length r < length path"
  by (induction path arbitrary: h) (auto split: if_splits)

primrec position :: "string \<Rightarrow> (string \<times> pv_value) list \<Rightarrow> nat option" where
  "position name [] = None"
| "position name (f # fs) = (if fst f = name then Some 0 else map_option Suc (position name fs))"

function patch_fields :: "(string \<times> pv_value) list \<Rightarrow> string \<Rightarrow> pv_value
    \<Rightarrow> bool \<times> (string \<times> pv_value) list" where
  "patch_fields fs path value =
     (case split_once path of
        None \<Rightarrow>
          (case position path fs of
             None \<Rightarrow> (False, fs)
           | Some idx \<Rightarrow> (True, fs[idx := (fst (fs ! idx), value)]))
      | Some (head, rest) \<Rightarrow>
          (case position head fs of
             None \<Rightarrow> (False, fs)
           | Some idx \<Rightarrow>
               (case snd (fs ! idx) of
                  PV_Structure sid inner \<Rightarrow>
                    (case patch_fields inner rest value of
                       (ok, inner) \<Rightarrow> (ok, fs[idx := (fst (fs ! idx), PV_Structure sid inner)]))
                | _ \<Rightarrow> (False, fs))))"
  by pat_completeness auto
termination
  by (relation "measure (\<lambda>(_, path, _). length path)") (auto dest: split_once_length)

declare patch_fields.simps [simp del]

text \<open>The loop returns early, with the fields as they are then; otherwise it tells whether any bit
  was set.\<close>

primrec patch_loop :: "(nat \<times> string) list \<Rightarrow> bytes \<Rightarrow> decoded_value \<Rightarrow> bool \<Rightarrow> (string \<times> pv_value) list
    \<Rightarrow> bool \<times> (string \<times> pv_value) list" where
  "patch_loop [] changed last_full patched_any fs = (patched_any, fs)"
| "patch_loop (ip # ips) changed last_full patched_any fs =
     (if \<not> bit_is_set changed (fst ip) then patch_loop ips changed last_full patched_any fs
      else case get_at_path last_full (snd ip) of
          None \<Rightarrow> (False, fs)
        | Some merged \<Rightarrow>
            (case patch_fields fs (snd ip) (decoded_to_pv_value merged) of
               (ok, fs) \<Rightarrow> if ok then patch_loop ips changed last_full True fs else (False, fs)))"

definition patch_nt_payload :: "nt_payload \<Rightarrow> decoded_value \<Rightarrow> monitor_update \<Rightarrow> bool \<times> nt_payload" where
  "patch_nt_payload cached last_full update = (case cached of
     NT_Generic sid fs \<Rightarrow>
       if bit_is_set (mu_changed update) 0 then (False, cached)
       else (case patch_loop (drop 1 (enumerate 0 (mu_paths update))) (mu_changed update) last_full False fs of
               (ok, fs) \<Rightarrow> (ok, NT_Generic sid fs))
   | _ \<Rightarrow> (False, cached))"

end
