(* ===== verification/Bridge_Merge.thy ===== *)
theory Bridge_Merge
  imports Gateway_Bridge
begin

text \<open>
  Laws of the gateway's merges. A store of values at paths (\<open>path_store\<close>) is what the two merges
  rely on: writing below a path just written, with what was written there, changes nothing, and
  clearing a path does not disturb paths apart from it. The merge that consumes its update is then
  the merge that copies from it, for every table of paths a descriptor gives.
\<close>

section \<open>Stores of values at paths\<close>

definition apart :: "'n list \<Rightarrow> 'n list \<Rightarrow> bool" where
  "apart p q \<longleftrightarrow> \<not> prefix p q \<and> \<not> prefix q p"

definition borrow_step :: "('n list \<Rightarrow> 'v \<Rightarrow> 'v option) \<Rightarrow> ('n list \<Rightarrow> 'v \<Rightarrow> 'v \<Rightarrow> 'v) \<Rightarrow> 'v
    \<Rightarrow> bool \<times> 'n list \<Rightarrow> 'v \<Rightarrow> 'v" where
  "borrow_step get put V = (\<lambda>(on, q) t.
     if \<not> on then t else case get q V of None \<Rightarrow> t | Some x \<Rightarrow> put q x t)"

definition own_step :: "('n list \<Rightarrow> 'v \<Rightarrow> 'v option) \<Rightarrow> ('n list \<Rightarrow> 'v \<Rightarrow> 'v \<Rightarrow> 'v) \<Rightarrow> ('n list \<Rightarrow> 'v \<Rightarrow> 'v)
    \<Rightarrow> bool \<times> 'n list \<Rightarrow> 'v \<times> 'n list option \<times> 'v \<Rightarrow> 'v \<times> 'n list option \<times> 'v" where
  "own_step get put clear = (\<lambda>(on, q) (V, moved, t).
     if \<not> on then (V, moved, t)
     else if (case moved of Some p \<Rightarrow> strict_prefix p q | None \<Rightarrow> False) then (V, moved, t)
     else case get q V of None \<Rightarrow> (V, moved, t) | Some x \<Rightarrow> (clear q V, Some q, put q x t))"

text \<open>The paths of a descriptor's fields, as lists of names, in the order of the bits; and the
  names that make them unambiguous.\<close>

function seg_fields :: "field_desc list \<Rightarrow> string list \<Rightarrow> string list list" where
  "seg_fields [] pre = []"
| "seg_fields (f # fs) pre =
     (pre @ [fd_name f]) # seg_fields (inner_fields f) (pre @ [fd_name f]) @ seg_fields fs pre"
  by pat_completeness auto
termination
  by (relation "measure (\<lambda>(fs, _). size_list size fs)")
    (auto dest: size_nested_fields simp: inner_fields_def split: field_type.split)

function names_ok :: "field_desc list \<Rightarrow> bool" where
  "names_ok [] = True"
| "names_ok (f # fs) \<longleftrightarrow>
     plain_name (fd_name f) \<and> fd_name f \<noteq> ''<whole structure>'' \<and> fd_name f \<notin> fd_name ` set fs \<and>
     names_ok (inner_fields f) \<and> names_ok fs"
  by pat_completeness auto
termination
  by (relation "measure (size_list size)")
    (auto dest: size_nested_fields simp: inner_fields_def split: field_type.split)

lemma seg_fields_below:
  "q \<in> set (seg_fields fs pre) \<Longrightarrow> \<exists>n \<in> fd_name ` set fs. prefix (pre @ [n]) q"
  by (induction fs arbitrary: pre rule: inner_induct) (fastforce dest: append_prefixD)+

lemma prefix_shorten: "prefix (pre @ n # ns) q \<Longrightarrow> prefix (pre @ [n]) q"
  by (auto simp: prefix_def)

lemma apart_below: "apart p q \<Longrightarrow> apart (p @ r) q"
  by (metis apart_def append_prefixD prefixI prefix_same_cases)

lemma length_seg_fields [simp]: "length (seg_fields fs pre) = length (bits_of fs)"
  by (induction fs arbitrary: pre rule: inner_induct) (simp_all add: bits_of_inner del: bits_of_simps(2))

lemma siblings_apart:
  "prefix (pre @ [n]) p \<Longrightarrow> prefix (pre @ [m]) q \<Longrightarrow> n \<noteq> m \<Longrightarrow> apart p q"
  by (auto simp: apart_def prefix_def append_eq_append_conv2)

definition flagged :: "(nat \<Rightarrow> bool) \<Rightarrow> nat \<Rightarrow> 'q list \<Rightarrow> (bool \<times> 'q) list" where
  "flagged on k qs = map (\<lambda>(i, q). (on i, q)) (enumerate k qs)"

lemma flagged_simps [simp]:
  "flagged on k [] = []"
  "flagged on k (q # qs) = (on k, q) # flagged on (Suc k) qs"
  "flagged on k (ps @ qs) = flagged on k ps @ flagged on (k + length ps) qs"
  by (simp_all add: flagged_def enumerate_append_eq)

lemma snd_flagged: "b \<in> set (flagged on k qs) \<Longrightarrow> snd b \<in> set qs"
  by (induction qs arbitrary: k) auto

locale path_store =
  fixes get :: "string list \<Rightarrow> 'v \<Rightarrow> 'v option"
    and put :: "string list \<Rightarrow> 'v \<Rightarrow> 'v \<Rightarrow> 'v"
    and clear :: "string list \<Rightarrow> 'v \<Rightarrow> 'v"
  assumes put_below: "p \<noteq> [] \<Longrightarrow> r \<noteq> [] \<Longrightarrow> get p v = Some x \<Longrightarrow> get (p @ r) v = Some y \<Longrightarrow>
      put (p @ r) y (put p x t) = put p x t"
    and get_clear: "apart p q \<Longrightarrow> get q (clear p v) = get q v"
begin

abbreviation "borrow \<equiv> borrow_step get put"
abbreviation "own \<equiv> own_step get put clear"

lemma borrow_below:
  assumes "p \<noteq> []" "get p V = Some x"
    and "\<And>b. b \<in> set bs \<Longrightarrow> strict_prefix p (snd b)"
  shows "fold (borrow V) bs (put p x t) = put p x t"
  using assms(3)
proof (induction bs)
  case (Cons b bs)
  obtain on q where b: "b = (on, q)" by (cases b)
  have "strict_prefix p q" using Cons.prems [of b] by (simp add: b)
  then obtain r where "q = p @ r" "r \<noteq> []" by (auto simp: strict_prefix_def prefix_def)
  then have "borrow V b (put p x t) = put p x t"
    using put_below [OF assms(1) _ assms(2)] by (auto simp: b borrow_step_def split: option.split)
  with Cons show ?case by simp
qed simp

lemma own_below:
  "(\<And>b. b \<in> set bs \<Longrightarrow> strict_prefix p (snd b)) \<Longrightarrow> fold own bs (V, Some p, t) = (V, Some p, t)"
  by (induction bs) (auto simp: own_step_def split_def)

text \<open>The two folds over the fields below a prefix. The consuming one has so far only cleared
  paths apart from these, and its last move covers none of them.\<close>

lemma own_fields:
  assumes "names_ok fs"
    and "\<And>q n. n \<in> fd_name ` set fs \<Longrightarrow> prefix (pre @ [n]) q \<Longrightarrow> get q V' = get q V"
    and "\<And>p q n. moved = Some p \<Longrightarrow> n \<in> fd_name ` set fs \<Longrightarrow> prefix (pre @ [n]) q \<Longrightarrow> \<not> strict_prefix p q"
    and "fold own (flagged on k (seg_fields fs pre)) (V', moved, t) = (V'', moved', t')"
  shows "t' = fold (borrow V) (flagged on k (seg_fields fs pre)) t \<and>
    (\<forall>q. (\<forall>n \<in> fd_name ` set fs. apart (pre @ [n]) q) \<longrightarrow> get q V'' = get q V') \<and>
    (moved' = moved \<or> (\<exists>p. moved' = Some p \<and> (\<exists>n \<in> fd_name ` set fs. prefix (pre @ [n]) p)))"
  using assms
proof (induction fs arbitrary: pre V' moved t k V'' moved' t' rule: inner_induct)
  case Nil
  then show ?case by simp
next
  case (Cons f fs)
  let ?p = "pre @ [fd_name f]" and ?in = "inner_fields f"
  let ?k = "Suc k" and ?k' = "Suc k + length (seg_fields (inner_fields f) (pre @ [fd_name f]))"
  obtain V1 m1 t1 where here: "own (on k, ?p) (V', moved, t) = (V1, m1, t1)"
    by (cases "own (on k, ?p) (V', moved, t)")
  obtain V2 m2 t2 where below: "fold own (flagged on ?k (seg_fields ?in ?p)) (V1, m1, t1) = (V2, m2, t2)"
    by (cases "fold own (flagged on ?k (seg_fields ?in ?p)) (V1, m1, t1)")
  have rest: "fold own (flagged on ?k' (seg_fields fs pre)) (V2, m2, t2) = (V'', moved', t')"
    using Cons.prems(4) here below by simp
  have not_under: "\<not> (case moved of Some p \<Rightarrow> strict_prefix p ?p | None \<Rightarrow> False)"
    using Cons.prems(3) by (auto split: option.split)
  have same: "get ?p V' = get ?p V" using Cons.prems(2) [of "fd_name f" ?p] by simp
  have step: "t2 = fold (borrow V) (flagged on ?k (seg_fields ?in ?p)) (borrow V (on k, ?p) t) \<and>
      (\<forall>q. apart ?p q \<longrightarrow> get q V2 = get q V') \<and>
      (m2 = moved \<or> (\<exists>p. m2 = Some p \<and> prefix ?p p))"
  proof (cases "on k \<and> get ?p V \<noteq> None")
    case True
    then obtain x where x: "get ?p V = Some x" by auto
    have under: "strict_prefix ?p (snd b)" if "b \<in> set (flagged on ?k (seg_fields ?in ?p))" for b
      using seg_fields_below [OF snd_flagged [OF that]]
      by (auto simp: strict_prefix_def prefix_def)
    have "(V1, m1, t1) = (clear ?p V', Some ?p, put ?p x t)"
      using here True x same not_under by (simp add: own_step_def)
    moreover from this below own_below [OF under]
    have "(V2, m2, t2) = (clear ?p V', Some ?p, put ?p x t)" by simp
    moreover have "fold (borrow V) (flagged on ?k (seg_fields ?in ?p)) (put ?p x t) = put ?p x t"
      by (rule borrow_below [OF _ x under]) simp_all
    ultimately show ?thesis using True x by (auto simp: borrow_step_def get_clear)
  next
    case False
    then have "(V1, m1, t1) = (V', moved, t)" "borrow V (on k, ?p) t = t"
      using here same not_under by (auto simp: own_step_def borrow_step_def split: option.splits if_splits)
    moreover have "t2 = fold (borrow V) (flagged on ?k (seg_fields ?in ?p)) t1 \<and>
      (\<forall>q. (\<forall>n \<in> fd_name ` set ?in. apart (?p @ [n]) q) \<longrightarrow> get q V2 = get q V1) \<and>
      (m2 = m1 \<or> (\<exists>p. m2 = Some p \<and> (\<exists>n \<in> fd_name ` set ?in. prefix (?p @ [n]) p)))"
    proof (rule Cons.IH(2) [OF _ _ _ below])
      show "names_ok ?in" using Cons.prems(1) by simp
      show "get q V1 = get q V" if "prefix (?p @ [n]) q" for q n
        using that Cons.prems(2) [of "fd_name f" q] \<open>(V1, m1, t1) = (V', moved, t)\<close>
        by (auto dest: prefix_shorten)
      show "\<not> strict_prefix p q" if "m1 = Some p" "prefix (?p @ [n]) q" for p q n
        using that Cons.prems(3) [of p "fd_name f" q] \<open>(V1, m1, t1) = (V', moved, t)\<close>
        by (auto dest: prefix_shorten)
    qed
    moreover have "apart (?p @ [n]) q" if "apart ?p q" for q n
      using that by (rule apart_below)
    ultimately show ?thesis by (auto dest: prefix_shorten)
  qed
  have fresh: "n \<noteq> fd_name f" if "n \<in> fd_name ` set fs" for n
    using that Cons.prems(1) by (simp, metis)
  have "t' = fold (borrow V) (flagged on ?k' (seg_fields fs pre)) t2 \<and>
      (\<forall>q. (\<forall>n \<in> fd_name ` set fs. apart (pre @ [n]) q) \<longrightarrow> get q V'' = get q V2) \<and>
      (moved' = m2 \<or> (\<exists>p. moved' = Some p \<and> (\<exists>n \<in> fd_name ` set fs. prefix (pre @ [n]) p)))"
  proof (rule Cons.IH(1) [OF _ _ _ rest])
    show "names_ok fs" using Cons.prems(1) by simp
    show "get q V2 = get q V" if "n \<in> fd_name ` set fs" "prefix (pre @ [n]) q" for q n
      using siblings_apart [of pre "fd_name f" ?p n q] that fresh [OF that(1)] step Cons.prems(2) [of n q] by auto
    show "\<not> strict_prefix p q" if "m2 = Some p" "n \<in> fd_name ` set fs" "prefix (pre @ [n]) q" for p q n
      using that step siblings_apart [of pre "fd_name f" p n q] fresh [OF that(2)] Cons.prems(3) [of p n q]
      by (auto simp: apart_def strict_prefix_def)
  qed
  with step show ?case by auto
qed

lemma owned_is_borrowed:
  "names_ok fs \<Longrightarrow>
   snd (snd (fold own (flagged on k (seg_fields fs [])) (V, None, t))) =
   fold (borrow V) (flagged on k (seg_fields fs [])) t"
  using own_fields [of fs "[]" V V None on k t]
  by (cases "fold own (flagged on k (seg_fields fs [])) (V, None, t)") auto

end

section \<open>Decoded values as a store\<close>

lemma find_map_of: "find (\<lambda>(n, _). n = s) fs = map_option (Pair s) (map_of fs s)"
  by (induction fs) auto

lemma get_segments_struct:
  "get_segments (s # ss) v = (case v of
     DV_Structure fs \<Rightarrow> (case map_of fs s of None \<Rightarrow> None | Some x \<Rightarrow> get_segments ss x) | _ \<Rightarrow> None)"
  by (auto simp: find_map_of split: decoded_value.split option.split)

declare get_segments.simps(2) [simp del]
declare get_segments_struct [simp]

lemma map_of_put_field:
  "map_of (put_field n upd fresh fs) m =
     (if m = n then Some (case map_of fs n of None \<Rightarrow> fresh | Some x \<Rightarrow> upd x) else map_of fs m)"
  by (induction fs) auto

lemma put_field_same: "map_of fs n = Some x \<Longrightarrow> upd x = x \<Longrightarrow> put_field n upd fresh fs = fs"
  by (induction fs) (auto split: if_splits)

lemma put_field_twice:
  "put_field n upd fresh (put_field n upd' fresh' fs) = put_field n (upd \<circ> upd') (upd fresh') fs"
  by (induction fs) auto

lemma set_get: "get_segments r x = Some y \<Longrightarrow> set_at_path_segments r y x = x"
proof (induction r arbitrary: x)
  case (Cons s r)
  then obtain fs c where x: "x = DV_Structure fs" "map_of fs s = Some c" "get_segments r c = Some y"
    by (auto split: decoded_value.splits option.splits)
  show ?case
    using put_field_same [OF x(2), of "\<lambda>_. y"] put_field_same [OF x(2), of "set_at_path_segments r y"]
      Cons.IH [OF x(3)] x by auto
qed simp

lemma set_below:
  "p \<noteq> [] \<Longrightarrow> r \<noteq> [] \<Longrightarrow> get_segments r x = Some y \<Longrightarrow>
   set_at_path_segments (p @ r) y (set_at_path_segments p x t) = set_at_path_segments p x t"
proof (induction p arbitrary: t)
  case (Cons s p)
  show ?case
  proof (cases "p = []")
    case True
    have "put_field s (set_at_path_segments r y) fresh (put_field s (\<lambda>_. x) x fs) = put_field s (\<lambda>_. x) x fs"
      for fresh fs
      using set_get [OF Cons.prems(3)] by (intro put_field_same) (auto simp: map_of_put_field split: option.split)
    with True Cons.prems(2) show ?thesis by (simp split: decoded_value.split)
  next
    case False
    have "put_field s (set_at_path_segments (p @ r) y) fresh (put_field s (set_at_path_segments p x)
        (set_at_path_segments p x (DV_Structure [])) fs) =
      put_field s (set_at_path_segments p x) (set_at_path_segments p x (DV_Structure [])) fs" for fresh fs
      using Cons.IH [OF False Cons.prems(2,3)]
      by (intro put_field_same) (auto simp: map_of_put_field split: option.split)
    with False show ?thesis by (simp split: decoded_value.split)
  qed
qed simp

lemma get_append: "get_segments (p @ r) v = (case get_segments p v of None \<Rightarrow> None | Some x \<Rightarrow> get_segments r x)"
  by (induction p arbitrary: v) (auto split: decoded_value.split option.split)

lemma get_null: "apart p q \<Longrightarrow> get_segments q (null_segments p v) = get_segments q v"
proof (induction p arbitrary: q v)
  case (Cons s p)
  then obtain t q' where q: "q = t # q'" by (cases q) (auto simp: apart_def)
  have "apart p q'" if "s = t" using Cons.prems that by (auto simp: apart_def q)
  then show ?case
    using Cons.IH [of q'] by (auto simp: q find_map_of map_of_put_field split: decoded_value.split option.split)
qed (simp add: apart_def)

interpretation tree: path_store get_segments set_at_path_segments null_segments
  by unfold_locales (auto simp: get_append set_below get_null)

abbreviation "borrow \<equiv> borrow_step get_segments set_at_path_segments"

section \<open>Dotted paths as lists of names\<close>

lemma split_dots_not_Nil [simp]: "split_dots s \<noteq> []"
  by (cases s) (auto split: list.split)

lemma dotted_split_dots: "dotted (split_dots s) = s"
proof (induction s)
  case (Cons c s)
  then show ?case by (cases "split_dots s" rule: dotted.cases) auto
qed simp

lemma split_dots_append: "split_dots (p @ CHR ''.'' # r) = split_dots p @ split_dots r"
  by (induction p) (auto split: list.split simp: append_eq_Cons_conv)

lemma dotted_append: "a \<noteq> [] \<Longrightarrow> b \<noteq> [] \<Longrightarrow> dotted (a @ b) = dotted a @ ''.'' @ dotted b"
proof (induction a rule: dotted.induct)
  case (2 p)
  then show ?case by (cases b) auto
qed auto

lemma under_iff: "under p q \<longleftrightarrow> strict_prefix (split_dots p) (split_dots q)"
proof
  assume "under p q"
  then have "q = p @ CHR ''.'' # drop (Suc (length p)) q"
    by (metis under_def append_take_drop_id id_take_nth_drop take_all_iff Cons_nth_drop_Suc)
  then obtain r where "q = p @ CHR ''.'' # r" by blast
  then show "strict_prefix (split_dots p) (split_dots q)"
    by (auto simp: split_dots_append strict_prefix_def)
next
  assume "strict_prefix (split_dots p) (split_dots q)"
  then obtain r where r: "split_dots q = split_dots p @ r" "r \<noteq> []" by (auto simp: strict_prefix_def prefix_def)
  then have "q = p @ ''.'' @ dotted r"
    using dotted_append [of "split_dots p" r] dotted_split_dots [of q] dotted_split_dots [of p] by simp
  then show "under p q" by (auto simp: under_def)
qed

definition path_ok :: "string list \<Rightarrow> bool" where
  "path_ok q \<longleftrightarrow> q \<noteq> [] \<and> list_all plain_name q \<and> q \<noteq> [''<whole structure>'']"

lemma split_dots_dotted: "list_all plain_name q \<Longrightarrow> q \<noteq> [] \<Longrightarrow> split_dots (dotted q) = q"
proof (induction q rule: dotted.induct)
  case (2 p)
  then show ?case by (simp add: plain_name_def split_dots_no_dot)
next
  case (3 p q ps)
  then show ?case using split_dots_plain_append [of p "dotted (q # ps)"] by (simp add: plain_name_def)
qed simp

lemma path_okD:
  assumes "path_ok q"
  shows "split_dots (dotted q) = q" "dotted q \<noteq> []" "dotted q \<noteq> ''<whole structure>''"
proof -
  show *: "split_dots (dotted q) = q" using assms by (simp add: path_ok_def split_dots_dotted)
  have "split_dots [] = [[]]" "split_dots ''<whole structure>'' = [''<whole structure>'']" by simp_all
  with * assms show "dotted q \<noteq> []" "dotted q \<noteq> ''<whole structure>''"
    by (auto simp: path_ok_def plain_name_def)
qed

lemma seg_fields_ok:
  "names_ok fs \<Longrightarrow> list_all plain_name pre \<Longrightarrow> q \<in> set (seg_fields fs pre) \<Longrightarrow> path_ok q"
proof (induction fs arbitrary: pre rule: inner_induct)
  case (Cons f fs)
  then show ?case using Cons.IH(2) [of "pre @ [fd_name f]"] by (auto simp: path_ok_def)
qed simp

lemma flatten_dotted:
  "names_ok fs \<Longrightarrow> list_all plain_name pre \<Longrightarrow> flatten_fields fs (dotted pre) = map dotted (seg_fields fs pre)"
proof (induction fs arbitrary: pre rule: inner_induct)
  case (Cons f fs)
  have "join_path (dotted pre) (fd_name f) = dotted (pre @ [fd_name f])"
  proof (cases "pre = []")
    case False
    then have "dotted pre \<noteq> []" using Cons.prems(2) by (cases pre rule: dotted.cases) (auto simp: plain_name_def)
    with False show ?thesis by (simp add: join_path_def dotted_append)
  qed (simp add: join_path_def)
  then show ?case
    using Cons.prems Cons.IH(1) [of pre] Cons.IH(2) [of "pre @ [fd_name f]"]
    by (simp add: flatten_fields_inner del: flatten_fields.simps(2))
qed simp

lemma bit_paths_dotted:
  "names_ok (sd_fields d) \<Longrightarrow>
   drop 1 (enumerate 0 (bit_paths d)) = enumerate 1 (map dotted (seg_fields (sd_fields d) []))"
  using flatten_dotted [of "sd_fields d" "[]"] by (simp add: bit_paths_def flatten_field_paths_def)

text \<open>The merges, as folds over lists of names.\<close>

lemma merge_borrow:
  assumes "\<And>q. q \<in> set qs \<Longrightarrow> path_ok q"
  shows "fold (merge_step u) (enumerate k (map dotted qs)) t =
    fold (borrow_step get_segments set_at_path_segments (mu_value u))
      (flagged (bit_is_set (mu_changed u)) k qs) t"
  using assms
proof (induction qs arbitrary: k t)
  case (Cons q qs)
  have "merge_step u (k, dotted q) t =
      borrow_step get_segments set_at_path_segments (mu_value u) (bit_is_set (mu_changed u) k, q) t"
    using path_okD [of q] Cons.prems
    by (auto simp: merge_step_def borrow_step_def get_at_path_def set_at_path_def split: option.split)
  with Cons show ?case by simp
qed simp

lemma merge_own:
  assumes "\<And>q. q \<in> set qs \<Longrightarrow> path_ok q" "\<And>p. moved = Some p \<Longrightarrow> path_ok p"
  shows "snd (snd (fold (owned_step changed) (enumerate k (map dotted qs)) (V, map_option dotted moved, t))) =
    snd (snd (fold (own_step get_segments set_at_path_segments null_segments)
      (flagged (bit_is_set changed) k qs) (V, moved, t)))"
  using assms
proof (induction qs arbitrary: k V moved t)
  case (Cons q qs)
  note q = path_okD [of q]
  have "under (dotted p) (dotted q) \<longleftrightarrow> strict_prefix p q" if "moved = Some p" for p
    using path_okD(1) [of p] path_okD(1) [of q] Cons.prems that by (simp add: under_iff)
  then have "owned_step changed (k, dotted q) (V, map_option dotted moved, t) =
      (case own_step get_segments set_at_path_segments null_segments (bit_is_set changed k, q) (V, moved, t) of
         (V, m, t) \<Rightarrow> (V, map_option dotted m, t))"
    using q Cons.prems(1)
    by (auto simp: owned_step_def own_step_def get_at_path_mut_def get_at_path_def set_at_path_def
        split: option.splits)
  moreover have "m = moved \<or> m = Some q"
    if "own_step get_segments set_at_path_segments null_segments (bit_is_set changed k, q) (V, moved, t) = (V', m, t')"
    for V' m t' using that by (auto simp: own_step_def split: option.splits if_splits)
  ultimately show ?case
    using Cons.prems
    by (cases "own_step get_segments set_at_path_segments null_segments (bit_is_set changed k, q) (V, moved, t)")
      (auto intro!: Cons.IH)
qed simp

text \<open>C35: the merge that consumes its update is the merge that copies from it. For every update
  decoded with the path table of a descriptor whose field names are distinct within a structure,
  not empty and without dots, both leave the same value, whatever bits are set and whatever the
  update's value is: once a structure's bit has moved a whole sub-tree, the set bits below it, which
  the consuming merge skips, would have written back what is already there.\<close>

theorem owned_merge_agrees:
  assumes "mu_paths u = bit_paths d" "names_ok (sd_fields d)"
  shows "fst (merge_monitor_delta_owned last_full u) = merge_monitor_delta last_full u"
proof -
  note ok = seg_fields_ok [OF assms(2), of "[]", simplified]
  have "snd (snd (fold (owned_step (mu_changed u)) (drop 1 (enumerate 0 (mu_paths u))) (mu_value u, None, last_full))) =
      fold (merge_step u) (drop 1 (enumerate 0 (mu_paths u))) last_full"
    using merge_own [of "seg_fields (sd_fields d) []" None "mu_changed u" 1 "mu_value u" last_full, OF ok]
      tree.owned_is_borrowed [OF assms(2)] merge_borrow [OF ok]
    by (simp only: assms(1) bit_paths_dotted [OF assms(2)]) simp
  then show ?thesis
    by (auto simp: merge_monitor_delta_owned_def merge_monitor_delta_def split: prod.splits)
qed

definition sample_update_desc :: structure_desc where
  "sample_update_desc = StructureDesc None
     [FieldDesc ''value'' (FT_Scalar TC_Int32),
      FieldDesc ''alarm'' (FT_Structure (StructureDesc None [FieldDesc ''severity'' (FT_Scalar TC_Int32)]))]"

definition sample_full :: decoded_value where
  "sample_full = DV_Structure
     [(''value'', DV_Int32 1), (''alarm'', DV_Structure [(''severity'', DV_Int32 0)])]"

text \<open>Both the bit of \<open>alarm\<close> and the bit of \<open>alarm.severity\<close> are set.\<close>

definition sample_update :: monitor_update where
  "sample_update = \<lparr>mu_value = DV_Structure [(''alarm'', DV_Structure [(''severity'', DV_Int32 2)])],
     mu_changed = [0x0C], mu_overrun = [], mu_consumed = 7, mu_paths = bit_paths sample_update_desc\<rparr>"

lemma sample_update_names: "names_ok (sd_fields sample_update_desc)"
  by (simp add: sample_update_desc_def inner_fields_def plain_name_def)

lemma sample_update_merge:
  "merge_monitor_delta sample_full sample_update =
     DV_Structure [(''value'', DV_Int32 1), (''alarm'', DV_Structure [(''severity'', DV_Int32 2)])]"
  by code_simp

theorem owned_merge_agrees_witness:
  "fst (merge_monitor_delta_owned sample_full sample_update) =
     DV_Structure [(''value'', DV_Int32 1), (''alarm'', DV_Structure [(''severity'', DV_Int32 2)])]"
  using owned_merge_agrees [OF _ sample_update_names, of sample_update sample_full]
  by (simp add: sample_update_merge) (simp add: sample_update_def)

end
