(* ===== verification/Bridge_Patch.thy ===== *)
theory Bridge_Patch
  imports Bridge_Merge
begin

text \<open>
  Patching a converted payload in place against rebuilding it. The gateway merges a delta into the
  last full value and then only rewrites the changed fields of the payload it converted before;
  when that succeeds, the payload is the conversion of the merged value.
\<close>

section \<open>Where a path is blocked\<close>

text \<open>A write to a path changes nothing when a value on the way is not a structure.\<close>

primrec blocked :: "string list \<Rightarrow> decoded_value \<Rightarrow> bool" where
  "blocked [] t = False"
| "blocked (s # ss) t = (case t of
     DV_Structure fs \<Rightarrow> (case map_of fs s of None \<Rightarrow> False | Some c \<Rightarrow> blocked ss c)
   | _ \<Rightarrow> True)"

lemma blocked_get: "blocked q t \<Longrightarrow> get_segments q t = None"
  by (induction q arbitrary: t) (auto split: decoded_value.splits option.splits)

lemma blocked_append: "blocked q t \<Longrightarrow> blocked (q @ r) t"
  by (induction q arbitrary: t) (auto split: decoded_value.splits option.splits)

lemma blocked_set: "blocked q t \<Longrightarrow> set_at_path_segments q x t = t"
proof (induction q arbitrary: t)
  case (Cons s q)
  show ?case
  proof (cases t)
    case (DV_Structure fs)
    with Cons.prems obtain c where c: "map_of fs s = Some c" "blocked q c" by (auto split: option.splits)
    then have "q \<noteq> []" by auto
    with c Cons.IH [OF c(2)] show ?thesis
      using put_field_same [OF c(1), of "set_at_path_segments q x"] by (simp add: DV_Structure)
  qed simp_all
qed simp

lemma get_set: "q \<noteq> [] \<Longrightarrow> \<not> blocked q t \<Longrightarrow> get_segments q (set_at_path_segments q x t) = Some x"
proof (induction q arbitrary: t)
  case (Cons s q)
  then obtain fs where t: "t = DV_Structure fs" by (auto split: decoded_value.splits)
  have fresh: "\<not> blocked q (DV_Structure [])" for q by (cases q) simp_all
  show ?case
  proof (cases "q = []")
    case False
    then show ?thesis
      using Cons.prems(2) Cons.IH [OF False] fresh
      by (auto simp: t map_of_put_field split: option.splits)
  qed (simp add: t map_of_put_field split: option.split)
qed simp

lemma get_set_apart: "apart p q \<Longrightarrow> get_segments q (set_at_path_segments p y t) = get_segments q t"
proof (induction p arbitrary: q t)
  case (Cons s p)
  then obtain s' q' where q: "q = s' # q'" by (cases q) (auto simp: apart_def)
  show ?case
  proof (cases "s = s'")
    case True
    then have ap: "apart p q'" using Cons.prems by (auto simp: apart_def q)
    then have "p \<noteq> []" "q' \<noteq> []" by (auto simp: apart_def)
    moreover from this have "get_segments q' (DV_Structure []) = None" by (cases q') simp_all
    ultimately show ?thesis
      using Cons.IH [OF ap] True by (auto simp: q map_of_put_field split: decoded_value.split option.split)
  next
    case False
    then show ?thesis by (auto simp: q map_of_put_field split: decoded_value.split)
  qed
qed (simp add: apart_def)

lemma blocked_kept: "blocked q t \<Longrightarrow> \<not> prefix p q \<Longrightarrow> blocked q (set_at_path_segments p y t)"
proof (induction p arbitrary: q t)
  case (Cons s p)
  then obtain s' q' where q: "q = s' # q'" by (cases q) auto
  show ?case
    using Cons by (auto simp: q map_of_put_field split: decoded_value.splits option.splits)
qed simp

section \<open>Values that later writes leave alone\<close>

lemma later_writes_keep:
  assumes "\<And>b. b \<in> set bs \<Longrightarrow> \<not> prefix (snd b) q"
    and "blocked q t \<or> get_segments q t = get_segments q V \<or> get_segments q V = None"
  shows "get_segments q (fold (borrow V) bs t) = get_segments q t"
  using assms
proof (induction bs arbitrary: t)
  case (Cons b bs)
  obtain on p where b: "b = (on, p)" by (cases b)
  let ?t = "borrow V b t"
  have np: "\<not> prefix p q" using Cons.prems(1) [of b] by (simp add: b)
  have same: "get_segments q ?t = get_segments q t \<and> (blocked q t \<longrightarrow> blocked q ?t)"
  proof (cases "on \<and> get_segments p V \<noteq> None")
    case True
    then obtain y where y: "get_segments p V = Some y" by auto
    have t: "?t = set_at_path_segments p y t" using True y by (simp add: b borrow_step_def)
    show ?thesis
    proof (cases "prefix q p")
      case True
      then obtain r where p: "p = q @ r" by (auto simp: prefix_def)
      consider "blocked q t" | "get_segments q t = get_segments q V" | "get_segments q V = None"
        using Cons.prems(2) by metis
      then show ?thesis
      proof cases
        case 1
        then show ?thesis unfolding t p by (simp add: blocked_set blocked_append)
      next
        case 2
        then have "get_segments p t = Some y" using y by (simp add: p get_append)
        then show ?thesis unfolding t by (simp add: set_get)
      next
        case 3
        then show ?thesis using y by (simp add: p get_append)
      qed
    next
      case False
      then show ?thesis unfolding t using np get_set_apart [of p q y t] blocked_kept [of q t p y]
        by (simp add: apart_def)
    qed
  qed (auto simp: b borrow_step_def)
  show ?case
    using Cons.IH [of ?t] Cons.prems same by auto
qed simp

text \<open>One step of the merge, seen from its final value.\<close>

lemma step_seen_from_end:
  assumes "q \<noteq> []" "\<And>b. b \<in> set bs \<Longrightarrow> \<not> prefix (snd b) q"
    and "get_segments q (fold (borrow V) bs (borrow V (True, q) t)) = Some m"
  shows "borrow V (True, q) t = set_at_path_segments q m t \<and> \<not> blocked q t"
proof (cases "get_segments q V")
  case None
  then have "borrow V (True, q) t = t" by (simp add: borrow_step_def)
  moreover have "get_segments q t = Some m"
    using assms(3) later_writes_keep [OF assms(2), where t = t and V = V] None calculation by simp
  ultimately show ?thesis by (auto simp: set_get dest: blocked_get)
next
  case (Some x)
  then have t: "borrow V (True, q) t = set_at_path_segments q x t" by (simp add: borrow_step_def)
  show ?thesis
  proof (cases "blocked q t")
    case True
    then have "get_segments q (fold (borrow V) bs (borrow V (True, q) t)) = None"
      using later_writes_keep [OF assms(2), where t = t and V = V] blocked_get [OF True] by (simp add: t blocked_set)
    with assms(3) show ?thesis by simp
  next
    case False
    with get_set [OF assms(1) False, of x] have "get_segments q (borrow V (True, q) t) = Some x" by (simp add: t)
    with later_writes_keep [OF assms(2), where t = "borrow V (True, q) t" and V = V] Some assms(3)
    have "m = x" by simp
    with t False show ?thesis by simp
  qed
qed

section \<open>Patching conversions\<close>

definition pv_fields :: "(string \<times> decoded_value) list \<Rightarrow> (string \<times> pv_value) list" where
  "pv_fields fs = map (\<lambda>(n, v). (n, decoded_to_pv_value v)) fs"

lemma to_pv_structure: "decoded_to_pv_value (DV_Structure fs) = PV_Structure [] (pv_fields fs)"
  by (simp add: decoded_to_pv_value.simps pv_fields_def)

lemma position_pv_fields:
  "(position n (pv_fields fs) = None \<longleftrightarrow> map_of fs n = None) \<and>
   (\<forall>i. position n (pv_fields fs) = Some i \<longrightarrow> i < length fs \<and> fst (fs ! i) = n \<and> map_of fs n = Some (snd (fs ! i)) \<and>
     (\<forall>upd fresh. put_field n upd fresh fs = fs[i := (n, upd (snd (fs ! i)))]))"
proof (induction fs)
  case (Cons f fs)
  then show ?case by (cases f) (auto simp: pv_fields_def)
qed (simp add: pv_fields_def)

lemma split_once_None: "split_once s = None \<longleftrightarrow> split_dots s = [s]"
proof (induction s)
  case (Cons c s)
  then show ?case by (auto split: list.split)
qed simp

lemma split_once_Some: "split_once s = Some (h, r) \<Longrightarrow> split_dots s = h # split_dots r"
  by (induction s arbitrary: h) (auto split: if_splits)

lemma patch_set:
  "\<not> blocked (split_dots path) (DV_Structure fs) \<Longrightarrow> patch_fields (pv_fields fs) path (decoded_to_pv_value x) = (ok, fs') \<Longrightarrow>
   ok \<Longrightarrow> DV_Structure gs = set_at_path_segments (split_dots path) x (DV_Structure fs) \<Longrightarrow> fs' = pv_fields gs"
proof (induction "length path" arbitrary: path fs fs' gs ok rule: less_induct)
  case less
  note run = less.prems(2) [unfolded patch_fields.simps [of _ path]]
  show ?case
  proof (cases "split_once path")
    case None
    then have segs: "split_dots path = [path]" by (simp add: split_once_None)
    obtain i where i: "position path (pv_fields fs) = Some i"
      using run None less.prems(3) by (auto split: option.splits)
    note at = position_pv_fields [of path fs, THEN conjunct2, rule_format, OF i]
    have "fs' = (pv_fields fs)[i := (path, decoded_to_pv_value x)]" "gs = fs[i := (path, x)]"
      using run None i at less.prems(4) segs by (auto simp: pv_fields_def split_def)
    then show ?thesis by (simp add: pv_fields_def map_update)
  next
    case (Some hr)
    obtain h r where hr: "hr = (h, r)" by (cases hr)
    have segs: "split_dots path = h # split_dots r" and len: "length r < length path"
      using Some hr split_once_Some split_once_length by auto
    obtain i where i: "position h (pv_fields fs) = Some i"
      using run Some hr less.prems(3) by (auto split: option.splits)
    note at = position_pv_fields [of h fs, THEN conjunct2, rule_format, OF i]
    have "\<not> blocked (split_dots r) (snd (fs ! i))"
      using less.prems(1) at by (auto simp: segs split: option.splits)
    then obtain cs where cs: "snd (fs ! i) = DV_Structure cs"
      by (cases "split_dots r") (auto split: decoded_value.splits)
    have pv: "snd (pv_fields fs ! i) = PV_Structure [] (pv_fields cs)" "fst (pv_fields fs ! i) = h"
      using at cs by (auto simp: pv_fields_def split_def to_pv_structure [unfolded pv_fields_def split_def])
    obtain ok' inner where inner: "patch_fields (pv_fields cs) r (decoded_to_pv_value x) = (ok', inner)"
      by (cases "patch_fields (pv_fields cs) r (decoded_to_pv_value x)")
    have ok': "ok'" "fs' = (pv_fields fs)[i := (h, PV_Structure [] inner)]"
      using run Some hr i pv inner less.prems(3) by auto
    have "\<exists>ds. set_at_path_segments (split_dots r) x (DV_Structure cs) = DV_Structure ds"
      by (cases "split_dots r") auto
    then obtain ds where ds: "DV_Structure ds = set_at_path_segments (split_dots r) x (DV_Structure cs)"
      by metis
    have "inner = pv_fields ds"
      using less.hyps [OF len _ inner ok'(1) ds] \<open>\<not> blocked (split_dots r) (snd (fs ! i))\<close> cs by simp
    moreover have "gs = fs[i := (h, DV_Structure ds)]"
      using less.prems(4) at cs ds by (simp add: segs)
    ultimately show ?thesis
      using ok'(2) by (simp add: pv_fields_def map_update to_pv_structure [unfolded pv_fields_def])
  qed
qed

lemma set_structure: "\<exists>gs. set_at_path_segments q x (DV_Structure fs) = DV_Structure gs"
  by (cases q) auto

lemma borrow_structure: "\<exists>gs. borrow V b (DV_Structure fs) = DV_Structure gs"
  using set_structure by (cases b) (auto simp: borrow_step_def split: option.split)

lemma patch_loop_merge:
  assumes "\<And>q. q \<in> set qs \<Longrightarrow> path_ok q" "sorted_wrt (\<lambda>a b. \<not> prefix b a) qs"
    and "merged = fold (borrow V) (flagged (bit_is_set changed) k qs) (DV_Structure fs)"
    and "patch_loop (enumerate k (map dotted qs)) changed merged any (pv_fields fs) = (True, fs')"
  shows "\<exists>gs. merged = DV_Structure gs \<and> fs' = pv_fields gs"
  using assms
proof (induction qs arbitrary: k fs any)
  case Nil
  then show ?case by auto
next
  case (Cons q qs)
  let ?on = "bit_is_set changed k" and ?bs = "flagged (bit_is_set changed) (Suc k) qs"
  have q: "path_ok q" using Cons.prems(1) by simp
  note dq = path_okD [OF q]
  obtain gs where gs: "borrow V (?on, q) (DV_Structure fs) = DV_Structure gs" using borrow_structure by blast
  have merged: "merged = fold (borrow V) ?bs (DV_Structure gs)" using Cons.prems(3) gs by simp
  have later: "\<not> prefix (snd b) q" if "b \<in> set ?bs" for b
    using snd_flagged [OF that] Cons.prems(2) by auto
  show ?case
  proof (cases ?on)
    case False
    then have "gs = fs" using gs by (simp add: borrow_step_def)
    then show ?thesis
      using Cons.IH [of "Suc k" gs any] Cons.prems merged False by simp
  next
    case True
    obtain m where m: "get_segments q merged = Some m"
      using Cons.prems(4) True dq by (auto simp: get_at_path_def split: option.splits)
    obtain ok fs1 where p: "patch_fields (pv_fields fs) (dotted q) (decoded_to_pv_value m) = (ok, fs1)"
      by (cases "patch_fields (pv_fields fs) (dotted q) (decoded_to_pv_value m)")
    have ok: ok and onward: "patch_loop (enumerate (Suc k) (map dotted qs)) changed merged True fs1 = (True, fs')"
      using Cons.prems(4) True dq m p by (auto simp: get_at_path_def split: if_splits)
    have "borrow V (True, q) (DV_Structure fs) = set_at_path_segments q m (DV_Structure fs) \<and>
        \<not> blocked q (DV_Structure fs)"
    proof (rule step_seen_from_end [OF _ later])
      show "q \<noteq> []" using q by (simp add: path_ok_def)
      show "get_segments q (fold (borrow V) ?bs (borrow V (True, q) (DV_Structure fs))) = Some m"
        using m merged gs True by simp
    qed
    then have "fs1 = pv_fields gs"
      using patch_set [OF _ p ok] gs True by (simp add: dq(1))
    then show ?thesis
      using Cons.IH [of "Suc k" gs True] Cons.prems(1,2) merged onward by simp
  qed
qed

lemma seg_fields_strict: "q \<in> set (seg_fields fs p) \<Longrightarrow> strict_prefix p q"
  using seg_fields_below [of q fs p] by (auto simp: strict_prefix_def prefix_def)

lemma seg_fields_beside:
  assumes "n \<notin> fd_name ` set fs" "prefix (pre @ [n]) p" "q \<in> set (seg_fields fs pre)"
  shows "\<not> prefix q p"
proof -
  from seg_fields_below [OF assms(3)] obtain m where "m \<in> fd_name ` set fs" "prefix (pre @ [m]) q" by blast
  with assms(1,2) have "apart p q" by (metis siblings_apart)
  then show ?thesis by (simp add: apart_def)
qed

lemma seg_fields_sorted: "names_ok fs \<Longrightarrow> sorted_wrt (\<lambda>a b. \<not> prefix b a) (seg_fields fs pre)"
proof (induction fs arbitrary: pre rule: inner_induct)
  case (Cons f fs)
  let ?p = "pre @ [fd_name f]"
  have new: "fd_name f \<notin> fd_name ` set fs" and ok: "names_ok fs" "names_ok (inner_fields f)"
    using Cons.prems by simp_all
  have "\<not> prefix q ?p" if "q \<in> set (seg_fields (inner_fields f) ?p)" for q
    using seg_fields_strict [OF that] prefix_order.less_le_not_le by metis
  moreover have "\<not> prefix q p" if "p \<in> set (seg_fields (inner_fields f) ?p)" "q \<in> set (seg_fields fs pre)" for p q
    using seg_fields_beside [OF new _ that(2)] seg_fields_strict [OF that(1)] by (simp add: strict_prefix_def)
  moreover have "\<not> prefix q ?p" if "q \<in> set (seg_fields fs pre)" for q
    by (rule seg_fields_beside [OF new _ that]) simp
  ultimately show ?case
    using Cons.IH(1) [OF ok(1), of pre] Cons.IH(2) [OF ok(2), of ?p]
    unfolding seg_fields.simps(2) sorted_wrt.simps(2) sorted_wrt_append set_append by blast
qed simp

text \<open>C36: patching a payload is rebuilding it. Let a payload be the conversion of the last full
  value, and let the merge of an update give a new full value. When patching the payload with the
  update reports success, the patched payload is exactly the conversion of the merged value, whatever
  the update is; the bits may select structures, fields below them, or both.\<close>

theorem patch_is_rebuild:
  assumes "mu_paths u = bit_paths d" "names_ok (sd_fields d)"
    and "merged = merge_monitor_delta (DV_Structure fs) u"
    and "patch_nt_payload (nt_payload_from_decoded (DV_Structure fs) sid) merged u = (True, p)"
  shows "p = nt_payload_from_decoded merged sid"
proof -
  let ?qs = "seg_fields (sd_fields d) []"
  note ok = seg_fields_ok [OF assms(2), of "[]", simplified]
  have bit0: "\<not> bit_is_set (mu_changed u) 0"
    and "patch_loop (drop 1 (enumerate 0 (mu_paths u))) (mu_changed u) merged False (pv_fields fs) =
      (True, case p of NT_Generic _ gs \<Rightarrow> gs | _ \<Rightarrow> [])" and p: "p = NT_Generic sid (case p of NT_Generic _ gs \<Rightarrow> gs | _ \<Rightarrow> [])"
    using assms(4) by (auto simp: patch_nt_payload_def nt_payload_from_decoded_def to_pv_structure
        split: if_splits prod.splits)
  moreover have "merged = fold (borrow (mu_value u)) (flagged (bit_is_set (mu_changed u)) 1 ?qs) (DV_Structure fs)"
    using assms(3) bit0 merge_borrow [of ?qs u 1 "DV_Structure fs", OF ok]
    by (simp only: merge_monitor_delta_def assms(1) bit_paths_dotted [OF assms(2)]) simp
  ultimately obtain gs where "merged = DV_Structure gs" "(case p of NT_Generic _ gs \<Rightarrow> gs | _ \<Rightarrow> []) = pv_fields gs"
    using patch_loop_merge [of ?qs merged "mu_value u" "mu_changed u" 1 fs False,
        OF ok seg_fields_sorted [OF assms(2)]]
    unfolding assms(1) bit_paths_dotted [OF assms(2)] by metis
  with p show ?thesis by (simp add: nt_payload_from_decoded_def to_pv_structure)
qed

theorem patch_is_rebuild_witness:
  "\<exists>p. patch_nt_payload (nt_payload_from_decoded sample_full ''demo'') (merge_monitor_delta sample_full sample_update)
       sample_update = (True, p) \<and>
     p = nt_payload_from_decoded (merge_monitor_delta sample_full sample_update) ''demo''"
proof -
  have "fst (patch_nt_payload (nt_payload_from_decoded sample_full ''demo'')
      (merge_monitor_delta sample_full sample_update) sample_update)" by code_simp
  then obtain p where p: "patch_nt_payload (nt_payload_from_decoded sample_full ''demo'')
      (merge_monitor_delta sample_full sample_update) sample_update = (True, p)"
    by (metis prod.collapse)
  have "mu_paths sample_update = bit_paths sample_update_desc" by (simp add: sample_update_def)
  from patch_is_rebuild [OF this sample_update_names refl, of _ "''demo''" p] p show ?thesis
    by (auto simp: sample_full_def)
qed

end
