(* ===== verification/Channel_Tables.thy ===== *)
theory Channel_Tables
  imports Prelude
begin

text \<open>
  The channel tables of one server connection (\<^verbatim>\<open>spvirit-server/src/state.rs\<close>): client and server
  channel IDs in both directions, the PV name of every channel, and the requests that run on it with the
  reverse index. The connection task and the upstream-death teardown of the registry share them.
\<close>

section \<open>The tables and their operations\<close>

record channel_tables =
  cid_to_sid :: "u32 \<rightharpoonup> u32"
  sid_to_cid :: "u32 \<rightharpoonup> u32"
  sid_to_pv :: "u32 \<rightharpoonup> string"
  ioid_to_sid :: "u32 \<rightharpoonup> u32"
  sid_to_ioids :: "u32 \<rightharpoonup> u32 set"

definition channel_tables_default :: channel_tables where
  "channel_tables_default = \<lparr>cid_to_sid = Map.empty, sid_to_cid = Map.empty, sid_to_pv = Map.empty,
     ioid_to_sid = Map.empty, sid_to_ioids = Map.empty\<rparr>"

definition insert_channel :: "u32 \<Rightarrow> u32 \<Rightarrow> string \<Rightarrow> channel_tables \<Rightarrow> channel_tables" where
  "insert_channel cid sid pv t =
     t\<lparr>cid_to_sid := (cid_to_sid t)(cid \<mapsto> sid), sid_to_cid := (sid_to_cid t)(sid \<mapsto> cid),
       sid_to_pv := (sid_to_pv t)(sid \<mapsto> pv)\<rparr>"

definition remove_channel :: "u32 \<Rightarrow> u32 \<Rightarrow> channel_tables \<Rightarrow> channel_tables" where
  "remove_channel cid sid t =
     (let t = t\<lparr>cid_to_sid := (cid_to_sid t)(cid := None), sid_to_cid := (sid_to_cid t)(sid := None),
            sid_to_pv := (sid_to_pv t)(sid := None)\<rparr> in
      case sid_to_ioids t sid of
        Some ioids \<Rightarrow>
          t\<lparr>sid_to_ioids := (sid_to_ioids t)(sid := None),
            ioid_to_sid := (\<lambda>ioid. if ioid \<in> ioids then None else ioid_to_sid t ioid)\<rparr>
      | None \<Rightarrow> t)"

definition remove_channel_if_current :: "u32 \<Rightarrow> u32 \<Rightarrow> channel_tables \<Rightarrow> bool \<times> channel_tables" where
  "remove_channel_if_current cid sid t =
     (let current_owner = cid_to_sid t cid;
          t = remove_channel cid sid t
      in if current_owner = Some sid then (True, t)
         else case current_owner of
                Some other \<Rightarrow> (False, t\<lparr>cid_to_sid := (cid_to_sid t)(cid \<mapsto> other)\<rparr>)
              | None \<Rightarrow> (False, t))"

text \<open>Both directions of forgetting one request: the set loses it, and an empty set its row.\<close>

definition drop_ioid :: "u32 \<Rightarrow> u32 \<Rightarrow> (u32 \<rightharpoonup> u32 set) \<Rightarrow> (u32 \<rightharpoonup> u32 set)" where
  "drop_ioid sid ioid m =
     (case m sid of
        Some ioids \<Rightarrow>
          (let ioids = ioids - {ioid} in if ioids = {} then m(sid := None) else m(sid \<mapsto> ioids))
      | None \<Rightarrow> m)"

definition bind_monitor :: "u32 \<Rightarrow> u32 \<Rightarrow> channel_tables \<Rightarrow> channel_tables" where
  "bind_monitor ioid sid t =
     (let old = ioid_to_sid t ioid;
          t = t\<lparr>ioid_to_sid := (ioid_to_sid t)(ioid \<mapsto> sid)\<rparr>;
          t = (case old of
                 Some o' \<Rightarrow> if o' \<noteq> sid then t\<lparr>sid_to_ioids := drop_ioid o' ioid (sid_to_ioids t)\<rparr> else t
               | None \<Rightarrow> t);
          ioids = (case sid_to_ioids t sid of Some s \<Rightarrow> s | None \<Rightarrow> {})
      in t\<lparr>sid_to_ioids := (sid_to_ioids t)(sid \<mapsto> insert ioid ioids)\<rparr>)"

definition unbind_monitor :: "u32 \<Rightarrow> channel_tables \<Rightarrow> channel_tables" where
  "unbind_monitor ioid t =
     (case ioid_to_sid t ioid of
        Some sid \<Rightarrow>
          t\<lparr>ioid_to_sid := (ioid_to_sid t)(ioid := None), sid_to_ioids := drop_ioid sid ioid (sid_to_ioids t)\<rparr>
      | None \<Rightarrow> t)"

definition ioids_for_sid :: "u32 \<Rightarrow> channel_tables \<Rightarrow> u32 set" where
  "ioids_for_sid sid t = (case sid_to_ioids t sid of Some s \<Rightarrow> s | None \<Rightarrow> {})"

definition cid_for_sid :: "u32 \<Rightarrow> channel_tables \<Rightarrow> u32 option" where
  "cid_for_sid sid t = sid_to_cid t sid"

definition channel_for_monitor :: "u32 \<Rightarrow> channel_tables \<Rightarrow> (u32 \<times> u32) option" where
  "channel_for_monitor ioid t =
     (case ioid_to_sid t ioid of
        None \<Rightarrow> None
      | Some sid \<Rightarrow> (case sid_to_cid t sid of None \<Rightarrow> None | Some cid \<Rightarrow> Some (sid, cid)))"

section \<open>The invariant\<close>

text \<open>The two indexes of requests are inverse to each other and hold no empty row, a channel has a client
  ID exactly when it has a name, and a client ID that names a live channel is the one of that channel.\<close>

definition tables_ok :: "channel_tables \<Rightarrow> bool" where
  "tables_ok t \<longleftrightarrow>
     (\<forall>sid. {ioid. ioid_to_sid t ioid = Some sid} = ioids_for_sid sid t) \<and>
     (\<forall>sid. sid_to_ioids t sid \<noteq> Some {}) \<and>
     dom (sid_to_cid t) = dom (sid_to_pv t) \<and>
     (\<forall>cid sid. cid_to_sid t cid = Some sid \<longrightarrow> sid_to_cid t sid \<in> {None, Some cid})"

text \<open>A channel ID the server's counter has just handed out names no channel yet.\<close>

definition fresh_sid :: "u32 \<Rightarrow> channel_tables \<Rightarrow> bool" where
  "fresh_sid sid t \<longleftrightarrow> sid_to_cid t sid = None \<and> sid \<notin> ran (cid_to_sid t)"

lemma tables_okI:
  assumes "\<And>ioid sid. ioid_to_sid t ioid = Some sid \<longleftrightarrow> ioid \<in> ioids_for_sid sid t"
    and "\<And>sid. sid_to_ioids t sid \<noteq> Some {}" "dom (sid_to_cid t) = dom (sid_to_pv t)"
    and "\<And>cid sid. cid_to_sid t cid = Some sid \<Longrightarrow> sid_to_cid t sid = None \<or> sid_to_cid t sid = Some cid"
  shows "tables_ok t"
  using assms by (auto simp: tables_ok_def)

lemma tables_okD:
  assumes "tables_ok t"
  shows "ioid_to_sid t ioid = Some sid \<longleftrightarrow> ioid \<in> ioids_for_sid sid t" "sid_to_ioids t sid \<noteq> Some {}"
    "dom (sid_to_cid t) = dom (sid_to_pv t)"
    "cid_to_sid t cid = Some sid \<Longrightarrow> sid_to_cid t sid = None \<or> sid_to_cid t sid = Some cid"
  using assms unfolding tables_ok_def by blast+

lemma default_ok: "tables_ok channel_tables_default"
  by (simp add: tables_ok_def channel_tables_default_def ioids_for_sid_def)

lemma insert_channel_ok:
  assumes "tables_ok t" "fresh_sid sid t"
  shows "tables_ok (insert_channel cid sid pv t)"
proof (rule tables_okI)
  show "ioid_to_sid (insert_channel cid sid pv t) i = Some s \<longleftrightarrow> i \<in> ioids_for_sid s (insert_channel cid sid pv t)" for i s
    using tables_okD(1) [OF assms(1)] by (simp add: insert_channel_def ioids_for_sid_def)
  show "cid_to_sid (insert_channel cid sid pv t) c = Some s \<Longrightarrow>
      sid_to_cid (insert_channel cid sid pv t) s = None \<or> sid_to_cid (insert_channel cid sid pv t) s = Some c" for c s
    using tables_okD(4) [OF assms(1), of c s] assms(2)
    by (auto simp: insert_channel_def fresh_sid_def ran_def split: if_splits)
qed (use tables_okD(2,3) [OF assms(1)] in \<open>simp_all add: insert_channel_def\<close>)

lemma remove_channel_fields [simp]:
  "cid_to_sid (remove_channel cid sid t) = (cid_to_sid t)(cid := None)"
  "sid_to_cid (remove_channel cid sid t) = (sid_to_cid t)(sid := None)"
  "sid_to_pv (remove_channel cid sid t) = (sid_to_pv t)(sid := None)"
  "sid_to_ioids (remove_channel cid sid t) = (sid_to_ioids t)(sid := None)"
  by (auto simp: remove_channel_def Let_def split: option.split)

lemma remove_channel_ioid:
  "ioid_to_sid (remove_channel cid sid t) ioid =
     (if ioid \<in> ioids_for_sid sid t then None else ioid_to_sid t ioid)"
  by (auto simp: remove_channel_def Let_def ioids_for_sid_def split: option.split)

lemma remove_channel_ok:
  assumes "tables_ok t" shows "tables_ok (remove_channel cid sid t)"
proof (rule tables_okI)
  show "ioid_to_sid (remove_channel cid sid t) i = Some s \<longleftrightarrow> i \<in> ioids_for_sid s (remove_channel cid sid t)" for i s
    using tables_okD(1) [OF assms, of i s] tables_okD(1) [OF assms, of i sid]
    by (auto simp: remove_channel_ioid) (auto simp: ioids_for_sid_def split: if_splits)
  show "cid_to_sid (remove_channel cid sid t) c = Some s \<Longrightarrow>
      sid_to_cid (remove_channel cid sid t) s = None \<or> sid_to_cid (remove_channel cid sid t) s = Some c" for c s
    using tables_okD(4) [OF assms, of c s] by (auto split: if_splits)
qed (use tables_okD(2,3) [OF assms] in \<open>auto\<close>)

lemma remove_if_current:
  "remove_channel_if_current cid sid t =
     (cid_to_sid t cid = Some sid,
      (remove_channel cid sid t)\<lparr>cid_to_sid :=
         (if cid_to_sid t cid = Some sid then (cid_to_sid t)(cid := None) else cid_to_sid t)\<rparr>)"
  by (auto simp: remove_channel_if_current_def Let_def fun_upd_idem split: option.split
      intro!: channel_tables.equality)

lemma remove_if_current_ok:
  assumes "tables_ok t" shows "tables_ok (snd (remove_channel_if_current cid sid t))"
proof -
  have "tables_ok (remove_channel cid sid t)" by (rule remove_channel_ok [OF assms])
  then show ?thesis
    using tables_okD(4) [OF assms]
    by (auto simp: remove_if_current tables_ok_def ioids_for_sid_def fun_upd_idem split: if_splits)
qed

lemma ioids_drop:
  "(case drop_ioid sid ioid m s of Some x \<Rightarrow> x | None \<Rightarrow> {}) =
     (case m s of Some x \<Rightarrow> x | None \<Rightarrow> {}) - (if s = sid then {ioid} else {})"
  by (auto simp: drop_ioid_def Let_def split: option.split)

lemma drop_no_empty: "(\<And>s. m s \<noteq> Some {}) \<Longrightarrow> drop_ioid sid ioid m s \<noteq> Some {}"
  by (auto simp: drop_ioid_def Let_def split: option.split)

lemma bind_monitor_fields [simp]:
  "cid_to_sid (bind_monitor ioid sid t) = cid_to_sid t" "sid_to_cid (bind_monitor ioid sid t) = sid_to_cid t"
  "sid_to_pv (bind_monitor ioid sid t) = sid_to_pv t"
  "ioid_to_sid (bind_monitor ioid sid t) = (ioid_to_sid t)(ioid \<mapsto> sid)"
  by (auto simp: bind_monitor_def Let_def split: option.split)

lemma bind_monitor_ioids:
  assumes "tables_ok t"
  shows "ioids_for_sid s (bind_monitor ioid sid t) =
    (if s = sid then insert ioid (ioids_for_sid s t) else ioids_for_sid s t - {ioid})"
  using tables_okD(1) [OF assms, of ioid s]
  by (auto simp: bind_monitor_def Let_def ioids_for_sid_def ioids_drop split: option.split)
    (auto simp: drop_ioid_def Let_def split: option.splits if_splits)

lemma bind_monitor_ok:
  assumes "tables_ok t" shows "tables_ok (bind_monitor ioid sid t)"
proof (rule tables_okI)
  show "ioid_to_sid (bind_monitor ioid sid t) i = Some s \<longleftrightarrow> i \<in> ioids_for_sid s (bind_monitor ioid sid t)" for i s
    using tables_okD(1) [OF assms, of i s] by (auto simp: bind_monitor_ioids [OF assms])
  show "sid_to_ioids (bind_monitor ioid sid t) s \<noteq> Some {}" for s
    using drop_no_empty [OF tables_okD(2) [OF assms]] tables_okD(2) [OF assms, of s]
    by (auto simp: bind_monitor_def Let_def split: option.split)
qed (use tables_okD(3,4) [OF assms] in auto)

lemma unbind_monitor_fields [simp]:
  "cid_to_sid (unbind_monitor ioid t) = cid_to_sid t" "sid_to_cid (unbind_monitor ioid t) = sid_to_cid t"
  "sid_to_pv (unbind_monitor ioid t) = sid_to_pv t"
  "ioid_to_sid (unbind_monitor ioid t) = (ioid_to_sid t)(ioid := None)"
  by (auto simp: unbind_monitor_def split: option.split)

lemma unbind_monitor_ioids:
  assumes "tables_ok t"
  shows "ioids_for_sid s (unbind_monitor ioid t) = ioids_for_sid s t - {ioid}"
proof (cases "ioid_to_sid t ioid")
  case None
  then show ?thesis using tables_okD(1) [OF assms, of ioid s] by (simp add: unbind_monitor_def)
next
  case (Some sid)
  then show ?thesis
    using tables_okD(1) [OF assms, of ioid s]
    by (cases "s = sid") (simp_all add: unbind_monitor_def ioids_for_sid_def ioids_drop)
qed

lemma unbind_monitor_ok:
  assumes "tables_ok t" shows "tables_ok (unbind_monitor ioid t)"
proof (rule tables_okI)
  show "ioid_to_sid (unbind_monitor ioid t) i = Some s \<longleftrightarrow> i \<in> ioids_for_sid s (unbind_monitor ioid t)" for i s
    using tables_okD(1) [OF assms, of i s] by (auto simp: unbind_monitor_ioids [OF assms])
  show "sid_to_ioids (unbind_monitor ioid t) s \<noteq> Some {}" for s
    using drop_no_empty [OF tables_okD(2) [OF assms]] tables_okD(2) [OF assms, of s]
    by (auto simp: unbind_monitor_def split: option.split)
qed (use tables_okD(3,4) [OF assms] in auto)

section \<open>Every history of a connection\<close>

text \<open>The histories of one connection's tables: any operations in any order, in which a new channel gets
  a server ID that is not in use.\<close>

inductive reachable_tables :: "channel_tables \<Rightarrow> bool" where
  rt_default: "reachable_tables channel_tables_default"
| rt_insert: "reachable_tables t \<Longrightarrow> fresh_sid sid t \<Longrightarrow> reachable_tables (insert_channel cid sid pv t)"
| rt_remove: "reachable_tables t \<Longrightarrow> reachable_tables (remove_channel cid sid t)"
| rt_remove_current: "reachable_tables t \<Longrightarrow> reachable_tables (snd (remove_channel_if_current cid sid t))"
| rt_bind: "reachable_tables t \<Longrightarrow> reachable_tables (bind_monitor ioid sid t)"
| rt_unbind: "reachable_tables t \<Longrightarrow> reachable_tables (unbind_monitor ioid t)"

lemmas table_ops_ok = default_ok insert_channel_ok remove_channel_ok remove_if_current_ok bind_monitor_ok
  unbind_monitor_ok

lemma reachable_tables_ok: "reachable_tables t \<Longrightarrow> tables_ok t"
  by (induction rule: reachable_tables.induct) (auto intro: table_ops_ok)

lemma channel_for_monitor_iff:
  assumes "tables_ok t"
  shows "channel_for_monitor ioid t = Some (sid, cid) \<longleftrightarrow> ioid \<in> ioids_for_sid sid t \<and> cid_for_sid sid t = Some cid"
  using tables_okD(1) [OF assms, of ioid sid]
  by (auto simp: channel_for_monitor_def cid_for_sid_def split: option.split)

lemma channel_for_monitor_after_destroy:
  assumes "tables_ok t"
  shows "channel_for_monitor ioid (snd (remove_channel_if_current cid sid t)) =
    (if ioid \<in> ioids_for_sid sid t then None else channel_for_monitor ioid t)"
  using tables_okD(1) [OF assms, of ioid sid]
  by (auto simp: channel_for_monitor_def remove_if_current remove_channel_ioid split: option.split)


definition sample_tables :: channel_tables where
  "sample_tables = bind_monitor 43 8 (insert_channel 9 8 ''PV'' (bind_monitor 42 7 (insert_channel 9 7 ''PV'' channel_tables_default)))"


end
