(* ===== verification/Conn_Writer.thy ===== *)
theory Conn_Writer
  imports Prelude "HOL-Library.Sublist"
begin

text \<open>
  The per-connection writer of the server (\<^verbatim>\<open>spvirit-server/src/conn_writer.rs\<close>). Producers deposit
  complete frames on two lanes, a lossless control lane and a monitor lane that keeps the latest frame of
  every request; one elected task drains them to the socket, first inline and then, when the socket is not
  ready, in a continuation task. The model has a step per critical section, so that deposits of any number
  of producers interleave with the flusher everywhere the code lets them.
\<close>

section \<open>The lanes\<close>

record coalesce =
  co_control :: "bytes list"
  co_monitor :: "u32 \<rightharpoonup> bytes"
  co_flushing :: bool
  co_dead :: bool
  co_backlog :: nat

definition BACKLOG_HIGH_WATER :: nat where
  "BACKLOG_HIGH_WATER = 4 * 1024 * 1024"

definition INLINE_BATCH_LIMIT :: nat where
  "INLINE_BATCH_LIMIT = 8"

definition coalesce_default :: coalesce where
  "coalesce_default = \<lparr>co_control = [], co_monitor = Map.empty, co_flushing = False, co_dead = False, co_backlog = 0\<rparr>"

text \<open>Draining both lanes. The order in which the hash map yields its entries is unspecified: \<^term>\<open>ord\<close>
  lists its keys in that order.\<close>

definition lanes_empty :: "coalesce \<Rightarrow> bool" where
  "lanes_empty c \<longleftrightarrow> co_control c = [] \<and> co_monitor c = Map.empty"

definition monitor_frames :: "u32 list \<Rightarrow> coalesce \<Rightarrow> bytes list" where
  "monitor_frames ord c = map (\<lambda>ioid. the (co_monitor c ioid)) ord"

definition take_batch :: "u32 list \<Rightarrow> coalesce \<Rightarrow> bytes option \<times> coalesce" where
  "take_batch ord c =
     (if lanes_empty c then (None, c\<lparr>co_flushing := False\<rparr>)
      else (Some (concat (co_control c) @ concat (monitor_frames ord c)),
            c\<lparr>co_control := [], co_monitor := Map.empty\<rparr>))"

text \<open>A deposit; the answer tells whether this depositor won the election.\<close>

definition deposit_control :: "bytes \<Rightarrow> coalesce \<Rightarrow> bool \<times> coalesce" where
  "deposit_control bs c =
     (if co_dead c then (False, c)
      else
        let c = c\<lparr>co_backlog := co_backlog c + length bs\<rparr>;
            c = c\<lparr>co_control := co_control c @ [bs]\<rparr>
        in if co_flushing c then (False, c) else (True, c\<lparr>co_flushing := True\<rparr>))"

definition deposit_monitor :: "u32 \<Rightarrow> bytes \<Rightarrow> coalesce \<Rightarrow> bool \<times> coalesce" where
  "deposit_monitor ioid bs c =
     (if co_dead c then (False, c)
      else
        let c = c\<lparr>co_backlog := co_backlog c + length bs\<rparr>;
            stale = co_monitor c ioid;
            c = c\<lparr>co_monitor := (co_monitor c)(ioid \<mapsto> bs)\<rparr>;
            c = (case stale of Some old \<Rightarrow> c\<lparr>co_backlog := co_backlog c - length old\<rparr> | None \<Rightarrow> c)
        in if co_flushing c then (False, c) else (True, c\<lparr>co_flushing := True\<rparr>))"

definition wrote :: "nat \<Rightarrow> coalesce \<Rightarrow> coalesce" where
  "wrote n c = c\<lparr>co_backlog := co_backlog c - n\<rparr>"

definition mark_dead :: "coalesce \<Rightarrow> coalesce" where
  "mark_dead c = c\<lparr>co_dead := True, co_flushing := False, co_control := [], co_monitor := Map.empty, co_backlog := 0\<rparr>"

text \<open>When the connection's own request loop may go on.\<close>

definition backpressure_passes :: "coalesce \<Rightarrow> bool" where
  "backpressure_passes c \<longleftrightarrow> co_dead c \<or> co_backlog c \<le> BACKLOG_HIGH_WATER"

section \<open>The flusher\<close>

text \<open>Where a flushing task stands: it has won the election and is about to try the socket's lock; it
  drains inline, with so many batches left; it writes a batch inline; it is a continuation that waits for
  the lock; it is a continuation that writes; it is one that is about to drain; it has released the
  election and is about to drop the lock.\<close>

datatype phase =
    P_Try
  | P_Drain nat
  | P_Poll nat bytes nat
  | P_Lock bytes nat
  | P_Cont bytes nat
  | P_Next
  | P_Done

fun holds_lock :: "phase \<Rightarrow> bool" where
  "holds_lock P_Try = False"
| "holds_lock (P_Drain _) = True"
| "holds_lock (P_Poll _ _ _) = True"
| "holds_lock (P_Lock _ _) = False"
| "holds_lock (P_Cont _ _) = True"
| "holds_lock P_Next = True"
| "holds_lock P_Done = True"

text \<open>A writer: its lanes, its tasks and the bytes its socket has accepted. The logs are history
  variables: the frames deposited on the control lane, those deposited for every request, and the frames
  drained so far with the request of a monitor frame.\<close>

record conn_writer =
  cw_lanes :: coalesce
  cw_tasks :: "phase list"
  cw_wire :: bytes
  cw_control_log :: "bytes list"
  cw_monitor_log :: "u32 \<Rightarrow> bytes list"
  cw_drained :: "(u32 option \<times> bytes) list"

definition conn_writer_new :: conn_writer where
  "conn_writer_new = \<lparr>cw_lanes = coalesce_default, cw_tasks = [], cw_wire = [], cw_control_log = [],
     cw_monitor_log = (\<lambda>_. []), cw_drained = []\<rparr>"

definition send_control :: "bytes \<Rightarrow> conn_writer \<Rightarrow> conn_writer" where
  "send_control bs w =
     (let (won, c) = deposit_control bs (cw_lanes w);
          w = (if co_dead c then w else w\<lparr>cw_control_log := cw_control_log w @ [bs]\<rparr>)
      in w\<lparr>cw_lanes := c, cw_tasks := (if won then cw_tasks w @ [P_Try] else cw_tasks w)\<rparr>)"

definition send_monitor :: "u32 \<Rightarrow> bytes \<Rightarrow> conn_writer \<Rightarrow> conn_writer" where
  "send_monitor ioid bs w =
     (let (won, c) = deposit_monitor ioid bs (cw_lanes w);
          w = (if co_dead c then w
               else w\<lparr>cw_monitor_log := (cw_monitor_log w)(ioid := cw_monitor_log w ioid @ [bs])\<rparr>)
      in w\<lparr>cw_lanes := c, cw_tasks := (if won then cw_tasks w @ [P_Try] else cw_tasks w)\<rparr>)"

text \<open>What a step depends on besides the writer: the socket takes so many bytes; it fails, or a write
  stalls past the deadline, or the task is cancelled; the inline flusher has to pass the election on, with
  a runtime to continue on or without; the hash map yields its entries in some order; nothing.\<close>

datatype answer = Accepts nat | Fails | Yields bool | Order "u32 list" | Goes

text \<open>Passing the election to a continuation task.\<close>

definition hand_off :: "bool \<Rightarrow> bytes \<Rightarrow> nat \<Rightarrow> coalesce \<Rightarrow> phase list \<times> coalesce" where
  "hand_off runtime batch off c = (if runtime then ([P_Lock batch off], c) else ([], mark_dead c))"

definition drained_frames :: "u32 list \<Rightarrow> coalesce \<Rightarrow> (u32 option \<times> bytes) list" where
  "drained_frames ord c = map (Pair None) (co_control c) @ map (\<lambda>ioid. (Some ioid, the (co_monitor c ioid))) ord"

text \<open>The next critical section or socket call of a task: the phases it goes on with, the lanes, the bytes
  written and the frames drained. \<^term>\<open>locked\<close> tells whether another task holds the socket's lock;
  \<^const>\<open>None\<close> is an answer the task did not ask for, or a lock it has to wait for.\<close>

definition legal_order :: "u32 list \<Rightarrow> coalesce \<Rightarrow> bool" where
  "legal_order ord c \<longleftrightarrow> distinct ord \<and> set ord = dom (co_monitor c)"

definition drain :: "(bytes \<Rightarrow> phase) \<Rightarrow> u32 list \<Rightarrow> coalesce
    \<Rightarrow> (phase list \<times> coalesce \<times> bytes \<times> (u32 option \<times> bytes) list) option" where
  "drain go ord c =
     (if \<not> legal_order ord c then None
      else case take_batch ord c of
        (None, c') \<Rightarrow> Some ([P_Done], c', [], [])
      | (Some batch, c') \<Rightarrow> Some ([go batch], c', [], drained_frames ord c))"

fun flush_step :: "bool \<Rightarrow> answer \<Rightarrow> phase \<Rightarrow> coalesce
    \<Rightarrow> (phase list \<times> coalesce \<times> bytes \<times> (u32 option \<times> bytes) list) option" where
  "flush_step locked ans P_Try c =
     (if \<not> locked then (case ans of Goes \<Rightarrow> Some ([P_Drain INLINE_BATCH_LIMIT], c, [], []) | _ \<Rightarrow> None)
      else (case ans of Yields rt \<Rightarrow> (let (ps, c') = hand_off rt [] 0 c in Some (ps, c', [], [])) | _ \<Rightarrow> None))"
| "flush_step locked ans (P_Drain k) c =
     (if k = 0 then
        (case ans of Yields rt \<Rightarrow> (let (ps, c') = hand_off rt [] 0 c in Some (ps, c', [], [])) | _ \<Rightarrow> None)
      else (case ans of Order ord \<Rightarrow> drain (\<lambda>batch. P_Poll (k - 1) batch 0) ord c | _ \<Rightarrow> None))"
| "flush_step locked ans (P_Poll k batch off) c =
     (if off < length batch then
        (case ans of
           Accepts n \<Rightarrow> if 0 < n \<and> n \<le> length batch - off
             then Some ([P_Poll k batch (off + n)], c, take n (drop off batch), []) else None
         | Fails \<Rightarrow> Some ([], mark_dead c, [], [])
         | Yields rt \<Rightarrow> (let (ps, c') = hand_off rt batch off c in Some (ps, c', [], []))
         | _ \<Rightarrow> None)
      else (case ans of Goes \<Rightarrow> Some ([P_Drain k], wrote (length batch) c, [], []) | _ \<Rightarrow> None))"
| "flush_step locked ans (P_Lock batch off) c =
     (case ans of
        Fails \<Rightarrow> Some ([], mark_dead c, [], [])
      | Goes \<Rightarrow> if locked then None else Some ([P_Cont batch off], c, [], [])
      | _ \<Rightarrow> None)"
| "flush_step locked ans (P_Cont batch off) c =
     (case ans of
        Fails \<Rightarrow> Some ([], mark_dead c, [], [])
      | Accepts n \<Rightarrow> if 0 < n \<and> n \<le> length batch - off
          then Some ([P_Cont batch (off + n)], c, take n (drop off batch), []) else None
      | Goes \<Rightarrow> if off < length batch then None else Some ([P_Next], wrote (length batch) c, [], [])
      | _ \<Rightarrow> None)"
| "flush_step locked ans P_Next c =
     (case ans of
        Fails \<Rightarrow> Some ([], mark_dead c, [], [])
      | Order ord \<Rightarrow> drain (\<lambda>next. P_Cont next 0) ord c
      | _ \<Rightarrow> None)"
| "flush_step locked ans P_Done c = (case ans of Goes \<Rightarrow> Some ([], c, [], []) | _ \<Rightarrow> None)"

text \<open>A step of the \<^term>\<open>i\<close>th task.\<close>

definition advance :: "nat \<Rightarrow> answer \<Rightarrow> conn_writer \<Rightarrow> conn_writer option" where
  "advance i ans w =
     (let ts = cw_tasks w; others = take i ts @ drop (Suc i) ts in
      if i < length ts then
        (case flush_step (list_ex holds_lock others) ans (ts ! i) (cw_lanes w) of
           None \<Rightarrow> None
         | Some (ps, c, bs, fs) \<Rightarrow>
             Some (w\<lparr>cw_lanes := c, cw_tasks := take i ts @ ps @ drop (Suc i) ts, cw_wire := cw_wire w @ bs,
               cw_drained := cw_drained w @ fs\<rparr>))
      else None)"

inductive flusher_step :: "conn_writer \<Rightarrow> conn_writer \<Rightarrow> bool" where
  flusher_step: "advance i ans w = Some w' \<Longrightarrow> flusher_step w w'"

inductive reachable_writer :: "conn_writer \<Rightarrow> bool" where
  rw_new: "reachable_writer conn_writer_new"
| rw_control: "reachable_writer w \<Longrightarrow> reachable_writer (send_control bs w)"
| rw_monitor: "reachable_writer w \<Longrightarrow> reachable_writer (send_monitor ioid bs w)"
| rw_flusher: "reachable_writer w \<Longrightarrow> flusher_step w w' \<Longrightarrow> reachable_writer w'"

section \<open>The invariant\<close>

text \<open>The bytes of a task's batch that are still to be written, and those the backlog counts for it.\<close>

fun unwritten :: "phase \<Rightarrow> bytes" where
  "unwritten (P_Poll _ batch off) = drop off batch"
| "unwritten (P_Lock batch off) = drop off batch"
| "unwritten (P_Cont batch off) = drop off batch"
| "unwritten _ = []"

fun in_flight :: "phase \<Rightarrow> nat" where
  "in_flight (P_Poll _ batch off) = length batch"
| "in_flight (P_Lock batch off) = length batch"
| "in_flight (P_Cont batch off) = length batch"
| "in_flight _ = 0"

definition elected :: "phase list \<Rightarrow> phase list" where
  "elected ts = filter (\<lambda>p. p \<noteq> P_Done) ts"

definition control_of :: "(u32 option \<times> bytes) list \<Rightarrow> bytes list" where
  "control_of fs = map snd (filter (\<lambda>f. fst f = None) fs)"

definition monitor_of :: "u32 \<Rightarrow> (u32 option \<times> bytes) list \<Rightarrow> bytes list" where
  "monitor_of ioid fs = map snd (filter (\<lambda>f. fst f = Some ioid) fs)"

definition slot :: "u32 \<Rightarrow> coalesce \<Rightarrow> bytes list" where
  "slot ioid c = (case co_monitor c ioid of Some bs \<Rightarrow> [bs] | None \<Rightarrow> [])"

definition lane_bytes :: "coalesce \<Rightarrow> nat" where
  "lane_bytes c = sum_list (map length (co_control c)) + (\<Sum>ioid \<in> dom (co_monitor c). length (the (co_monitor c ioid)))"

text \<open>What was drained and what is in the lanes, against what was deposited: all of the control lane, and
  of every request a selection of its monitor frames that ends with the last one.\<close>

definition logs_ok :: "conn_writer \<Rightarrow> bool" where
  "logs_ok w \<longleftrightarrow>
     cw_control_log w = control_of (cw_drained w) @ co_control (cw_lanes w) \<and>
     (\<forall>ioid. let kept = monitor_of ioid (cw_drained w) @ slot ioid (cw_lanes w) in
        subseq kept (cw_monitor_log w ioid) \<and>
        (cw_monitor_log w ioid \<noteq> [] \<longrightarrow> kept \<noteq> [] \<and> last kept = last (cw_monitor_log w ioid)))"

definition alive_ok :: "conn_writer \<Rightarrow> bool" where
  "alive_ok w \<longleftrightarrow>
     (let c = cw_lanes w; E = elected (cw_tasks w) in
      length E = (if co_flushing c then 1 else 0) \<and> (\<not> co_flushing c \<longrightarrow> lanes_empty c) \<and>
      cw_wire w @ concat (map unwritten E) = concat (map snd (cw_drained w)) \<and>
      co_backlog c = lane_bytes c + sum_list (map in_flight E) \<and> logs_ok w)"

definition dead_ok :: "conn_writer \<Rightarrow> bool" where
  "dead_ok w \<longleftrightarrow>
     (let c = cw_lanes w in
      elected (cw_tasks w) = [] \<and> lanes_empty c \<and> \<not> co_flushing c \<and> co_backlog c = 0 \<and>
      prefix (cw_wire w) (concat (map snd (cw_drained w))) \<and>
      prefix (control_of (cw_drained w)) (cw_control_log w) \<and>
      (\<forall>ioid. subseq (monitor_of ioid (cw_drained w)) (cw_monitor_log w ioid)))"

definition writer_ok :: "conn_writer \<Rightarrow> bool" where
  "writer_ok w \<longleftrightarrow>
     finite (dom (co_monitor (cw_lanes w))) \<and> length (filter holds_lock (cw_tasks w)) \<le> 1 \<and>
     (if co_dead (cw_lanes w) then dead_ok w else alive_ok w)"

subsection \<open>Deposits\<close>

lemma new_writer_ok: "writer_ok conn_writer_new"
  by (simp add: writer_ok_def conn_writer_new_def coalesce_default_def alive_ok_def elected_def lanes_empty_def
      lane_bytes_def logs_ok_def control_of_def monitor_of_def slot_def Let_def)

lemma elected_append [simp]: "elected (xs @ ys) = elected xs @ elected ys"
  by (simp add: elected_def)

lemma elected_simps [simp]: "elected [] = []" "elected (p # ps) = (if p = P_Done then elected ps else p # elected ps)"
  by (simp_all add: elected_def)

lemma send_control_ok:
  assumes "writer_ok w" shows "writer_ok (send_control bs w)"
proof (cases "co_dead (cw_lanes w)")
  case True
  then show ?thesis using assms by (simp add: send_control_def deposit_control_def writer_ok_def dead_ok_def Let_def)
next
  case False
  then show ?thesis
    using assms
    by (auto simp: send_control_def deposit_control_def writer_ok_def alive_ok_def logs_ok_def slot_def
        lane_bytes_def lanes_empty_def Let_def)
qed

lemma lane_bytes_insert:
  assumes "finite (dom (co_monitor c))"
  shows "lane_bytes (c\<lparr>co_monitor := (co_monitor c)(ioid \<mapsto> bs)\<rparr>) =
    lane_bytes c + length bs - sum_list (map length (slot ioid c))"
    "sum_list (map length (slot ioid c)) \<le> lane_bytes c"
proof -
  let ?f = "\<lambda>i. length (the (co_monitor c i))" and ?D = "dom (co_monitor c)"
  have sub: "sum_list (map length (slot ioid c)) = (if ioid \<in> ?D then ?f ioid else 0)"
    by (auto simp: slot_def split: option.split)
  have split: "sum ?f ?D = (if ioid \<in> ?D then ?f ioid else 0) + sum ?f (?D - {ioid})"
    using assms by (simp add: sum.remove)
  have "(\<Sum>i \<in> insert ioid ?D. length (the (((co_monitor c)(ioid \<mapsto> bs)) i))) = length bs + sum ?f (?D - {ioid})"
    using assms by (simp add: sum.insert_remove)
  then show "lane_bytes (c\<lparr>co_monitor := (co_monitor c)(ioid \<mapsto> bs)\<rparr>) =
      lane_bytes c + length bs - sum_list (map length (slot ioid c))"
    using split sub by (simp add: lane_bytes_def)
  show "sum_list (map length (slot ioid c)) \<le> lane_bytes c"
    using split sub by (simp add: lane_bytes_def)
qed

lemma deposit_monitor_alive:
  assumes "\<not> co_dead c"
  shows "deposit_monitor ioid bs c =
    (\<not> co_flushing c, c\<lparr>co_monitor := (co_monitor c)(ioid \<mapsto> bs), co_flushing := True,
       co_backlog := co_backlog c + length bs - sum_list (map length (slot ioid c))\<rparr>)"
  using assms by (auto simp: deposit_monitor_def slot_def Let_def split: option.split)

lemma kept_monitor:
  assumes "subseq (ms @ xs) log" "length xs \<le> 1"
  shows "subseq (ms @ [bs]) (log @ [bs])"
proof -
  have "subseq ms log" using assms(1) by (meson list_emb_append2 prefixI prefix_imp_subseq subseq_order.trans)
  then show ?thesis by (simp add: subseq_append')
qed

lemma send_monitor_ok:
  assumes "writer_ok w" shows "writer_ok (send_monitor ioid bs w)"
proof (cases "co_dead (cw_lanes w)")
  case True
  then show ?thesis using assms by (simp add: send_monitor_def deposit_monitor_def writer_ok_def dead_ok_def Let_def)
next
  case False
  define w' where "w' = send_monitor ioid bs w"
  let ?c = "cw_lanes w"
  have w': "w' = w\<lparr>cw_lanes := ?c\<lparr>co_monitor := (co_monitor ?c)(ioid \<mapsto> bs), co_flushing := True,
       co_backlog := co_backlog ?c + length bs - sum_list (map length (slot ioid ?c))\<rparr>,
       cw_monitor_log := (cw_monitor_log w)(ioid := cw_monitor_log w ioid @ [bs]),
       cw_tasks := (if co_flushing ?c then cw_tasks w else cw_tasks w @ [P_Try])\<rparr>"
    using False by (simp add: w'_def send_monitor_def deposit_monitor_alive)
  have fin: "finite (dom (co_monitor ?c))" and ok: "alive_ok w" and lock: "length (filter holds_lock (cw_tasks w)) \<le> 1"
    using assms False by (simp_all add: writer_ok_def)
  have "lane_bytes (cw_lanes w') = lane_bytes ?c + length bs - sum_list (map length (slot ioid ?c))"
    using lane_bytes_insert(1) [OF fin, of ioid bs] by (simp add: w' lane_bytes_def)
  moreover have "logs_ok w'"
    using ok kept_monitor [of "monitor_of ioid (cw_drained w)" "slot ioid ?c" "cw_monitor_log w ioid" bs]
    by (auto simp: alive_ok_def logs_ok_def Let_def w' slot_def split: option.splits)
  ultimately have "alive_ok w'"
    using ok lane_bytes_insert(2) [OF fin, of ioid] by (auto simp: alive_ok_def Let_def w')
  then show ?thesis using fin lock False unfolding w'_def [symmetric] by (simp add: writer_ok_def w')
qed

subsection \<open>Steps of the flusher\<close>

text \<open>A step of the elected task does one of four things: it goes on and may write some of its batch, it
  gives the connection up, it releases the election with both lanes empty, or it takes a batch.\<close>

definition goes_on :: "phase \<Rightarrow> coalesce \<Rightarrow> phase list \<Rightarrow> coalesce \<Rightarrow> bytes \<Rightarrow> bool" where
  "goes_on p c ps c' bs \<longleftrightarrow> (\<exists>p'. ps = [p'] \<and> p' \<noteq> P_Done \<and> unwritten p = bs @ unwritten p' \<and>
     in_flight p' \<le> in_flight p \<and> c' = c\<lparr>co_backlog := co_backlog c - (in_flight p - in_flight p')\<rparr>)"

definition takes :: "phase \<Rightarrow> coalesce \<Rightarrow> phase list \<Rightarrow> coalesce \<Rightarrow> (u32 option \<times> bytes) list \<Rightarrow> bool" where
  "takes p c ps c' fs \<longleftrightarrow> (\<exists>ord p'. legal_order ord c \<and> \<not> lanes_empty c \<and> ps = [p'] \<and> p' \<noteq> P_Done \<and>
     unwritten p = [] \<and> in_flight p = 0 \<and> fs = drained_frames ord c \<and> unwritten p' = concat (map snd fs) \<and>
     in_flight p' = length (unwritten p') \<and> c' = c\<lparr>co_control := [], co_monitor := Map.empty\<rparr>)"

lemma drained_bytes: "concat (map snd (drained_frames ord c)) = concat (co_control c) @ concat (monitor_frames ord c)"
  by (simp add: drained_frames_def monitor_frames_def o_def)

lemma drain_cases:
  assumes "drain go ord c = Some (ps, c', bs, fs)" "unwritten p = []" "in_flight p = 0"
    and "\<And>b. go b \<noteq> P_Done \<and> unwritten (go b) = b \<and> in_flight (go b) = length b"
  shows "bs = [] \<and> (takes p c ps c' fs \<or>
    lanes_empty c \<and> ps = [P_Done] \<and> fs = [] \<and> c' = c\<lparr>co_flushing := False\<rparr>)"
  using assms(1) by (auto simp: drain_def takes_def take_batch_def drained_bytes assms split: if_splits)

lemma hand_off_cases:
  assumes "hand_off rt batch off c = (ps, c')"
  shows "ps = [P_Lock batch off] \<and> c' = c \<or> ps = [] \<and> c' = mark_dead c"
  using assms by (auto simp: hand_off_def split: if_splits)

lemma flush_step_cases:
  assumes "flush_step locked ans p c = Some (ps, c', bs, fs)" "p \<noteq> P_Done"
  shows "fs = [] \<and> goes_on p c ps c' bs \<or> ps = [] \<and> c' = mark_dead c \<and> bs = [] \<and> fs = [] \<or>
    bs = [] \<and> unwritten p = [] \<and> in_flight p = 0 \<and> (takes p c ps c' fs \<or>
      lanes_empty c \<and> ps = [P_Done] \<and> fs = [] \<and> c' = c\<lparr>co_flushing := False\<rparr>)"
proof (cases p)
  case (P_Drain k)
  then show ?thesis
    using assms drain_cases [of "\<lambda>batch. P_Poll (k - 1) batch 0" _ c ps c' bs fs p]
    by (auto simp: goes_on_def split: if_splits answer.splits prod.splits dest: hand_off_cases)
next
  case P_Next
  then show ?thesis
    using assms drain_cases [of "\<lambda>next. P_Cont next 0" _ c ps c' bs fs p]
    by (auto split: if_splits answer.splits)
next
  case (P_Poll k batch off)
  then show ?thesis
    using assms
    by (auto simp: goes_on_def wrote_def split: if_splits answer.splits prod.splits dest!: hand_off_cases)
      (auto simp: add.commute simp flip: drop_drop)
next
  case (P_Cont batch off)
  then show ?thesis
    using assms
    by (auto simp: goes_on_def wrote_def split: if_splits answer.splits)
      (auto simp: add.commute simp flip: drop_drop)
qed (use assms in \<open>auto simp: goes_on_def split: if_splits answer.splits prod.splits dest!: hand_off_cases\<close>)

lemma flush_step_lock:
  assumes "flush_step locked ans p c = Some (ps, c', bs, fs)"
  shows "length (filter holds_lock ps) \<le> (if holds_lock p \<or> \<not> locked then 1 else 0)"
  using assms
  by (cases p) (auto simp: hand_off_def drain_def split: if_splits answer.splits prod.splits option.splits)

text \<open>Preservation, one outcome at a time.\<close>

lemma filter_single: "distinct xs \<Longrightarrow> filter (\<lambda>y. y = x) xs = (if x \<in> set xs then [x] else [])"
  by (induction xs) auto

lemma drained_logs:
  assumes "legal_order ord c"
  shows "control_of (drained_frames ord c) = co_control c" "monitor_of ioid (drained_frames ord c) = slot ioid c"
proof -
  show "control_of (drained_frames ord c) = co_control c"
    by (simp add: control_of_def drained_frames_def o_def filter_map)
  have "filter (\<lambda>i. i = ioid) ord = (if ioid \<in> set ord then [ioid] else [])"
    using assms by (simp add: legal_order_def filter_single)
  then show "monitor_of ioid (drained_frames ord c) = slot ioid c"
    using assms by (auto simp: monitor_of_def drained_frames_def o_def filter_map slot_def legal_order_def domIff
        split: option.split)
qed

lemma control_of_append: "control_of (xs @ ys) = control_of xs @ control_of ys"
  by (simp add: control_of_def)

lemma monitor_of_append: "monitor_of i (xs @ ys) = monitor_of i xs @ monitor_of i ys"
  by (simp add: monitor_of_def)

lemma takes_lane_bytes:
  assumes "legal_order ord c"
  shows "lane_bytes c = length (concat (map snd (drained_frames ord c)))"
proof -
  have "(\<Sum>i \<in> dom (co_monitor c). length (the (co_monitor c i))) = sum_list (map (\<lambda>i. length (the (co_monitor c i))) ord)"
    using assms by (auto simp: legal_order_def sum_list_distinct_conv_sum_set)
  then show ?thesis by (simp add: lane_bytes_def drained_bytes monitor_frames_def length_concat o_def)
qed

lemma dead_of_alive:
  assumes "alive_ok w" "elected (cw_tasks w') = []" "cw_lanes w' = mark_dead (cw_lanes w)"
    and "cw_wire w' = cw_wire w" "cw_drained w' = cw_drained w" "cw_control_log w' = cw_control_log w"
    and "cw_monitor_log w' = cw_monitor_log w"
  shows "dead_ok w'"
proof -
  have "subseq (monitor_of i (cw_drained w)) (cw_monitor_log w i)" for i
    using assms(1) by (auto simp: alive_ok_def logs_ok_def Let_def intro: subseq_order.trans [rotated])
  moreover have "prefix (cw_wire w) (concat (map snd (cw_drained w)))"
    using assms(1) by (auto simp: alive_ok_def Let_def intro: prefixI [OF sym])
  ultimately show ?thesis
    using assms by (simp add: dead_ok_def alive_ok_def logs_ok_def mark_dead_def lanes_empty_def Let_def)
qed

lemma goes_on_ok:
  assumes "alive_ok w" "elected (cw_tasks w) = [p]" "goes_on p (cw_lanes w) ps c' bs" "elected ts = ps"
  shows "alive_ok (w\<lparr>cw_lanes := c', cw_tasks := ts, cw_wire := cw_wire w @ bs\<rparr>)"
proof -
  obtain p' where p': "ps = [p']" "unwritten p = bs @ unwritten p'" "in_flight p' \<le> in_flight p"
      "c' = (cw_lanes w)\<lparr>co_backlog := co_backlog (cw_lanes w) - (in_flight p - in_flight p')\<rparr>"
    using assms(3) by (auto simp: goes_on_def)
  have "logs_ok (w\<lparr>cw_lanes := c', cw_tasks := ts, cw_wire := cw_wire w @ bs\<rparr>)"
    using assms(1) by (simp add: alive_ok_def logs_ok_def slot_def p'(4) Let_def)
  moreover have "lane_bytes c' = lane_bytes (cw_lanes w)" "lanes_empty c' = lanes_empty (cw_lanes w)"
      "co_flushing c' = co_flushing (cw_lanes w)"
    by (simp_all add: p'(4) lane_bytes_def lanes_empty_def)
  moreover have "co_flushing (cw_lanes w)" "cw_wire w @ unwritten p = concat (map snd (cw_drained w))"
      "co_backlog (cw_lanes w) = lane_bytes (cw_lanes w) + in_flight p"
    using assms(1,2) by (simp_all add: alive_ok_def Let_def split: if_splits)
  ultimately show ?thesis using assms(4) p'(1-3) by (simp add: alive_ok_def Let_def) (simp add: p'(4))
qed

lemma takes_ok:
  assumes "alive_ok w" "elected (cw_tasks w) = [p]" "takes p (cw_lanes w) ps c' fs" "elected ts = ps"
  shows "alive_ok (w\<lparr>cw_lanes := c', cw_tasks := ts, cw_drained := cw_drained w @ fs\<rparr>)"
proof -
  obtain ord p' where t: "legal_order ord (cw_lanes w)" "ps = [p']" "unwritten p = []" "in_flight p = 0"
      "fs = drained_frames ord (cw_lanes w)" "unwritten p' = concat (map snd fs)"
      "in_flight p' = length (unwritten p')" "c' = (cw_lanes w)\<lparr>co_control := [], co_monitor := Map.empty\<rparr>"
    using assms(3) by (auto simp: takes_def)
  then show ?thesis
    using assms(1,2,4) takes_lane_bytes [OF t(1)]
    by (auto simp: alive_ok_def logs_ok_def Let_def control_of_append monitor_of_append drained_logs [OF t(1)]
        slot_def lanes_empty_def lane_bytes_def)
qed

lemma release_ok:
  assumes "alive_ok w" "elected (cw_tasks w) = [p]" "unwritten p = []" "in_flight p = 0" "lanes_empty (cw_lanes w)"
    and "elected ts = []"
  shows "alive_ok (w\<lparr>cw_lanes := (cw_lanes w)\<lparr>co_flushing := False\<rparr>, cw_tasks := ts\<rparr>)"
  using assms by (auto simp: alive_ok_def logs_ok_def lanes_empty_def lane_bytes_def slot_def Let_def)

lemma advance_ok:
  assumes "writer_ok w" "advance i ans w = Some w'"
  shows "writer_ok w'"
proof -
  let ?c = "cw_lanes w"
  define xs ys p where "xs = take i (cw_tasks w)" and "ys = drop (Suc i) (cw_tasks w)" and "p = cw_tasks w ! i"
  have i: "i < length (cw_tasks w)" using assms(2) by (auto simp: advance_def Let_def split: if_splits)
  have ts: "cw_tasks w = xs @ p # ys" using i by (simp add: xs_def ys_def p_def id_take_nth_drop)
  obtain ps c' bs fs where step: "flush_step (list_ex holds_lock (xs @ ys)) ans p ?c = Some (ps, c', bs, fs)"
    and w': "w' = w\<lparr>cw_lanes := c', cw_tasks := xs @ ps @ ys, cw_wire := cw_wire w @ bs, cw_drained := cw_drained w @ fs\<rparr>"
    using assms(2) i by (auto simp: advance_def Let_def xs_def ys_def p_def split: option.splits)
  have lock: "length (filter holds_lock (cw_tasks w')) \<le> 1"
    using assms(1) flush_step_lock [OF step] by (auto simp: writer_ok_def w' ts list_ex_iff filter_empty_conv split: if_splits)
  show ?thesis
  proof (cases "p = P_Done")
    case True
    then have "ps = [] \<and> c' = ?c \<and> bs = [] \<and> fs = []" using step by (auto split: answer.splits)
    then show ?thesis
      using assms(1) lock True by (auto simp: writer_ok_def alive_ok_def dead_ok_def logs_ok_def w' ts Let_def)
  next
    case False
    then have alive: "\<not> co_dead ?c" "alive_ok w" and fin: "finite (dom (co_monitor ?c))"
      using assms(1) by (auto simp: writer_ok_def dead_ok_def ts Let_def split: if_splits)
    then have E: "co_flushing ?c" "elected xs = []" "elected ys = []"
      using False by (auto simp: alive_ok_def ts Let_def split: if_splits)
    then have one: "elected (cw_tasks w) = [p]" using False by (simp add: ts)
    from flush_step_cases [OF step False] show ?thesis
    proof (elim disjE conjE)
      assume "fs = []" "goes_on p ?c ps c' bs"
      then have "alive_ok w'" "finite (dom (co_monitor c'))" "\<not> co_dead c'"
        using goes_on_ok [OF alive(2) one, of ps c' bs "xs @ ps @ ys"] E fin alive
        by (auto simp: w' goes_on_def)
      then show ?thesis using lock by (simp add: writer_ok_def w')
    next
      assume "ps = []" "c' = mark_dead ?c" "bs = []" "fs = []"
      then show ?thesis
        using dead_of_alive [OF alive(2), of w'] E lock by (simp add: writer_ok_def w' mark_dead_def)
    next
      assume "bs = []" "takes p ?c ps c' fs"
      then show ?thesis
        using takes_ok [OF alive(2) one, of ps c' fs "xs @ ps @ ys"] E alive lock
        by (auto simp: writer_ok_def w' takes_def)
    next
      assume "bs = []" "unwritten p = []" "in_flight p = 0" "lanes_empty ?c" "ps = [P_Done]" "fs = []"
        "c' = ?c\<lparr>co_flushing := False\<rparr>"
      then show ?thesis
        using release_ok [OF alive(2) one, of "xs @ ps @ ys"] E alive lock fin by (simp add: writer_ok_def w')
    qed
  qed
qed

lemma reachable_writer_ok: "reachable_writer w \<Longrightarrow> writer_ok w"
  by (induction rule: reachable_writer.induct)
    (auto intro: new_writer_ok send_control_ok send_monitor_ok advance_ok elim: flusher_step.cases)

section \<open>Progress\<close>

text \<open>A step in which nothing fails and no runtime is missing.\<close>

definition healthy :: "answer \<Rightarrow> bool" where
  "healthy ans \<longleftrightarrow> ans \<noteq> Fails \<and> ans \<noteq> Yields False"

lemma legal_order_ex: "finite (dom (co_monitor c)) \<Longrightarrow> \<exists>ord. legal_order ord c"
  unfolding legal_order_def by (metis finite_distinct_list)

lemma advance_at:
  assumes "cw_tasks w = xs @ p # ys" "flush_step (list_ex holds_lock (xs @ ys)) ans p (cw_lanes w) \<noteq> None"
  shows "\<exists>w'. advance (length xs) ans w = Some w'"
  using assms by (auto simp: advance_def split: option.splits)

lemma unlocked_enabled:
  assumes "p \<noteq> P_Done" "finite (dom (co_monitor c))" "\<not> (locked \<and> (\<exists>batch off. p = P_Lock batch off))"
  shows "\<exists>ans. healthy ans \<and> flush_step locked ans p c \<noteq> None"
proof (cases p)
  case P_Try
  then show ?thesis
    by (intro exI [of _ "if locked then Yields True else Goes"]) (simp add: healthy_def split: prod.split)
next
  case (P_Drain k)
  obtain ord where "legal_order ord c" using legal_order_ex [OF assms(2)] by blast
  then show ?thesis
    using P_Drain by (intro exI [of _ "if k = 0 then Yields True else Order ord"])
      (auto simp: healthy_def drain_def split: prod.split option.split)
next
  case (P_Poll k batch off)
  then show ?thesis
    by (intro exI [of _ "if off < length batch then Accepts 1 else Goes"]) (auto simp: healthy_def)
next
  case (P_Cont batch off)
  then show ?thesis
    by (intro exI [of _ "if off < length batch then Accepts 1 else Goes"]) (auto simp: healthy_def)
next
  case P_Next
  obtain ord where "legal_order ord c" using legal_order_ex [OF assms(2)] by blast
  then show ?thesis
    using P_Next by (intro exI [of _ "Order ord"]) (auto simp: healthy_def drain_def split: prod.split option.split)
qed (use assms in \<open>auto intro!: exI [of _ Goes] simp: healthy_def\<close>)

lemma flusher_enabled:
  assumes "writer_ok w" "co_flushing (cw_lanes w)"
  shows "\<exists>i ans w'. healthy ans \<and> advance i ans w = Some w'"
proof -
  have alive: "\<not> co_dead (cw_lanes w)" "alive_ok w" and fin: "finite (dom (co_monitor (cw_lanes w)))"
    using assms by (auto simp: writer_ok_def dead_ok_def Let_def split: if_splits)
  then obtain p where E: "elected (cw_tasks w) = [p]"
    using assms(2) by (auto simp: alive_ok_def Let_def length_Suc_conv)
  then have "p \<in> set (elected (cw_tasks w))" by simp
  then have p: "p \<in> set (cw_tasks w)" "p \<noteq> P_Done" by (simp_all add: elected_def)
  obtain xs ys where ts: "cw_tasks w = xs @ p # ys" using split_list [OF p(1)] by blast
  then have others: "elected (xs @ ys) = []" using E p(2) by (auto simp: append_eq_Cons_conv)
  show ?thesis
  proof (cases "list_ex holds_lock (xs @ ys) \<and> (\<exists>batch off. p = P_Lock batch off)")
    case False
    then show ?thesis using unlocked_enabled [OF p(2) fin False] advance_at [OF ts] by blast
  next
    case True
    then have "P_Done \<in> set (cw_tasks w)"
      using others by (auto simp: list_ex_iff elected_def filter_empty_conv ts)
    then obtain us vs where "cw_tasks w = us @ P_Done # vs" using split_list by fast
    then have "\<exists>w'. advance (length us) Goes w = Some w'" by (rule advance_at) simp
    then show ?thesis by (intro exI [of _ "length us"] exI [of _ Goes]) (simp add: healthy_def)
  qed
qed

text \<open>Every run of the flusher without new deposits ends: a drain empties the lanes, a write shortens the
  batch, and any other step goes down the ranks.\<close>

fun rank :: "phase \<Rightarrow> nat" where
  "rank P_Done = 1"
| "rank P_Next = 2"
| "rank (P_Cont _ _) = 3"
| "rank (P_Lock _ _) = 4"
| "rank (P_Drain k) = 5 + 2 * k"
| "rank (P_Poll k _ _) = 6 + 2 * k"
| "rank P_Try = 6 + 2 * INLINE_BATCH_LIMIT"

definition writer_measure :: "conn_writer \<Rightarrow> nat \<times> nat \<times> nat" where
  "writer_measure w = (if lanes_empty (cw_lanes w) then 0 else 1,
     sum_list (map (length \<circ> unwritten) (cw_tasks w)), sum_list (map rank (cw_tasks w)))"

lemma flush_step_decreases:
  assumes "flush_step locked ans p c = Some (ps, c', bs, fs)"
  shows "lanes_empty c' \<and> \<not> lanes_empty c \<or> (lanes_empty c' \<or> \<not> lanes_empty c) \<and>
    (sum_list (map (length \<circ> unwritten) ps) < length (unwritten p) \<or>
     sum_list (map (length \<circ> unwritten) ps) \<le> length (unwritten p) \<and> sum_list (map rank ps) < rank p)"
proof (cases p)
  case (P_Drain k)
  then show ?thesis
    using assms by (auto simp: hand_off_def drain_def take_batch_def mark_dead_def lanes_empty_def
        split: if_splits answer.splits)
next
  case P_Next
  then show ?thesis
    using assms by (auto simp: drain_def take_batch_def mark_dead_def lanes_empty_def split: if_splits answer.splits)
qed (use assms in \<open>auto simp: hand_off_def mark_dead_def wrote_def lanes_empty_def split: if_splits answer.splits\<close>)

lemma advance_decreases:
  assumes "advance i ans w = Some w'"
  shows "(writer_measure w', writer_measure w) \<in> less_than <*lex*> less_than <*lex*> less_than"
proof -
  define xs ys p where "xs = take i (cw_tasks w)" and "ys = drop (Suc i) (cw_tasks w)" and "p = cw_tasks w ! i"
  have i: "i < length (cw_tasks w)" using assms by (auto simp: advance_def Let_def split: if_splits)
  have ts: "cw_tasks w = xs @ p # ys" using i by (simp add: xs_def ys_def p_def id_take_nth_drop)
  obtain ps c' bs fs where step: "flush_step (list_ex holds_lock (xs @ ys)) ans p (cw_lanes w) = Some (ps, c', bs, fs)"
    and w': "w' = w\<lparr>cw_lanes := c', cw_tasks := xs @ ps @ ys, cw_wire := cw_wire w @ bs, cw_drained := cw_drained w @ fs\<rparr>"
    using assms i by (auto simp: advance_def Let_def xs_def ys_def p_def split: option.splits)
  show ?thesis using flush_step_decreases [OF step] by (auto simp: writer_measure_def w' ts)
qed

lemma no_infinite_flush: "\<not> (\<exists>run. run 0 = w \<and> (\<forall>n. flusher_step (run n) (run (Suc n))))"
proof
  assume "\<exists>run. run 0 = w \<and> (\<forall>n. flusher_step (run n) (run (Suc n)))"
  then obtain run where "\<forall>n. flusher_step (run n) (run (Suc n))" by blast
  then have "(writer_measure (run (Suc n)), writer_measure (run n)) \<in> less_than <*lex*> less_than <*lex*> less_than" for n
    by (meson advance_decreases flusher_step.cases)
  moreover have "wf (less_than <*lex*> less_than <*lex*> less_than)" by (intro wf_lex_prod wf_less_than)
  ultimately show False
    using wf_iff_no_infinite_down_chain [of "less_than <*lex*> less_than <*lex*> less_than"] by fast
qed

text \<open>What an idle writer has done: the socket has every frame of the control lane in the order of the
  deposits, the last frame of every request, and nothing else.\<close>

definition delivered :: "conn_writer \<Rightarrow> bool" where
  "delivered w \<longleftrightarrow>
     cw_wire w = concat (map snd (cw_drained w)) \<and> control_of (cw_drained w) = cw_control_log w \<and>
     (\<forall>ioid. cw_monitor_log w ioid = [] \<or>
        monitor_of ioid (cw_drained w) \<noteq> [] \<and> last (monitor_of ioid (cw_drained w)) = last (cw_monitor_log w ioid)) \<and>
     co_backlog (cw_lanes w) = 0 \<and> backpressure_passes (cw_lanes w)"

lemma idle_delivered:
  assumes "writer_ok w" "\<not> co_dead (cw_lanes w)" "\<not> co_flushing (cw_lanes w)"
  shows "delivered w"
  using assms
  by (auto simp: writer_ok_def alive_ok_def logs_ok_def delivered_def lanes_empty_def lane_bytes_def slot_def
      backpressure_passes_def Let_def split: if_splits)

lemma writer_stream:
  assumes "writer_ok w"
  shows "prefix (cw_wire w) (concat (map snd (cw_drained w)))" "prefix (control_of (cw_drained w)) (cw_control_log w)"
    "subseq (monitor_of ioid (cw_drained w)) (cw_monitor_log w ioid)"
proof -
  have "prefix (cw_wire w) (concat (map snd (cw_drained w))) \<and> prefix (control_of (cw_drained w)) (cw_control_log w) \<and>
      subseq (monitor_of ioid (cw_drained w)) (cw_monitor_log w ioid)"
  proof (cases "co_dead (cw_lanes w)")
    case True
    then show ?thesis using assms by (simp add: writer_ok_def dead_ok_def Let_def)
  next
    case False
    then have ok: "alive_ok w" using assms by (simp add: writer_ok_def)
    then have "subseq (monitor_of ioid (cw_drained w) @ slot ioid (cw_lanes w)) (cw_monitor_log w ioid)"
      by (simp add: alive_ok_def logs_ok_def Let_def)
    then have "subseq (monitor_of ioid (cw_drained w)) (cw_monitor_log w ioid)"
      by (rule subseq_order.trans [rotated]) (simp add: prefix_imp_subseq)
    then show ?thesis using ok by (auto simp: alive_ok_def logs_ok_def Let_def intro: prefixI [OF sym])
  qed
  then show "prefix (cw_wire w) (concat (map snd (cw_drained w)))" "prefix (control_of (cw_drained w)) (cw_control_log w)"
    "subseq (monitor_of ioid (cw_drained w)) (cw_monitor_log w ioid)" by simp_all
qed

text \<open>C37: the writer of a connection delivers. Whatever deposits and socket answers came, in any
  interleaving, the socket has been given a prefix of whole frames that keeps the control frames all and in
  order and the monitor frames of every request in order; as long as the connection is alive and a frame
  waits or an election is held, exactly one task holds the election, and some task can go on without any
  failure, so that no frame is ever left behind without a flusher; no run of the flusher is infinite; and
  where a live writer comes to rest every control frame and the last frame of every request has been
  written and the backlog is empty.\<close>

theorem writer_delivers:
  assumes "reachable_writer w"
  shows "(prefix (cw_wire w) (concat (map snd (cw_drained w))) \<and>
      prefix (control_of (cw_drained w)) (cw_control_log w) \<and>
      (\<forall>ioid. subseq (monitor_of ioid (cw_drained w)) (cw_monitor_log w ioid))) \<and>
    (\<not> co_dead (cw_lanes w) \<longrightarrow>
      (if co_flushing (cw_lanes w) \<or> \<not> lanes_empty (cw_lanes w)
       then length (elected (cw_tasks w)) = 1 \<and> (\<exists>i ans w'. healthy ans \<and> advance i ans w = Some w')
       else delivered w)) \<and>
    \<not> (\<exists>run. run 0 = w \<and> (\<forall>n. flusher_step (run n) (run (Suc n))))"
proof -
  have ok: "writer_ok w" by (rule reachable_writer_ok [OF assms])
  have "(if co_flushing (cw_lanes w) \<or> \<not> lanes_empty (cw_lanes w)
      then length (elected (cw_tasks w)) = 1 \<and> (\<exists>i ans w'. healthy ans \<and> advance i ans w = Some w')
      else delivered w)" if "\<not> co_dead (cw_lanes w)"
  proof (cases "co_flushing (cw_lanes w)")
    case True
    then show ?thesis
      using ok that flusher_enabled [OF ok True] by (simp add: writer_ok_def alive_ok_def Let_def)
  next
    case False
    then show ?thesis
      using ok that idle_delivered [OF ok that False] by (simp add: writer_ok_def alive_ok_def Let_def)
  qed
  then show ?thesis using writer_stream [OF ok] no_infinite_flush by blast
qed

definition sample_writer :: conn_writer where
  "sample_writer = send_monitor 5 [3, 4] (send_monitor 5 [2] (send_control [1] conn_writer_new))"

theorem writer_delivers_witness:
  "reachable_writer sample_writer \<and> co_monitor (cw_lanes sample_writer) 5 = Some [3, 4] \<and>
   elected (cw_tasks sample_writer) = [P_Try] \<and>
   (\<exists>i ans w'. healthy ans \<and> advance i ans sample_writer = Some w')"
proof -
  have r: "reachable_writer sample_writer" unfolding sample_writer_def by (intro reachable_writer.intros)
  have "co_monitor (cw_lanes sample_writer) 5 = Some [3, 4]" "elected (cw_tasks sample_writer) = [P_Try]"
      "\<not> co_dead (cw_lanes sample_writer)" "co_flushing (cw_lanes sample_writer)"
    by (simp_all add: sample_writer_def send_monitor_def send_control_def deposit_monitor_def deposit_control_def
        conn_writer_new_def coalesce_default_def Let_def)
  then show ?thesis using writer_delivers [OF r] r by simp
qed

end
