(* ===== verification/Nt_Encode.thy ===== *)
theory Nt_Encode
  imports Nt_Types Pvd_Types
begin

text \<open>
  The Normative Type encoders of \<^verbatim>\<open>spvirit-codec/src/spvd_encode.rs\<close>: the descriptor of
  each payload kind and the bytes of its full value.

  The clock that \<^verbatim>\<open>scalar_stamp\<close> reads when a scalar has no timestamp is the argument
  \<open>now\<close> (seconds and nanoseconds) of the encoders that may read it.
\<close>

section \<open>Descriptors\<close>

definition alarm_desc :: structure_desc where
  "alarm_desc = StructureDesc (Some ''alarm_t'')
     [FieldDesc ''severity'' (FT_Scalar TC_Int32),
      FieldDesc ''status'' (FT_Scalar TC_Int32),
      FieldDesc ''message'' FT_String]"

definition timestamp_desc :: structure_desc where
  "timestamp_desc = StructureDesc (Some ''time_t'')
     [FieldDesc ''secondsPastEpoch'' (FT_Scalar TC_Int64),
      FieldDesc ''nanoseconds'' (FT_Scalar TC_Int32),
      FieldDesc ''userTag'' (FT_Scalar TC_Int32)]"

definition enum_t_desc :: structure_desc where
  "enum_t_desc = StructureDesc (Some ''enum_t'')
     [FieldDesc ''index'' (FT_Scalar TC_Int32),
      FieldDesc ''choices'' FT_StringArray]"

definition display_desc :: structure_desc where
  "display_desc = StructureDesc (Some ''display_t'')
     [FieldDesc ''limitLow'' (FT_Scalar TC_Float64),
      FieldDesc ''limitHigh'' (FT_Scalar TC_Float64),
      FieldDesc ''description'' FT_String,
      FieldDesc ''units'' FT_String,
      FieldDesc ''precision'' (FT_Scalar TC_Int32),
      FieldDesc ''form'' (FT_Structure enum_t_desc)]"

definition control_desc :: structure_desc where
  "control_desc = StructureDesc (Some ''control_t'')
     [FieldDesc ''limitLow'' (FT_Scalar TC_Float64),
      FieldDesc ''limitHigh'' (FT_Scalar TC_Float64),
      FieldDesc ''minStep'' (FT_Scalar TC_Float64)]"

definition value_alarm_desc :: structure_desc where
  "value_alarm_desc = StructureDesc (Some ''valueAlarm_t'')
     [FieldDesc ''active'' (FT_Scalar TC_Boolean),
      FieldDesc ''lowAlarmLimit'' (FT_Scalar TC_Float64),
      FieldDesc ''lowWarningLimit'' (FT_Scalar TC_Float64),
      FieldDesc ''highWarningLimit'' (FT_Scalar TC_Float64),
      FieldDesc ''highAlarmLimit'' (FT_Scalar TC_Float64),
      FieldDesc ''lowAlarmSeverity'' (FT_Scalar TC_Int32),
      FieldDesc ''lowWarningSeverity'' (FT_Scalar TC_Int32),
      FieldDesc ''highWarningSeverity'' (FT_Scalar TC_Int32),
      FieldDesc ''highAlarmSeverity'' (FT_Scalar TC_Int32),
      FieldDesc ''hysteresis'' (FT_Scalar TC_UInt8)]"

fun scalar_value_type_code :: "scalar_value \<Rightarrow> type_code" where
  "scalar_value_type_code (SV_Bool _) = TC_Boolean"
| "scalar_value_type_code (SV_I8 _) = TC_Int8"
| "scalar_value_type_code (SV_I16 _) = TC_Int16"
| "scalar_value_type_code (SV_I32 _) = TC_Int32"
| "scalar_value_type_code (SV_I64 _) = TC_Int64"
| "scalar_value_type_code (SV_U8 _) = TC_UInt8"
| "scalar_value_type_code (SV_U16 _) = TC_UInt16"
| "scalar_value_type_code (SV_U32 _) = TC_UInt32"
| "scalar_value_type_code (SV_U64 _) = TC_UInt64"
| "scalar_value_type_code (SV_F32 _) = TC_Float32"
| "scalar_value_type_code (SV_F64 _) = TC_Float64"
| "scalar_value_type_code (SV_Str _) = TC_String"

fun scalar_array_field_type :: "scalar_array_value \<Rightarrow> field_type" where
  "scalar_array_field_type (SA_Bool _) = FT_ScalarArray TC_Boolean"
| "scalar_array_field_type (SA_I8 _) = FT_ScalarArray TC_Int8"
| "scalar_array_field_type (SA_I16 _) = FT_ScalarArray TC_Int16"
| "scalar_array_field_type (SA_I32 _) = FT_ScalarArray TC_Int32"
| "scalar_array_field_type (SA_I64 _) = FT_ScalarArray TC_Int64"
| "scalar_array_field_type (SA_U8 _) = FT_ScalarArray TC_UInt8"
| "scalar_array_field_type (SA_U16 _) = FT_ScalarArray TC_UInt16"
| "scalar_array_field_type (SA_U32 _) = FT_ScalarArray TC_UInt32"
| "scalar_array_field_type (SA_U64 _) = FT_ScalarArray TC_UInt64"
| "scalar_array_field_type (SA_F32 _) = FT_ScalarArray TC_Float32"
| "scalar_array_field_type (SA_F64 _) = FT_ScalarArray TC_Float64"
| "scalar_array_field_type (SA_Str _) = FT_StringArray"

fun nt_scalar_value_type :: "scalar_value \<Rightarrow> field_type" where
  "nt_scalar_value_type (SV_Bool _) = FT_Scalar TC_Boolean"
| "nt_scalar_value_type (SV_I8 _) = FT_Scalar TC_Int8"
| "nt_scalar_value_type (SV_I16 _) = FT_Scalar TC_Int16"
| "nt_scalar_value_type (SV_I32 _) = FT_Scalar TC_Int32"
| "nt_scalar_value_type (SV_I64 _) = FT_Scalar TC_Int64"
| "nt_scalar_value_type (SV_U8 _) = FT_Scalar TC_UInt8"
| "nt_scalar_value_type (SV_U16 _) = FT_Scalar TC_UInt16"
| "nt_scalar_value_type (SV_U32 _) = FT_Scalar TC_UInt32"
| "nt_scalar_value_type (SV_U64 _) = FT_Scalar TC_UInt64"
| "nt_scalar_value_type (SV_F32 _) = FT_Scalar TC_Float32"
| "nt_scalar_value_type (SV_F64 _) = FT_Scalar TC_Float64"
| "nt_scalar_value_type (SV_Str _) = FT_String"

definition nt_scalar_desc :: "scalar_value \<Rightarrow> structure_desc" where
  "nt_scalar_desc v = StructureDesc (Some ''epics:nt/NTScalar:1.0'')
     [FieldDesc ''value'' (nt_scalar_value_type v),
      FieldDesc ''alarm'' (FT_Structure alarm_desc),
      FieldDesc ''timeStamp'' (FT_Structure timestamp_desc),
      FieldDesc ''display'' (FT_Structure display_desc),
      FieldDesc ''control'' (FT_Structure control_desc),
      FieldDesc ''valueAlarm'' (FT_Structure value_alarm_desc)]"

definition nt_scalar_array_desc :: "scalar_array_value \<Rightarrow> structure_desc" where
  "nt_scalar_array_desc v = StructureDesc (Some ''epics:nt/NTScalarArray:1.0'')
     [FieldDesc ''value'' (scalar_array_field_type v),
      FieldDesc ''alarm'' (FT_Structure alarm_desc),
      FieldDesc ''timeStamp'' (FT_Structure timestamp_desc),
      FieldDesc ''display'' (FT_Structure display_desc),
      FieldDesc ''control'' (FT_Structure control_desc)]"

definition nt_table_desc :: "nt_table \<Rightarrow> structure_desc" where
  "nt_table_desc nt = StructureDesc (Some ''epics:nt/NTTable:1.0'')
     [FieldDesc ''labels'' FT_StringArray,
      FieldDesc ''value'' (FT_Structure (StructureDesc None
        (map (\<lambda>col. FieldDesc (tc_name col) (scalar_array_field_type (tc_values col))) (tb_columns nt)))),
      FieldDesc ''descriptor'' FT_String,
      FieldDesc ''alarm'' (FT_Structure alarm_desc),
      FieldDesc ''timeStamp'' (FT_Structure timestamp_desc)]"

definition nt_ndarray_value_union_fields :: "field_desc list" where
  "nt_ndarray_value_union_fields =
     [FieldDesc ''booleanValue'' (FT_ScalarArray TC_Boolean),
      FieldDesc ''byteValue'' (FT_ScalarArray TC_Int8),
      FieldDesc ''shortValue'' (FT_ScalarArray TC_Int16),
      FieldDesc ''intValue'' (FT_ScalarArray TC_Int32),
      FieldDesc ''longValue'' (FT_ScalarArray TC_Int64),
      FieldDesc ''ubyteValue'' (FT_ScalarArray TC_UInt8),
      FieldDesc ''ushortValue'' (FT_ScalarArray TC_UInt16),
      FieldDesc ''uintValue'' (FT_ScalarArray TC_UInt32),
      FieldDesc ''ulongValue'' (FT_ScalarArray TC_UInt64),
      FieldDesc ''floatValue'' (FT_ScalarArray TC_Float32),
      FieldDesc ''doubleValue'' (FT_ScalarArray TC_Float64),
      FieldDesc ''stringValue'' FT_StringArray]"

fun ndarray_union_index :: "scalar_array_value \<Rightarrow> nat" where
  "ndarray_union_index (SA_Bool _) = 0"
| "ndarray_union_index (SA_I8 _) = 1"
| "ndarray_union_index (SA_I16 _) = 2"
| "ndarray_union_index (SA_I32 _) = 3"
| "ndarray_union_index (SA_I64 _) = 4"
| "ndarray_union_index (SA_U8 _) = 5"
| "ndarray_union_index (SA_U16 _) = 6"
| "ndarray_union_index (SA_U32 _) = 7"
| "ndarray_union_index (SA_U64 _) = 8"
| "ndarray_union_index (SA_F32 _) = 9"
| "ndarray_union_index (SA_F64 _) = 10"
| "ndarray_union_index (SA_Str _) = 11"

definition codec_desc :: structure_desc where
  "codec_desc = StructureDesc (Some ''codec_t'')
     [FieldDesc ''name'' FT_String, FieldDesc ''parameters'' FT_Variant]"

definition dimension_desc :: structure_desc where
  "dimension_desc = StructureDesc (Some ''dimension_t'')
     [FieldDesc ''size'' (FT_Scalar TC_Int32),
      FieldDesc ''offset'' (FT_Scalar TC_Int32),
      FieldDesc ''fullSize'' (FT_Scalar TC_Int32),
      FieldDesc ''binning'' (FT_Scalar TC_Int32),
      FieldDesc ''reverse'' (FT_Scalar TC_Boolean)]"

definition attribute_desc :: structure_desc where
  "attribute_desc = StructureDesc (Some ''NTAttribute'')
     [FieldDesc ''name'' FT_String,
      FieldDesc ''value'' FT_Variant,
      FieldDesc ''descriptor'' FT_String,
      FieldDesc ''sourceType'' (FT_Scalar TC_Int32),
      FieldDesc ''source'' FT_String]"

definition nt_ndarray_desc :: structure_desc where
  "nt_ndarray_desc = StructureDesc (Some ''epics:nt/NTNDArray:1.0'')
     [FieldDesc ''value'' (FT_Union nt_ndarray_value_union_fields),
      FieldDesc ''codec'' (FT_Structure codec_desc),
      FieldDesc ''compressedSize'' (FT_Scalar TC_Int64),
      FieldDesc ''uncompressedSize'' (FT_Scalar TC_Int64),
      FieldDesc ''dimension'' (FT_StructureArray dimension_desc),
      FieldDesc ''uniqueId'' (FT_Scalar TC_Int32),
      FieldDesc ''dataTimeStamp'' (FT_Structure timestamp_desc),
      FieldDesc ''attribute'' (FT_StructureArray attribute_desc),
      FieldDesc ''descriptor'' FT_String,
      FieldDesc ''alarm'' (FT_Structure alarm_desc),
      FieldDesc ''timeStamp'' (FT_Structure timestamp_desc),
      FieldDesc ''display'' (FT_Structure display_desc)]"

definition nt_enum_desc :: structure_desc where
  "nt_enum_desc = StructureDesc (Some ''epics:nt/NTEnum:1.0'')
     [FieldDesc ''value'' (FT_Structure enum_t_desc),
      FieldDesc ''alarm'' (FT_Structure alarm_desc),
      FieldDesc ''timeStamp'' (FT_Structure timestamp_desc)]"

lemma pv_field_size:
  "(n, v) \<in> set fs \<Longrightarrow> size v < size_list (size_prod (\<lambda>_. 0) size) fs"
  by (induction fs) auto

function pv_value_desc :: "string \<Rightarrow> (string \<times> pv_value) list \<Rightarrow> structure_desc"
  and pv_value_field_type :: "pv_value \<Rightarrow> field_type" where
  "pv_value_desc sid fs = StructureDesc (if sid = [] then None else Some sid)
     (map (\<lambda>(name, val). FieldDesc name (pv_value_field_type val)) fs)"
| "pv_value_field_type (PV_Scalar sv) =
     (case sv of SV_Str _ \<Rightarrow> FT_String | _ \<Rightarrow> FT_Scalar (scalar_value_type_code sv))"
| "pv_value_field_type (PV_ScalarArray sa) = scalar_array_field_type sa"
| "pv_value_field_type (PV_Structure sid fs) = FT_Structure (pv_value_desc sid fs)"
  by pat_completeness auto
termination
  by (relation "measure (\<lambda>x. case x of Inl (sid, fs) \<Rightarrow> size_list (size_prod (\<lambda>_. 0) size) fs | Inr v \<Rightarrow> size v)")
    (auto dest!: pv_field_size)

fun nt_payload_desc :: "nt_payload \<Rightarrow> structure_desc" where
  "nt_payload_desc (NT_Scalar nt) = nt_scalar_desc (ns_value nt)"
| "nt_payload_desc (NT_ScalarArray nt) = nt_scalar_array_desc (na_value nt)"
| "nt_payload_desc (NT_Table nt) = nt_table_desc nt"
| "nt_payload_desc (NT_NdArray nt) = nt_ndarray_desc"
| "nt_payload_desc (NT_Enum nt) = nt_enum_desc"
| "nt_payload_desc (NT_Generic sid fs) = pv_value_desc sid fs"

section \<open>Scalars, strings and arrays\<close>

fun encode_scalar_value :: "scalar_value \<Rightarrow> bool \<Rightarrow> bytes" where
  "encode_scalar_value (SV_Bool v) be = [if v then 1 else 0]"
| "encode_scalar_value (SV_I8 v) be = [v]"
| "encode_scalar_value (SV_I16 v) be = to_bytes be v"
| "encode_scalar_value (SV_I32 v) be = to_bytes be v"
| "encode_scalar_value (SV_I64 v) be = to_bytes be v"
| "encode_scalar_value (SV_U8 v) be = [v]"
| "encode_scalar_value (SV_U16 v) be = to_bytes be v"
| "encode_scalar_value (SV_U32 v) be = to_bytes be v"
| "encode_scalar_value (SV_U64 v) be = to_bytes be v"
| "encode_scalar_value (SV_F32 v) be = to_bytes be v"
| "encode_scalar_value (SV_F64 v) be = to_bytes be v"
| "encode_scalar_value (SV_Str v) be = encode_string v be"

definition encode_bool :: "bool \<Rightarrow> bytes" where
  "encode_bool v = [if v then 1 else 0]"

definition encode_i32 :: "i32 \<Rightarrow> bool \<Rightarrow> bytes" where
  "encode_i32 v be = to_bytes be v"

definition encode_i64 :: "i64 \<Rightarrow> bool \<Rightarrow> bytes" where
  "encode_i64 v be = to_bytes be v"

definition encode_f64 :: "f64 \<Rightarrow> bool \<Rightarrow> bytes" where
  "encode_f64 v be = to_bytes be v"

definition push_string_array :: "bytes \<Rightarrow> string list \<Rightarrow> bool \<Rightarrow> bytes" where
  "push_string_array out vs be = fold (\<lambda>v out. push_string out v be) vs (push_size out (length vs) be)"

definition encode_string_array :: "string list \<Rightarrow> bool \<Rightarrow> bytes" where
  "encode_string_array vs be = push_string_array [] vs be"

definition encode_enum :: "i32 \<Rightarrow> string list \<Rightarrow> bool \<Rightarrow> bytes" where
  "encode_enum index choices be = encode_i32 index be @ encode_string_array choices be"

definition push_fixed_width :: "bytes \<Rightarrow> ('a::len) word list \<Rightarrow> bool \<Rightarrow> bytes" where
  "push_fixed_width out vs be = fold (\<lambda>v out. out @ to_bytes be v) vs (push_size out (length vs) be)"

fun push_scalar_array_value_pvd :: "bytes \<Rightarrow> scalar_array_value \<Rightarrow> bool \<Rightarrow> bytes" where
  "push_scalar_array_value_pvd out (SA_Bool v) be =
     push_size out (length v) be @ map (\<lambda>b. if b then 1 else 0) v"
| "push_scalar_array_value_pvd out (SA_I8 v) be = push_size out (length v) be @ v"
| "push_scalar_array_value_pvd out (SA_I16 v) be = push_fixed_width out v be"
| "push_scalar_array_value_pvd out (SA_I32 v) be = push_fixed_width out v be"
| "push_scalar_array_value_pvd out (SA_I64 v) be = push_fixed_width out v be"
| "push_scalar_array_value_pvd out (SA_U8 v) be = push_size out (length v) be @ v"
| "push_scalar_array_value_pvd out (SA_U16 v) be = push_fixed_width out v be"
| "push_scalar_array_value_pvd out (SA_U32 v) be = push_fixed_width out v be"
| "push_scalar_array_value_pvd out (SA_U64 v) be = push_fixed_width out v be"
| "push_scalar_array_value_pvd out (SA_F32 v) be = push_fixed_width out v be"
| "push_scalar_array_value_pvd out (SA_F64 v) be = push_fixed_width out v be"
| "push_scalar_array_value_pvd out (SA_Str v) be = push_string_array out v be"

section \<open>Parts of an NTScalar\<close>

type_synonym clock = "i64 \<times> i32"

definition encode_alarm :: "nt_scalar \<Rightarrow> bool \<Rightarrow> bytes" where
  "encode_alarm nt be = encode_i32 (ns_alarm_severity nt) be @ encode_i32 (ns_alarm_status nt) be
     @ encode_string (ns_alarm_message nt) be"

definition scalar_stamp :: "clock \<Rightarrow> nt_scalar \<Rightarrow> i64 \<times> i32 \<times> i32" where
  "scalar_stamp now nt =
     (case ns_time_stamp nt of
        Some ts \<Rightarrow> (ts_seconds ts, ts_nanoseconds ts, ts_user_tag ts)
      | None \<Rightarrow> (fst now, snd now, 0))"

definition encode_timestamp :: "clock \<Rightarrow> nt_scalar \<Rightarrow> bool \<Rightarrow> bytes" where
  "encode_timestamp now nt be =
     (case scalar_stamp now nt of (secs, nanos, user_tag) \<Rightarrow>
        encode_i64 secs be @ encode_i32 nanos be @ encode_i32 user_tag be)"

definition encode_display :: "nt_scalar \<Rightarrow> bool \<Rightarrow> bytes" where
  "encode_display nt be =
     encode_f64 (ns_display_low nt) be @ encode_f64 (ns_display_high nt) be
     @ encode_string (ns_display_description nt) be @ encode_string (ns_units nt) be
     @ encode_i32 (ns_display_precision nt) be
     @ (if ns_display_form_choices nt = []
        then encode_enum (ns_display_form_index nt) STANDARD_FORM_CHOICES be
        else encode_enum (ns_display_form_index nt) (ns_display_form_choices nt) be)"

definition encode_control :: "nt_scalar \<Rightarrow> bool \<Rightarrow> bytes" where
  "encode_control nt be = encode_f64 (ns_control_low nt) be @ encode_f64 (ns_control_high nt) be
     @ encode_f64 (ns_control_min_step nt) be"

definition encode_value_alarm :: "nt_scalar \<Rightarrow> bool \<Rightarrow> bytes" where
  "encode_value_alarm nt be =
     encode_bool (ns_va_active nt) @ encode_f64 (ns_va_low_alarm_limit nt) be
     @ encode_f64 (ns_va_low_warning_limit nt) be @ encode_f64 (ns_va_high_warning_limit nt) be
     @ encode_f64 (ns_va_high_alarm_limit nt) be @ encode_i32 (ns_va_low_alarm_severity nt) be
     @ encode_i32 (ns_va_low_warning_severity nt) be
     @ encode_i32 (ns_va_high_warning_severity nt) be
     @ encode_i32 (ns_va_high_alarm_severity nt) be @ [ns_va_hysteresis nt]"

definition push_nt_scalar_full :: "clock \<Rightarrow> bytes \<Rightarrow> nt_scalar \<Rightarrow> bool \<Rightarrow> bytes" where
  "push_nt_scalar_full now out nt be =
     out @ encode_scalar_value (ns_value nt) be @ encode_alarm nt be @ encode_timestamp now nt be
     @ encode_display nt be @ encode_control nt be @ encode_value_alarm nt be"

definition encode_nt_scalar_full :: "clock \<Rightarrow> nt_scalar \<Rightarrow> bool \<Rightarrow> bytes" where
  "encode_nt_scalar_full now nt be = push_nt_scalar_full now [] nt be"

section \<open>The other payload kinds\<close>

definition encode_nt_alarm :: "nt_alarm \<Rightarrow> bool \<Rightarrow> bytes" where
  "encode_nt_alarm a be = encode_i32 (al_severity a) be @ encode_i32 (al_status a) be
     @ encode_string (al_message a) be"

definition encode_nt_timestamp :: "nt_time_stamp \<Rightarrow> bool \<Rightarrow> bytes" where
  "encode_nt_timestamp ts be = encode_i64 (ts_seconds ts) be @ encode_i32 (ts_nanoseconds ts) be
     @ encode_i32 (ts_user_tag ts) be"

definition encode_nt_display :: "nt_display \<Rightarrow> bool \<Rightarrow> bytes" where
  "encode_nt_display d be =
     encode_f64 (di_limit_low d) be @ encode_f64 (di_limit_high d) be
     @ encode_string (di_description d) be @ encode_string (di_units d) be
     @ encode_i32 (di_precision d) be @ encode_enum 0 STANDARD_FORM_CHOICES be"

definition push_nt_scalar_array_full :: "bytes \<Rightarrow> nt_scalar_array \<Rightarrow> bool \<Rightarrow> bytes" where
  "push_nt_scalar_array_full out nt be =
     push_scalar_array_value_pvd out (na_value nt) be
     @ encode_nt_alarm (na_alarm nt) be @ encode_nt_timestamp (na_time_stamp nt) be
     @ encode_nt_display (na_display nt) be @ encode_f64 (co_limit_low (na_control nt)) be
     @ encode_f64 (co_limit_high (na_control nt)) be @ encode_f64 (co_min_step (na_control nt)) be"

definition encode_nt_scalar_array_full :: "nt_scalar_array \<Rightarrow> bool \<Rightarrow> bytes" where
  "encode_nt_scalar_array_full nt be = push_nt_scalar_array_full [] nt be"

definition or_default :: "'a \<Rightarrow> 'a option \<Rightarrow> 'a" where
  "or_default d x = (case x of None \<Rightarrow> d | Some y \<Rightarrow> y)"

definition push_nt_table_full :: "bytes \<Rightarrow> nt_table \<Rightarrow> bool \<Rightarrow> bytes" where
  "push_nt_table_full out nt be =
     fold (\<lambda>col out. push_scalar_array_value_pvd out (tc_values col) be) (tb_columns nt)
       (out @ encode_string_array (tb_labels nt) be)
     @ encode_string (or_default [] (tb_descriptor nt)) be
     @ encode_nt_alarm (or_default nt_alarm_default (tb_alarm nt)) be
     @ encode_nt_timestamp (or_default nt_time_stamp_default (tb_time_stamp nt)) be"

definition encode_nt_table_full :: "nt_table \<Rightarrow> bool \<Rightarrow> bytes" where
  "encode_nt_table_full nt be = push_nt_table_full [] nt be"

definition parameters_desc :: "string list \<Rightarrow> structure_desc" where
  "parameters_desc keys = StructureDesc None (map (\<lambda>k. FieldDesc k FT_String) keys)"

definition encode_codec_parameters :: "(string \<times> string) list \<Rightarrow> bool \<Rightarrow> bytes" where
  "encode_codec_parameters params be =
     (if params = [] then [0xFF]
      else let keys = sort (map fst params) in
        [0x80] @ encode_structure_desc (parameters_desc keys) be
        @ concat (map (\<lambda>k. encode_string (the (map_of params k)) be) keys))"

fun encode_attribute_variant :: "nt_attribute \<Rightarrow> bool \<Rightarrow> bytes" where
  "encode_attribute_variant attr be =
     (case at_value attr of
        SV_Bool v \<Rightarrow> [tc_as_u8 TC_Boolean] @ [if v then 1 else 0]
      | SV_I8 v \<Rightarrow> [tc_as_u8 TC_Int8] @ [v]
      | SV_I16 v \<Rightarrow> [tc_as_u8 TC_Int16] @ to_bytes be v
      | SV_I32 v \<Rightarrow> [tc_as_u8 TC_Int32] @ encode_i32 v be
      | SV_I64 v \<Rightarrow> [tc_as_u8 TC_Int64] @ encode_i64 v be
      | SV_U8 v \<Rightarrow> [tc_as_u8 TC_UInt8] @ [v]
      | SV_U16 v \<Rightarrow> [tc_as_u8 TC_UInt16] @ to_bytes be v
      | SV_U32 v \<Rightarrow> [tc_as_u8 TC_UInt32] @ to_bytes be v
      | SV_U64 v \<Rightarrow> [tc_as_u8 TC_UInt64] @ to_bytes be v
      | SV_F32 v \<Rightarrow> [tc_as_u8 TC_Float32] @ to_bytes be v
      | SV_F64 v \<Rightarrow> [tc_as_u8 TC_Float64] @ encode_f64 v be
      | SV_Str v \<Rightarrow> [tc_as_u8 TC_String] @ encode_string v be)"

definition encode_dimension :: "nd_dimension \<Rightarrow> bool \<Rightarrow> bytes" where
  "encode_dimension d be =
     [1] @ encode_i32 (nd_size d) be @ encode_i32 (nd_offset d) be @ encode_i32 (nd_full_size d) be
     @ encode_i32 (nd_binning d) be @ [if nd_reverse d then 1 else 0]"

definition encode_attribute :: "nt_attribute \<Rightarrow> bool \<Rightarrow> bytes" where
  "encode_attribute a be =
     [1] @ encode_string (at_name a) be @ encode_attribute_variant a be
     @ encode_string (at_descriptor a) be @ encode_i32 (at_source_type a) be
     @ encode_string (at_source a) be"

definition push_nt_ndarray_full :: "bytes \<Rightarrow> nt_nd_array \<Rightarrow> bool \<Rightarrow> bytes" where
  "push_nt_ndarray_full out nt be =
     push_scalar_array_value_pvd (push_size out (ndarray_union_index (nd_value nt)) be)
       (nd_value nt) be
     @ encode_string (cd_name (nd_codec nt)) be
     @ encode_codec_parameters (cd_parameters (nd_codec nt)) be
     @ encode_i64 (nd_compressed_size nt) be @ encode_i64 (nd_uncompressed_size nt) be
     @ encode_size (length (nd_dims nt)) be
     @ concat (map (\<lambda>d. encode_dimension d be) (nd_dims nt))
     @ encode_i32 (nd_unique_id nt) be @ encode_nt_timestamp (nd_data_time_stamp nt) be
     @ encode_size (length (nd_attributes nt)) be
     @ concat (map (\<lambda>a. encode_attribute a be) (nd_attributes nt))
     @ encode_string (or_default [] (nd_descriptor nt)) be
     @ encode_nt_alarm (or_default nt_alarm_default (nd_alarm nt)) be
     @ encode_nt_timestamp (or_default nt_time_stamp_default (nd_time_stamp nt)) be
     @ encode_nt_display (or_default nt_display_default (nd_display nt)) be"

definition encode_nt_ndarray_full :: "nt_nd_array \<Rightarrow> bool \<Rightarrow> bytes" where
  "encode_nt_ndarray_full nt be = push_nt_ndarray_full [] nt be"

definition push_nt_enum_full :: "bytes \<Rightarrow> nt_enum \<Rightarrow> bool \<Rightarrow> bytes" where
  "push_nt_enum_full out nt be =
     out @ encode_enum (en_index nt) (en_choices nt) be @ encode_nt_alarm (en_alarm nt) be
     @ encode_nt_timestamp (en_time_stamp nt) be"

definition encode_nt_enum_full :: "nt_enum \<Rightarrow> bool \<Rightarrow> bytes" where
  "encode_nt_enum_full nt be = push_nt_enum_full [] nt be"

fun push_pv_value :: "bytes \<Rightarrow> pv_value \<Rightarrow> bool \<Rightarrow> bytes" where
  "push_pv_value out (PV_Scalar sv) be = out @ encode_scalar_value sv be"
| "push_pv_value out (PV_ScalarArray sa) be = push_scalar_array_value_pvd out sa be"
| "push_pv_value out (PV_Structure sid fs) be = fold (\<lambda>f out. push_pv_value out (snd f) be) fs out"

definition push_pv_value_fields :: "bytes \<Rightarrow> (string \<times> pv_value) list \<Rightarrow> bool \<Rightarrow> bytes" where
  "push_pv_value_fields out fs be = fold (\<lambda>(_, v) out. push_pv_value out v be) fs out"

fun push_nt_payload_full :: "clock \<Rightarrow> bytes \<Rightarrow> nt_payload \<Rightarrow> bool \<Rightarrow> bytes" where
  "push_nt_payload_full now out (NT_Scalar nt) be = push_nt_scalar_full now out nt be"
| "push_nt_payload_full now out (NT_ScalarArray nt) be = push_nt_scalar_array_full out nt be"
| "push_nt_payload_full now out (NT_Table nt) be = push_nt_table_full out nt be"
| "push_nt_payload_full now out (NT_NdArray nt) be = push_nt_ndarray_full out nt be"
| "push_nt_payload_full now out (NT_Enum nt) be = push_nt_enum_full out nt be"
| "push_nt_payload_full now out (NT_Generic sid fs) be = push_pv_value_fields out fs be"

definition encode_nt_payload_full :: "clock \<Rightarrow> nt_payload \<Rightarrow> bool \<Rightarrow> bytes" where
  "encode_nt_payload_full now p be = push_nt_payload_full now [] p be"

section \<open>Bit counts and all-ones bitsets\<close>

function pv_value_field_count :: "(string \<times> pv_value) list \<Rightarrow> nat" where
  "pv_value_field_count fs = sum_list (map (\<lambda>(_, val). 1 + (case val of
     PV_Structure _ nested \<Rightarrow> pv_value_field_count nested | _ \<Rightarrow> 0)) fs)"
  by pat_completeness auto
termination
  by (relation "measure (size_list (size_prod (\<lambda>_. 0) size))") (auto dest!: pv_field_size)

definition nt_scalar_field_count :: nat where
  "nt_scalar_field_count = count_structure_fields (nt_scalar_desc (SV_I32 0))"

definition empty_table :: nt_table where
  "empty_table = \<lparr>tb_labels = [], tb_columns = [], tb_descriptor = None, tb_alarm = None,
     tb_time_stamp = None\<rparr>"

fun nt_payload_field_count :: "nt_payload \<Rightarrow> nat" where
  "nt_payload_field_count (NT_Scalar _) = nt_scalar_field_count"
| "nt_payload_field_count (NT_ScalarArray _) = count_structure_fields (nt_scalar_array_desc (SA_I32 []))"
| "nt_payload_field_count (NT_NdArray _) = count_structure_fields nt_ndarray_desc"
| "nt_payload_field_count (NT_Enum _) = count_structure_fields nt_enum_desc"
| "nt_payload_field_count (NT_Table nt) =
     count_structure_fields (nt_table_desc empty_table) + length (tb_columns nt)"
| "nt_payload_field_count (NT_Generic _ fs) = pv_value_field_count fs"

definition push_all_ones_bitset :: "bytes \<Rightarrow> nat \<Rightarrow> bool \<Rightarrow> bytes" where
  "push_all_ones_bitset out total_bits be =
     (let bitset_size = (total_bits + 7) div 8;
          out = out @ encode_size bitset_size be;
          out = out @ replicate bitset_size 0xFF;
          spare = bitset_size * 8 - total_bits
      in if spare \<noteq> 0 then out[length out - 1 := drop_bit spare 0xFF] else out)"

definition encode_all_ones_bitset :: "nat \<Rightarrow> bool \<Rightarrow> bytes" where
  "encode_all_ones_bitset total_bits be = push_all_ones_bitset [] total_bits be"

definition encode_structure_bitset :: "structure_desc \<Rightarrow> bool \<Rightarrow> bytes" where
  "encode_structure_bitset desc be = encode_all_ones_bitset (1 + count_structure_fields desc) be"

definition encode_nt_scalar_bitset :: "clock \<Rightarrow> nt_scalar \<Rightarrow> bool \<Rightarrow> bytes" where
  "encode_nt_scalar_bitset now nt be =
     encode_all_ones_bitset (1 + nt_scalar_field_count) be @ encode_nt_scalar_full now nt be"

definition encode_nt_scalar_bitset_parts :: "clock \<Rightarrow> nt_scalar \<Rightarrow> bool \<Rightarrow> bytes \<times> bytes" where
  "encode_nt_scalar_bitset_parts now nt be =
     (encode_all_ones_bitset (1 + nt_scalar_field_count) be, encode_nt_scalar_full now nt be)"

definition push_nt_payload_bitset :: "clock \<Rightarrow> bytes \<Rightarrow> nt_payload \<Rightarrow> bool \<Rightarrow> bytes" where
  "push_nt_payload_bitset now out p be =
     push_nt_payload_full now (push_all_ones_bitset out (1 + nt_payload_field_count p) be) p be"

definition encode_nt_payload_bitset :: "clock \<Rightarrow> nt_payload \<Rightarrow> bool \<Rightarrow> bytes" where
  "encode_nt_payload_bitset now p be = push_nt_payload_bitset now [] p be"

definition encode_nt_payload_bitset_parts :: "clock \<Rightarrow> nt_payload \<Rightarrow> bool \<Rightarrow> bytes \<times> bytes" where
  "encode_nt_payload_bitset_parts now p be =
     (encode_all_ones_bitset (1 + nt_payload_field_count p) be, encode_nt_payload_full now p be)"

end
