(* ===== verification/Nt_Decoded.thy ===== *)
theory Nt_Decoded
  imports Nt_Encode Pvd_Decode
begin

text \<open>
  The decoded tree of a payload: the \<^verbatim>\<open>dv_*\<close> builders and
  \<^verbatim>\<open>nt_payload_to_decoded_for\<close> of \<^verbatim>\<open>spvirit-codec/src/spvd_encode.rs\<close>, the
  reference the delta and change-detection paths are checked against, and the encoder of a
  decoded value.
\<close>

section \<open>Leaves\<close>

fun dv_scalar :: "scalar_value \<Rightarrow> decoded_value" where
  "dv_scalar (SV_Bool x) = DV_Boolean x"
| "dv_scalar (SV_I8 x) = DV_Int8 x"
| "dv_scalar (SV_I16 x) = DV_Int16 x"
| "dv_scalar (SV_I32 x) = DV_Int32 x"
| "dv_scalar (SV_I64 x) = DV_Int64 x"
| "dv_scalar (SV_U8 x) = DV_UInt8 x"
| "dv_scalar (SV_U16 x) = DV_UInt16 x"
| "dv_scalar (SV_U32 x) = DV_UInt32 x"
| "dv_scalar (SV_U64 x) = DV_UInt64 x"
| "dv_scalar (SV_F32 x) = DV_Float32 x"
| "dv_scalar (SV_F64 x) = DV_Float64 x"
| "dv_scalar (SV_Str x) = DV_String x"

fun dv_scalar_array :: "scalar_array_value \<Rightarrow> decoded_value" where
  "dv_scalar_array (SA_Bool a) = DV_Array (map DV_Boolean a)"
| "dv_scalar_array (SA_I8 a) = DV_Array (map DV_Int8 a)"
| "dv_scalar_array (SA_I16 a) = DV_Array (map DV_Int16 a)"
| "dv_scalar_array (SA_I32 a) = DV_Array (map DV_Int32 a)"
| "dv_scalar_array (SA_I64 a) = DV_Array (map DV_Int64 a)"
| "dv_scalar_array (SA_U8 a) = DV_Array (map DV_UInt8 a)"
| "dv_scalar_array (SA_U16 a) = DV_Array (map DV_UInt16 a)"
| "dv_scalar_array (SA_U32 a) = DV_Array (map DV_UInt32 a)"
| "dv_scalar_array (SA_U64 a) = DV_Array (map DV_UInt64 a)"
| "dv_scalar_array (SA_F32 a) = DV_Array (map DV_Float32 a)"
| "dv_scalar_array (SA_F64 a) = DV_Array (map DV_Float64 a)"
| "dv_scalar_array (SA_Str a) = DV_Array (map DV_String a)"

definition dv_string_array :: "string list \<Rightarrow> decoded_value" where
  "dv_string_array ss = DV_Array (map DV_String ss)"

definition dv_form_choices :: "string list \<Rightarrow> decoded_value" where
  "dv_form_choices ss =
     (if ss = [] then DV_Array (map DV_String STANDARD_FORM_CHOICES) else dv_string_array ss)"

definition dv_alarm :: "i32 \<Rightarrow> i32 \<Rightarrow> string \<Rightarrow> decoded_value" where
  "dv_alarm severity status message = DV_Structure
     [(''severity'', DV_Int32 severity), (''status'', DV_Int32 status),
      (''message'', DV_String message)]"

definition dv_timestamp :: "i64 \<Rightarrow> i32 \<Rightarrow> i32 \<Rightarrow> decoded_value" where
  "dv_timestamp secs nanos user_tag = DV_Structure
     [(''secondsPastEpoch'', DV_Int64 secs), (''nanoseconds'', DV_Int32 nanos),
      (''userTag'', DV_Int32 user_tag)]"

definition dv_nt_timestamp :: "nt_time_stamp \<Rightarrow> decoded_value" where
  "dv_nt_timestamp ts = dv_timestamp (ts_seconds ts) (ts_nanoseconds ts) (ts_user_tag ts)"

definition dv_scalar_timestamp :: "clock \<Rightarrow> nt_scalar \<Rightarrow> decoded_value" where
  "dv_scalar_timestamp now nt =
     (case scalar_stamp now nt of (secs, nanos, user_tag) \<Rightarrow> dv_timestamp secs nanos user_tag)"

definition dv_display :: "nt_display \<Rightarrow> decoded_value" where
  "dv_display d = DV_Structure
     [(''limitLow'', DV_Float64 (di_limit_low d)), (''limitHigh'', DV_Float64 (di_limit_high d)),
      (''description'', DV_String (di_description d)), (''units'', DV_String (di_units d)),
      (''precision'', DV_Int32 (di_precision d)),
      (''form'', DV_Structure [(''index'', DV_Int32 0), (''choices'', dv_form_choices [])])]"

fun dv_pv_value :: "pv_value \<Rightarrow> decoded_value" where
  "dv_pv_value (PV_Scalar sv) = dv_scalar sv"
| "dv_pv_value (PV_ScalarArray sa) = dv_scalar_array sa"
| "dv_pv_value (PV_Structure sid fs) = DV_Structure (map (\<lambda>f. (fst f, dv_pv_value (snd f))) fs)"

fun ndarray_union_field_name :: "scalar_array_value \<Rightarrow> string" where
  "ndarray_union_field_name (SA_Bool _) = ''booleanValue''"
| "ndarray_union_field_name (SA_I8 _) = ''byteValue''"
| "ndarray_union_field_name (SA_I16 _) = ''shortValue''"
| "ndarray_union_field_name (SA_I32 _) = ''intValue''"
| "ndarray_union_field_name (SA_I64 _) = ''longValue''"
| "ndarray_union_field_name (SA_U8 _) = ''ubyteValue''"
| "ndarray_union_field_name (SA_U16 _) = ''ushortValue''"
| "ndarray_union_field_name (SA_U32 _) = ''uintValue''"
| "ndarray_union_field_name (SA_U64 _) = ''ulongValue''"
| "ndarray_union_field_name (SA_F32 _) = ''floatValue''"
| "ndarray_union_field_name (SA_F64 _) = ''doubleValue''"
| "ndarray_union_field_name (SA_Str _) = ''stringValue''"

definition dv_codec_parameters :: "(string \<times> string) list \<Rightarrow> decoded_value" where
  "dv_codec_parameters params =
     (if params = [] then DV_Null
      else DV_Structure (map (\<lambda>k. (k, DV_String (the (map_of params k)))) (sort (map fst params))))"

definition dv_dimensions :: "nd_dimension list \<Rightarrow> decoded_value" where
  "dv_dimensions ds = DV_Array (map (\<lambda>d. DV_Structure
     [(''size'', DV_Int32 (nd_size d)), (''offset'', DV_Int32 (nd_offset d)),
      (''fullSize'', DV_Int32 (nd_full_size d)), (''binning'', DV_Int32 (nd_binning d)),
      (''reverse'', DV_Boolean (nd_reverse d))]) ds)"

definition dv_attributes :: "nt_attribute list \<Rightarrow> decoded_value" where
  "dv_attributes as = DV_Array (map (\<lambda>a. DV_Structure
     [(''name'', DV_String (at_name a)), (''value'', dv_scalar (at_value a)),
      (''descriptor'', DV_String (at_descriptor a)),
      (''sourceType'', DV_Int32 (at_source_type a)), (''source'', DV_String (at_source a))]) as)"

section \<open>Payloads\<close>

definition wants_field :: "structure_desc option \<Rightarrow> string \<Rightarrow> bool" where
  "wants_field desc name =
     (case desc of None \<Rightarrow> True | Some d \<Rightarrow> list_ex (\<lambda>f. fd_name f = name) (sd_fields d))"

text \<open>\<^verbatim>\<open>if wants_field(desc, name) { out.push((name, value)) }\<close>\<close>

definition wanted :: "structure_desc option \<Rightarrow> (string \<times> decoded_value) list
    \<Rightarrow> (string \<times> decoded_value) list" where
  "wanted desc fs = filter (\<lambda>(name, _). wants_field desc name) fs"

definition dv_nt_scalar_fields :: "clock \<Rightarrow> nt_scalar \<Rightarrow> structure_desc option
    \<Rightarrow> (string \<times> decoded_value) list" where
  "dv_nt_scalar_fields now nt desc = wanted desc
     [(''value'', dv_scalar (ns_value nt)),
      (''alarm'', dv_alarm (ns_alarm_severity nt) (ns_alarm_status nt) (ns_alarm_message nt)),
      (''timeStamp'', dv_scalar_timestamp now nt),
      (''display'', DV_Structure
        [(''limitLow'', DV_Float64 (ns_display_low nt)),
         (''limitHigh'', DV_Float64 (ns_display_high nt)),
         (''description'', DV_String (ns_display_description nt)),
         (''units'', DV_String (ns_units nt)),
         (''precision'', DV_Int32 (ns_display_precision nt)),
         (''form'', DV_Structure
           [(''index'', DV_Int32 (ns_display_form_index nt)),
            (''choices'', dv_form_choices (ns_display_form_choices nt))])]),
      (''control'', DV_Structure
        [(''limitLow'', DV_Float64 (ns_control_low nt)),
         (''limitHigh'', DV_Float64 (ns_control_high nt)),
         (''minStep'', DV_Float64 (ns_control_min_step nt))]),
      (''valueAlarm'', DV_Structure
        [(''active'', DV_Boolean (ns_va_active nt)),
         (''lowAlarmLimit'', DV_Float64 (ns_va_low_alarm_limit nt)),
         (''lowWarningLimit'', DV_Float64 (ns_va_low_warning_limit nt)),
         (''highWarningLimit'', DV_Float64 (ns_va_high_warning_limit nt)),
         (''highAlarmLimit'', DV_Float64 (ns_va_high_alarm_limit nt)),
         (''lowAlarmSeverity'', DV_Int32 (ns_va_low_alarm_severity nt)),
         (''lowWarningSeverity'', DV_Int32 (ns_va_low_warning_severity nt)),
         (''highWarningSeverity'', DV_Int32 (ns_va_high_warning_severity nt)),
         (''highAlarmSeverity'', DV_Int32 (ns_va_high_alarm_severity nt)),
         (''hysteresis'', DV_UInt8 (ns_va_hysteresis nt))])]"

definition dv_nt_scalar_array_fields :: "nt_scalar_array \<Rightarrow> structure_desc option
    \<Rightarrow> (string \<times> decoded_value) list" where
  "dv_nt_scalar_array_fields nt desc = wanted desc
     [(''value'', dv_scalar_array (na_value nt)),
      (''alarm'', dv_alarm (al_severity (na_alarm nt)) (al_status (na_alarm nt))
        (al_message (na_alarm nt))),
      (''timeStamp'', dv_nt_timestamp (na_time_stamp nt)),
      (''display'', dv_display (na_display nt)),
      (''control'', DV_Structure
        [(''limitLow'', DV_Float64 (co_limit_low (na_control nt))),
         (''limitHigh'', DV_Float64 (co_limit_high (na_control nt))),
         (''minStep'', DV_Float64 (co_min_step (na_control nt)))])]"

definition dv_opt_alarm :: "nt_alarm option \<Rightarrow> decoded_value" where
  "dv_opt_alarm a = (let a = or_default nt_alarm_default a in
     dv_alarm (al_severity a) (al_status a) (al_message a))"

definition dv_nt_table_fields :: "nt_table \<Rightarrow> structure_desc option
    \<Rightarrow> (string \<times> decoded_value) list" where
  "dv_nt_table_fields nt desc = wanted desc
     [(''labels'', dv_string_array (tb_labels nt)),
      (''value'', DV_Structure
        (map (\<lambda>c. (tc_name c, dv_scalar_array (tc_values c))) (tb_columns nt))),
      (''descriptor'', DV_String (or_default [] (tb_descriptor nt))),
      (''alarm'', dv_opt_alarm (tb_alarm nt)),
      (''timeStamp'', dv_nt_timestamp (or_default nt_time_stamp_default (tb_time_stamp nt)))]"

definition dv_nt_ndarray_fields :: "nt_nd_array \<Rightarrow> structure_desc option
    \<Rightarrow> (string \<times> decoded_value) list" where
  "dv_nt_ndarray_fields nt desc = wanted desc
     [(''value'', DV_Structure [(ndarray_union_field_name (nd_value nt), dv_scalar_array (nd_value nt))]),
      (''codec'', DV_Structure
        [(''name'', DV_String (cd_name (nd_codec nt))),
         (''parameters'', dv_codec_parameters (cd_parameters (nd_codec nt)))]),
      (''compressedSize'', DV_Int64 (nd_compressed_size nt)),
      (''uncompressedSize'', DV_Int64 (nd_uncompressed_size nt)),
      (''dimension'', dv_dimensions (nd_dims nt)),
      (''uniqueId'', DV_Int32 (nd_unique_id nt)),
      (''dataTimeStamp'', dv_nt_timestamp (nd_data_time_stamp nt)),
      (''attribute'', dv_attributes (nd_attributes nt)),
      (''descriptor'', DV_String (or_default [] (nd_descriptor nt))),
      (''alarm'', dv_opt_alarm (nd_alarm nt)),
      (''timeStamp'', dv_nt_timestamp (or_default nt_time_stamp_default (nd_time_stamp nt))),
      (''display'', dv_display (or_default nt_display_default (nd_display nt)))]"

definition dv_nt_enum_fields :: "nt_enum \<Rightarrow> structure_desc option
    \<Rightarrow> (string \<times> decoded_value) list" where
  "dv_nt_enum_fields nt desc = wanted desc
     [(''value'', DV_Structure
        [(''index'', DV_Int32 (en_index nt)), (''choices'', dv_string_array (en_choices nt))]),
      (''alarm'', dv_alarm (al_severity (en_alarm nt)) (al_status (en_alarm nt))
        (al_message (en_alarm nt))),
      (''timeStamp'', dv_nt_timestamp (en_time_stamp nt))]"

definition dv_generic_fields :: "(string \<times> pv_value) list \<Rightarrow> structure_desc option
    \<Rightarrow> (string \<times> decoded_value) list" where
  "dv_generic_fields fs desc = wanted desc (map (\<lambda>(name, val). (name, dv_pv_value val)) fs)"

fun nt_payload_to_decoded_for :: "clock \<Rightarrow> nt_payload \<Rightarrow> structure_desc option \<Rightarrow> decoded_value" where
  "nt_payload_to_decoded_for now (NT_Scalar nt) desc = DV_Structure (dv_nt_scalar_fields now nt desc)"
| "nt_payload_to_decoded_for now (NT_ScalarArray nt) desc =
     DV_Structure (dv_nt_scalar_array_fields nt desc)"
| "nt_payload_to_decoded_for now (NT_Table nt) desc = DV_Structure (dv_nt_table_fields nt desc)"
| "nt_payload_to_decoded_for now (NT_NdArray nt) desc = DV_Structure (dv_nt_ndarray_fields nt desc)"
| "nt_payload_to_decoded_for now (NT_Enum nt) desc = DV_Structure (dv_nt_enum_fields nt desc)"
| "nt_payload_to_decoded_for now (NT_Generic sid fs) desc = DV_Structure (dv_generic_fields fs desc)"

definition nt_payload_to_decoded :: "clock \<Rightarrow> nt_payload \<Rightarrow> decoded_value" where
  "nt_payload_to_decoded now p = nt_payload_to_decoded_for now p None"

section \<open>Encoding a decoded value\<close>

fun push_decoded_value :: "bytes \<Rightarrow> decoded_value \<Rightarrow> bool \<Rightarrow> bytes" where
  "push_decoded_value out DV_Null be = out"
| "push_decoded_value out (DV_Boolean v) be = out @ [if v then 1 else 0]"
| "push_decoded_value out (DV_Int8 v) be = out @ [v]"
| "push_decoded_value out (DV_Int16 v) be = out @ to_bytes be v"
| "push_decoded_value out (DV_Int32 v) be = out @ to_bytes be v"
| "push_decoded_value out (DV_Int64 v) be = out @ to_bytes be v"
| "push_decoded_value out (DV_UInt8 v) be = out @ [v]"
| "push_decoded_value out (DV_UInt16 v) be = out @ to_bytes be v"
| "push_decoded_value out (DV_UInt32 v) be = out @ to_bytes be v"
| "push_decoded_value out (DV_UInt64 v) be = out @ to_bytes be v"
| "push_decoded_value out (DV_Float32 v) be = out @ to_bytes be v"
| "push_decoded_value out (DV_Float64 v) be = out @ to_bytes be v"
| "push_decoded_value out (DV_String v) be = push_string out v be"
| "push_decoded_value out (DV_Array vs) be =
     fold (\<lambda>v out. push_decoded_value out v be) vs (push_size out (length vs) be)"
| "push_decoded_value out (DV_Structure fs) be =
     fold (\<lambda>f out. push_decoded_value out (snd f) be) fs out"
| "push_decoded_value out (DV_Raw bs) be = out @ bs"

definition encode_decoded_value :: "decoded_value \<Rightarrow> bool \<Rightarrow> bytes" where
  "encode_decoded_value v be = push_decoded_value [] v be"

end
