(* ===== verification/Payload_View.thy ===== *)
theory Payload_View
  imports Nt_Decoded Pv_Request
begin

text \<open>
  The direct walk over payloads of \<^verbatim>\<open>spvirit-codec/src/spvd_encode.rs\<close>: views, which read a
  node of a payload's decoded tree in place, the comparison and the encoder of views, the
  narrowed encoder, and the delta walk. The tree operations they replace are here too:
  \<^verbatim>\<open>decoded_values_equal\<close>, \<^verbatim>\<open>push_decoded_projected\<close>, \<^verbatim>\<open>fill_changed_bits\<close> and
  \<^verbatim>\<open>encode_values_for_bits\<close>.
\<close>

section \<open>Floats that count as equal\<close>

definition f32_same :: "f32 \<Rightarrow> f32 \<Rightarrow> bool" where
  "f32_same x y \<longleftrightarrow> f32_eq x y \<or> (f32_is_nan x \<and> f32_is_nan y)"

definition f64_same :: "f64 \<Rightarrow> f64 \<Rightarrow> bool" where
  "f64_same x y \<longleftrightarrow> f64_eq x y \<or> (f64_is_nan x \<and> f64_is_nan y)"

section \<open>Equality of decoded values\<close>

lemma size_zip_fst: "(p, q) \<in> set (zip xs ys) \<Longrightarrow> size p < Suc (size_list size xs)"
  by (auto dest!: set_zip_leftD simp: less_Suc_eq_le intro: size_list_estimation')

lemma size_zip_snd:
  "((n, v), (m, w)) \<in> set (zip xs ys) \<Longrightarrow> size v < Suc (size_list (size_prod (\<lambda>_. 0) size) xs)"
proof -
  assume "((n, v), (m, w)) \<in> set (zip xs ys)"
  then have "(n, v) \<in> set xs" by (rule set_zip_leftD)
  then show ?thesis by (induction xs) auto
qed

function decoded_values_equal :: "decoded_value \<Rightarrow> decoded_value \<Rightarrow> bool" where
  "decoded_values_equal a b =
     (case a of
        DV_Null \<Rightarrow> (case b of DV_Null \<Rightarrow> True | _ \<Rightarrow> False)
      | DV_Boolean x \<Rightarrow> (case b of DV_Boolean y \<Rightarrow> x = y | _ \<Rightarrow> False)
      | DV_Int8 x \<Rightarrow> (case b of DV_Int8 y \<Rightarrow> x = y | _ \<Rightarrow> False)
      | DV_Int16 x \<Rightarrow> (case b of DV_Int16 y \<Rightarrow> x = y | _ \<Rightarrow> False)
      | DV_Int32 x \<Rightarrow> (case b of DV_Int32 y \<Rightarrow> x = y | _ \<Rightarrow> False)
      | DV_Int64 x \<Rightarrow> (case b of DV_Int64 y \<Rightarrow> x = y | _ \<Rightarrow> False)
      | DV_UInt8 x \<Rightarrow> (case b of DV_UInt8 y \<Rightarrow> x = y | _ \<Rightarrow> False)
      | DV_UInt16 x \<Rightarrow> (case b of DV_UInt16 y \<Rightarrow> x = y | _ \<Rightarrow> False)
      | DV_UInt32 x \<Rightarrow> (case b of DV_UInt32 y \<Rightarrow> x = y | _ \<Rightarrow> False)
      | DV_UInt64 x \<Rightarrow> (case b of DV_UInt64 y \<Rightarrow> x = y | _ \<Rightarrow> False)
      | DV_Float32 x \<Rightarrow> (case b of DV_Float32 y \<Rightarrow> f32_same x y | _ \<Rightarrow> False)
      | DV_Float64 x \<Rightarrow> (case b of DV_Float64 y \<Rightarrow> f64_same x y | _ \<Rightarrow> False)
      | DV_String x \<Rightarrow> (case b of DV_String y \<Rightarrow> x = y | _ \<Rightarrow> False)
      | DV_Raw x \<Rightarrow> (case b of DV_Raw y \<Rightarrow> x = y | _ \<Rightarrow> False)
      | DV_Array x \<Rightarrow>
          (case b of
             DV_Array y \<Rightarrow> length x = length y \<and> list_all (\<lambda>(p, q). decoded_values_equal p q) (zip x y)
           | _ \<Rightarrow> False)
      | DV_Structure x \<Rightarrow>
          (case b of
             DV_Structure y \<Rightarrow> length x = length y \<and>
               list_all (\<lambda>((ln, lv), (rn, rv)). ln = rn \<and> decoded_values_equal lv rv) (zip x y)
           | _ \<Rightarrow> False))"
  by pat_completeness auto
termination
  by (relation "measure (size \<circ> fst)") (auto dest: size_zip_fst size_zip_snd)

declare decoded_values_equal.simps [simp del]

section \<open>Fields by name\<close>

definition locate :: "nat \<Rightarrow> (nat \<Rightarrow> string) \<Rightarrow> string \<Rightarrow> nat \<Rightarrow> nat option \<times> nat" where
  "locate len name_at name hint =
     (case (if hint < len \<and> name_at hint = name then Some hint
            else find (\<lambda>i. name_at i = name) [0..<len]) of
        None \<Rightarrow> (None, hint)
      | Some at \<Rightarrow> (Some at, at + 1))"

definition find_field :: "(string \<times> decoded_value) list \<Rightarrow> string \<Rightarrow> nat \<Rightarrow> decoded_value option \<times> nat" where
  "find_field fs name hint =
     apfst (map_option (\<lambda>i. snd (fs ! i))) (locate (length fs) (\<lambda>i. fst (fs ! i)) name hint)"

fun field_of :: "decoded_value \<Rightarrow> string \<Rightarrow> nat \<Rightarrow> decoded_value option \<times> nat" where
  "field_of (DV_Structure fs) name hint = find_field fs name hint"
| "field_of _ name hint = (None, hint)"

section \<open>Operations on the tree\<close>

text \<open>The loops over a descriptor's fields carry the hints of \<^verbatim>\<open>locate\<close>.\<close>

function push_decoded_projected_fields :: "bytes \<Rightarrow> (string \<times> decoded_value) list \<Rightarrow> field_desc list
    \<Rightarrow> nat \<Rightarrow> bool \<Rightarrow> bytes" where
  "push_decoded_projected_fields out fs [] hint be = out"
| "push_decoded_projected_fields out fs (target # targets) hint be =
     (case find_field fs (fd_name target) hint of
        (None, hint) \<Rightarrow> push_decoded_projected_fields out fs targets hint be
      | (Some sub, hint) \<Rightarrow>
          (let out = (case fd_type target of
               FT_Structure inner \<Rightarrow>
                 (case sub of
                    DV_Structure sfs \<Rightarrow> push_decoded_projected_fields out sfs (sd_fields inner) 0 be
                  | _ \<Rightarrow> push_decoded_value out sub be)
             | _ \<Rightarrow> push_decoded_value out sub be)
           in push_decoded_projected_fields out fs targets hint be))"
  by pat_completeness auto
termination
  by (relation "measure (\<lambda>(_, _, ts, _). size_list size ts)") (auto dest: size_nested_fields)

definition push_decoded_projected :: "bytes \<Rightarrow> decoded_value \<Rightarrow> structure_desc \<Rightarrow> bool \<Rightarrow> bytes" where
  "push_decoded_projected out value desc be =
     (case value of
        DV_Structure fs \<Rightarrow> push_decoded_projected_fields out fs (sd_fields desc) 0 be
      | _ \<Rightarrow> push_decoded_value out value be)"

definition encode_decoded_projected :: "decoded_value \<Rightarrow> structure_desc \<Rightarrow> bool \<Rightarrow> bytes" where
  "encode_decoded_projected value desc be = push_decoded_projected [] value desc be"

definition or_empty :: "decoded_value option \<Rightarrow> decoded_value" where
  "or_empty v = (case v of None \<Rightarrow> DV_Structure [] | Some v \<Rightarrow> v)"

definition leaf_changed :: "decoded_value option \<Rightarrow> decoded_value option \<Rightarrow> bool" where
  "leaf_changed p n =
     (case (p, n) of
        (Some a, Some b) \<Rightarrow> \<not> decoded_values_equal a b
      | (None, None) \<Rightarrow> False
      | _ \<Rightarrow> True)"

function fill_changed_fields :: "decoded_value \<Rightarrow> decoded_value \<Rightarrow> field_desc list \<Rightarrow> nat \<Rightarrow> nat
    \<Rightarrow> bool \<Rightarrow> bool list \<Rightarrow> nat \<Rightarrow> bool \<times> bool list \<times> nat" where
  "fill_changed_fields prev nxt [] ph nh any bits idx = (any, bits, idx)"
| "fill_changed_fields prev nxt (f # fs) ph nh any bits idx =
     (let this = idx; idx = idx + 1;
          (p, ph) = field_of prev (fd_name f) ph;
          (n, nh) = field_of nxt (fd_name f) nh
      in case fd_type f of
           FT_Structure inner \<Rightarrow>
             (case fill_changed_fields (or_empty p) (or_empty n) (sd_fields inner) 0 0 False bits idx of
                (changed, bits, idx) \<Rightarrow> fill_changed_fields prev nxt fs ph nh (any \<or> changed) bits idx)
         | _ \<Rightarrow>
             if leaf_changed p n then fill_changed_fields prev nxt fs ph nh True (bits[this := True]) idx
             else fill_changed_fields prev nxt fs ph nh any bits idx)"
  by pat_completeness auto
termination
  by (relation "measure (\<lambda>(_, _, fs, _). size_list size fs)") (auto dest: size_nested_fields)

definition fill_changed_bits :: "decoded_value \<Rightarrow> decoded_value \<Rightarrow> structure_desc \<Rightarrow> bool list \<Rightarrow> nat
    \<Rightarrow> bool \<times> bool list \<times> nat" where
  "fill_changed_bits prev nxt desc bits idx = fill_changed_fields prev nxt (sd_fields desc) 0 0 False bits idx"

definition compute_changed_bits :: "decoded_value \<Rightarrow> decoded_value \<Rightarrow> structure_desc \<Rightarrow> bool list option" where
  "compute_changed_bits prev nxt desc =
     (let total = 1 + count_structure_fields desc; bits = replicate total False in
      case fill_changed_bits prev nxt desc bits 1 of
        (any, bits, _) \<Rightarrow> if any then Some bits else None)"

function encode_values_fields :: "decoded_value \<Rightarrow> field_desc list \<Rightarrow> bool list \<Rightarrow> nat \<Rightarrow> nat \<Rightarrow> bool
    \<Rightarrow> bytes \<Rightarrow> bytes \<times> nat" where
  "encode_values_fields value [] bits hint idx be out = (out, idx)"
| "encode_values_fields value (f # fs) bits hint idx be out =
     (let this = idx; idx = idx + 1; (sub, hint) = field_of value (fd_name f) hint in
      case fd_type f of
        FT_Structure inner \<Rightarrow>
          (case encode_values_fields (or_empty sub) (sd_fields inner) bits 0 idx be out of
             (out, idx) \<Rightarrow> encode_values_fields value fs bits hint idx be out)
      | _ \<Rightarrow>
          (case sub of
             Some v \<Rightarrow>
               if bits ! this
               then encode_values_fields value fs bits hint idx be (push_decoded_value out v be)
               else encode_values_fields value fs bits hint idx be out
           | None \<Rightarrow> encode_values_fields value fs bits hint idx be out))"
  by pat_completeness auto
termination
  by (relation "measure (\<lambda>(_, fs, _). size_list size fs)") (auto dest: size_nested_fields)

definition encode_values_for_bits :: "decoded_value \<Rightarrow> structure_desc \<Rightarrow> bool list \<Rightarrow> bool \<Rightarrow> bytes" where
  "encode_values_for_bits value desc bits be =
     fst (encode_values_fields value (sd_fields desc) bits 0 1 be [])"

text \<open>\<^verbatim>\<open>bitset[i / 8] |= 1 << (i % 8)\<close> for each set flag.\<close>

definition set_bit_byte :: "bytes \<Rightarrow> nat \<Rightarrow> bytes" where
  "set_bit_byte bs i = bs[i div 8 := (bs ! (i div 8)) OR push_bit (i mod 8) 1]"

definition bitset_of_flags :: "bool list \<Rightarrow> bytes" where
  "bitset_of_flags bits =
     fold (\<lambda>(i, b) bs. if b then set_bit_byte bs i else bs) (enumerate 0 bits)
       (replicate ((length bits + 7) div 8) 0)"

definition encode_bitset_from_flags :: "bool list \<Rightarrow> bool \<Rightarrow> bytes" where
  "encode_bitset_from_flags bits be =
     encode_size ((length bits + 7) div 8) be @ bitset_of_flags bits"

section \<open>Views\<close>

datatype kind = K_Null | K_Boolean | K_Int8 | K_Int16 | K_Int32 | K_Int64 | K_UInt8 | K_UInt16
  | K_UInt32 | K_UInt64 | K_Float32 | K_Float64 | K_String | K_Array | K_Structure

datatype node =
    N_Scalar nt_scalar "i64 \<times> i32 \<times> i32"
  | N_ScalarArray nt_scalar_array
  | N_Table nt_table
  | N_NdArray nt_nd_array
  | N_Enum nt_enum
  | N_Fields "(string \<times> pv_value) list"
  | N_Alarm i32 i32 string
  | N_TimeStamp i64 i32 i32
  | N_ScalarDisplay nt_scalar
  | N_Display "nt_display option"
  | N_Form i32 "string list"
  | N_Control f64 f64 f64
  | N_ValueAlarm nt_scalar
  | N_TableColumns "nt_table_column list"
  | N_EnumValue i32 "string list"
  | N_NdValue scalar_array_value
  | N_Codec nd_codec

datatype view =
    V_Bool bool
  | V_I8 i8 | V_I16 i16 | V_I32 i32 | V_I64 i64
  | V_U8 u8 | V_U16 u16 | V_U32 u32 | V_U64 u64
  | V_F32 f32 | V_F64 f64
  | V_Str string
  | V_Array scalar_array_value
  | V_Strings "string list"
  | V_StandardChoices
  | V_Dimensions "nd_dimension list"
  | V_Attributes "nt_attribute list"
  | V_CodecParameters "(string \<times> string) list"
  | V_Struct node

definition ALARM_FIELDS :: "string list" where
  "ALARM_FIELDS = [''severity'', ''status'', ''message'']"

definition TIMESTAMP_FIELDS :: "string list" where
  "TIMESTAMP_FIELDS = [''secondsPastEpoch'', ''nanoseconds'', ''userTag'']"

definition DISPLAY_FIELDS :: "string list" where
  "DISPLAY_FIELDS = [''limitLow'', ''limitHigh'', ''description'', ''units'', ''precision'', ''form'']"

definition ENUM_T_FIELDS :: "string list" where
  "ENUM_T_FIELDS = [''index'', ''choices'']"

definition CONTROL_FIELDS :: "string list" where
  "CONTROL_FIELDS = [''limitLow'', ''limitHigh'', ''minStep'']"

definition alarm_view :: "i32 \<Rightarrow> i32 \<Rightarrow> string \<Rightarrow> view" where
  "alarm_view severity status message = V_Struct (N_Alarm severity status message)"

definition optional_alarm_view :: "nt_alarm option \<Rightarrow> view" where
  "optional_alarm_view alarm =
     (case alarm of
        Some a \<Rightarrow> alarm_view (al_severity a) (al_status a) (al_message a)
      | None \<Rightarrow> alarm_view 0 0 [])"

definition timestamp_view :: "nt_time_stamp \<Rightarrow> view" where
  "timestamp_view ts = V_Struct (N_TimeStamp (ts_seconds ts) (ts_nanoseconds ts) (ts_user_tag ts))"

definition optional_timestamp_view :: "nt_time_stamp option \<Rightarrow> view" where
  "optional_timestamp_view ts =
     (case ts of None \<Rightarrow> V_Struct (N_TimeStamp 0 0 0) | Some ts \<Rightarrow> timestamp_view ts)"

fun fixed_names :: "node \<Rightarrow> string list" where
  "fixed_names (N_Scalar _ _) =
     [''value'', ''alarm'', ''timeStamp'', ''display'', ''control'', ''valueAlarm'']"
| "fixed_names (N_ScalarArray _) = [''value'', ''alarm'', ''timeStamp'', ''display'', ''control'']"
| "fixed_names (N_Table _) = [''labels'', ''value'', ''descriptor'', ''alarm'', ''timeStamp'']"
| "fixed_names (N_NdArray _) =
     [''value'', ''codec'', ''compressedSize'', ''uncompressedSize'', ''dimension'', ''uniqueId'',
      ''dataTimeStamp'', ''attribute'', ''descriptor'', ''alarm'', ''timeStamp'', ''display'']"
| "fixed_names (N_Enum _) = [''value'', ''alarm'', ''timeStamp'']"
| "fixed_names (N_Alarm _ _ _) = ALARM_FIELDS"
| "fixed_names (N_TimeStamp _ _ _) = TIMESTAMP_FIELDS"
| "fixed_names (N_ScalarDisplay _) = DISPLAY_FIELDS"
| "fixed_names (N_Display _) = DISPLAY_FIELDS"
| "fixed_names (N_Form _ _) = ENUM_T_FIELDS"
| "fixed_names (N_EnumValue _ _) = ENUM_T_FIELDS"
| "fixed_names (N_Control _ _ _) = CONTROL_FIELDS"
| "fixed_names (N_ValueAlarm _) =
     [''active'', ''lowAlarmLimit'', ''lowWarningLimit'', ''highWarningLimit'', ''highAlarmLimit'',
      ''lowAlarmSeverity'', ''lowWarningSeverity'', ''highWarningSeverity'', ''highAlarmSeverity'',
      ''hysteresis'']"
| "fixed_names (N_Codec _) = [''name'', ''parameters'']"
| "fixed_names (N_Fields _) = []"
| "fixed_names (N_TableColumns _) = []"
| "fixed_names (N_NdValue _) = []"

definition node_len :: "node \<Rightarrow> nat" where
  "node_len n = (case n of
     N_Fields f \<Rightarrow> length f | N_TableColumns c \<Rightarrow> length c | N_NdValue _ \<Rightarrow> 1
   | _ \<Rightarrow> length (fixed_names n))"

definition node_name :: "node \<Rightarrow> nat \<Rightarrow> string" where
  "node_name n i = (case n of
     N_Fields f \<Rightarrow> fst (f ! i) | N_TableColumns c \<Rightarrow> tc_name (c ! i)
   | N_NdValue v \<Rightarrow> ndarray_union_field_name v | _ \<Rightarrow> fixed_names n ! i)"

fun scalar_view :: "scalar_value \<Rightarrow> view" where
  "scalar_view (SV_Bool x) = V_Bool x"
| "scalar_view (SV_I8 x) = V_I8 x"
| "scalar_view (SV_I16 x) = V_I16 x"
| "scalar_view (SV_I32 x) = V_I32 x"
| "scalar_view (SV_I64 x) = V_I64 x"
| "scalar_view (SV_U8 x) = V_U8 x"
| "scalar_view (SV_U16 x) = V_U16 x"
| "scalar_view (SV_U32 x) = V_U32 x"
| "scalar_view (SV_U64 x) = V_U64 x"
| "scalar_view (SV_F32 x) = V_F32 x"
| "scalar_view (SV_F64 x) = V_F64 x"
| "scalar_view (SV_Str x) = V_Str x"

fun pv_view :: "pv_value \<Rightarrow> view" where
  "pv_view (PV_Scalar sv) = scalar_view sv"
| "pv_view (PV_ScalarArray sa) = V_Array sa"
| "pv_view (PV_Structure _ fs) = V_Struct (N_Fields fs)"

fun node_field :: "node \<Rightarrow> nat \<Rightarrow> view" where
  "node_field (N_Scalar nt (secs, nanos, user_tag)) i =
     (if i = 0 then scalar_view (ns_value nt)
      else if i = 1 then alarm_view (ns_alarm_severity nt) (ns_alarm_status nt) (ns_alarm_message nt)
      else if i = 2 then V_Struct (N_TimeStamp secs nanos user_tag)
      else if i = 3 then V_Struct (N_ScalarDisplay nt)
      else if i = 4 then V_Struct (N_Control (ns_control_low nt) (ns_control_high nt) (ns_control_min_step nt))
      else V_Struct (N_ValueAlarm nt))"
| "node_field (N_ScalarArray nt) i =
     (if i = 0 then V_Array (na_value nt)
      else if i = 1 then alarm_view (al_severity (na_alarm nt)) (al_status (na_alarm nt)) (al_message (na_alarm nt))
      else if i = 2 then timestamp_view (na_time_stamp nt)
      else if i = 3 then V_Struct (N_Display (Some (na_display nt)))
      else V_Struct (N_Control (co_limit_low (na_control nt)) (co_limit_high (na_control nt))
        (co_min_step (na_control nt))))"
| "node_field (N_Table nt) i =
     (if i = 0 then V_Strings (tb_labels nt)
      else if i = 1 then V_Struct (N_TableColumns (tb_columns nt))
      else if i = 2 then V_Str (or_default [] (tb_descriptor nt))
      else if i = 3 then optional_alarm_view (tb_alarm nt)
      else optional_timestamp_view (tb_time_stamp nt))"
| "node_field (N_NdArray nt) i =
     (if i = 0 then V_Struct (N_NdValue (nd_value nt))
      else if i = 1 then V_Struct (N_Codec (nd_codec nt))
      else if i = 2 then V_I64 (nd_compressed_size nt)
      else if i = 3 then V_I64 (nd_uncompressed_size nt)
      else if i = 4 then V_Dimensions (nd_dims nt)
      else if i = 5 then V_I32 (nd_unique_id nt)
      else if i = 6 then timestamp_view (nd_data_time_stamp nt)
      else if i = 7 then V_Attributes (nd_attributes nt)
      else if i = 8 then V_Str (or_default [] (nd_descriptor nt))
      else if i = 9 then optional_alarm_view (nd_alarm nt)
      else if i = 10 then optional_timestamp_view (nd_time_stamp nt)
      else V_Struct (N_Display (nd_display nt)))"
| "node_field (N_Enum nt) i =
     (if i = 0 then V_Struct (N_EnumValue (en_index nt) (en_choices nt))
      else if i = 1 then alarm_view (al_severity (en_alarm nt)) (al_status (en_alarm nt)) (al_message (en_alarm nt))
      else timestamp_view (en_time_stamp nt))"
| "node_field (N_Fields f) i = pv_view (snd (f ! i))"
| "node_field (N_Alarm severity status message) i =
     (if i = 0 then V_I32 severity else if i = 1 then V_I32 status else V_Str message)"
| "node_field (N_TimeStamp secs nanos user_tag) i =
     (if i = 0 then V_I64 secs else if i = 1 then V_I32 nanos else V_I32 user_tag)"
| "node_field (N_ScalarDisplay nt) i =
     (if i = 0 then V_F64 (ns_display_low nt)
      else if i = 1 then V_F64 (ns_display_high nt)
      else if i = 2 then V_Str (ns_display_description nt)
      else if i = 3 then V_Str (ns_units nt)
      else if i = 4 then V_I32 (ns_display_precision nt)
      else V_Struct (N_Form (ns_display_form_index nt) (ns_display_form_choices nt)))"
| "node_field (N_Display d) i =
     (case d of
        Some d \<Rightarrow>
          if i = 0 then V_F64 (di_limit_low d)
          else if i = 1 then V_F64 (di_limit_high d)
          else if i = 2 then V_Str (di_description d)
          else if i = 3 then V_Str (di_units d)
          else if i = 4 then V_I32 (di_precision d)
          else V_Struct (N_Form 0 [])
      | None \<Rightarrow>
          if i = 0 \<or> i = 1 then V_F64 0
          else if i = 2 \<or> i = 3 then V_Str []
          else if i = 4 then V_I32 0
          else V_Struct (N_Form 0 []))"
| "node_field (N_Form index choices) i =
     (if i = 0 then V_I32 index else if choices = [] then V_StandardChoices else V_Strings choices)"
| "node_field (N_Control low high min_step) i = V_F64 ([low, high, min_step] ! i)"
| "node_field (N_ValueAlarm nt) i =
     (if i = 0 then V_Bool (ns_va_active nt)
      else if i = 1 then V_F64 (ns_va_low_alarm_limit nt)
      else if i = 2 then V_F64 (ns_va_low_warning_limit nt)
      else if i = 3 then V_F64 (ns_va_high_warning_limit nt)
      else if i = 4 then V_F64 (ns_va_high_alarm_limit nt)
      else if i = 5 then V_I32 (ns_va_low_alarm_severity nt)
      else if i = 6 then V_I32 (ns_va_low_warning_severity nt)
      else if i = 7 then V_I32 (ns_va_high_warning_severity nt)
      else if i = 8 then V_I32 (ns_va_high_alarm_severity nt)
      else V_U8 (ns_va_hysteresis nt))"
| "node_field (N_TableColumns c) i = V_Array (tc_values (c ! i))"
| "node_field (N_EnumValue index choices) i = (if i = 0 then V_I32 index else V_Strings choices)"
| "node_field (N_NdValue v) i = V_Array v"
| "node_field (N_Codec c) i = (if i = 0 then V_Str (cd_name c) else V_CodecParameters (cd_parameters c))"

definition of_payload :: "clock \<Rightarrow> nt_payload \<Rightarrow> view" where
  "of_payload now p = V_Struct (case p of
     NT_Scalar nt \<Rightarrow> N_Scalar nt (scalar_stamp now nt)
   | NT_ScalarArray nt \<Rightarrow> N_ScalarArray nt
   | NT_Table nt \<Rightarrow> N_Table nt
   | NT_NdArray nt \<Rightarrow> N_NdArray nt
   | NT_Enum nt \<Rightarrow> N_Enum nt
   | NT_Generic _ fs \<Rightarrow> N_Fields fs)"

fun view_kind :: "view \<Rightarrow> kind" where
  "view_kind (V_Bool _) = K_Boolean"
| "view_kind (V_I8 _) = K_Int8"
| "view_kind (V_I16 _) = K_Int16"
| "view_kind (V_I32 _) = K_Int32"
| "view_kind (V_I64 _) = K_Int64"
| "view_kind (V_U8 _) = K_UInt8"
| "view_kind (V_U16 _) = K_UInt16"
| "view_kind (V_U32 _) = K_UInt32"
| "view_kind (V_U64 _) = K_UInt64"
| "view_kind (V_F32 _) = K_Float32"
| "view_kind (V_F64 _) = K_Float64"
| "view_kind (V_Str _) = K_String"
| "view_kind (V_Array _) = K_Array"
| "view_kind (V_Strings _) = K_Array"
| "view_kind V_StandardChoices = K_Array"
| "view_kind (V_Dimensions _) = K_Array"
| "view_kind (V_Attributes _) = K_Array"
| "view_kind (V_CodecParameters p) = (if p = [] then K_Null else K_Structure)"
| "view_kind (V_Struct _) = K_Structure"

definition array_len :: "view \<Rightarrow> nat" where
  "array_len v = (case v of
     V_Array a \<Rightarrow> sav_len a | V_Strings s \<Rightarrow> length s | V_StandardChoices \<Rightarrow> length STANDARD_FORM_CHOICES
   | V_Dimensions d \<Rightarrow> length d | V_Attributes a \<Rightarrow> length a | _ \<Rightarrow> 0)"

fun sav_kind :: "scalar_array_value \<Rightarrow> kind" where
  "sav_kind (SA_Bool _) = K_Boolean"
| "sav_kind (SA_I8 _) = K_Int8"
| "sav_kind (SA_I16 _) = K_Int16"
| "sav_kind (SA_I32 _) = K_Int32"
| "sav_kind (SA_I64 _) = K_Int64"
| "sav_kind (SA_U8 _) = K_UInt8"
| "sav_kind (SA_U16 _) = K_UInt16"
| "sav_kind (SA_U32 _) = K_UInt32"
| "sav_kind (SA_U64 _) = K_UInt64"
| "sav_kind (SA_F32 _) = K_Float32"
| "sav_kind (SA_F64 _) = K_Float64"
| "sav_kind (SA_Str _) = K_String"

definition element_kind :: "view \<Rightarrow> kind" where
  "element_kind v = (case v of
     V_Array a \<Rightarrow> sav_kind a | V_Strings _ \<Rightarrow> K_String | V_StandardChoices \<Rightarrow> K_String | _ \<Rightarrow> K_Structure)"

definition view_field :: "view \<Rightarrow> string \<Rightarrow> nat \<Rightarrow> view option \<times> nat" where
  "view_field v name hint = (case v of
     V_Struct n \<Rightarrow> apfst (map_option (node_field n)) (locate (node_len n) (node_name n) name hint)
   | V_CodecParameters p \<Rightarrow> (map_option V_Str (map_of p name), hint)
   | _ \<Rightarrow> (None, hint))"

text \<open>Below a node the views get smaller.\<close>

fun node_rank :: "node \<Rightarrow> nat" where
  "node_rank (N_Fields fs) = 4 + size_list (size_prod (\<lambda>_. 0) size) fs"
| "node_rank (N_ScalarDisplay _) = 2"
| "node_rank (N_Display _) = 2"
| "node_rank (N_Scalar _ _) = 3"
| "node_rank (N_ScalarArray _) = 3"
| "node_rank (N_Table _) = 3"
| "node_rank (N_NdArray _) = 3"
| "node_rank (N_Enum _) = 3"
| "node_rank _ = 1"

fun view_rank :: "view \<Rightarrow> nat" where
  "view_rank (V_Struct n) = Suc (node_rank n)"
| "view_rank _ = 0"

lemma view_rank_leaf [simp]: "view_rank (scalar_view v) = 0"
  by (cases v) simp_all

lemma view_rank_pv: "view_rank (pv_view v) < 5 + size v"
  by (cases v) (simp_all add: less_Suc_eq_le)

lemma view_rank_field: "i < node_len n \<Longrightarrow> view_rank (node_field n i) < Suc (node_rank n)"
proof (cases n)
  case (N_Fields fs)
  assume "i < node_len n"
  then have "(fst (fs ! i), snd (fs ! i)) \<in> set fs" by (simp add: N_Fields node_len_def)
  then have "size (snd (fs ! i)) < size_list (size_prod (\<lambda>_. 0) size) fs" by (rule pv_field_size)
  then show ?thesis using view_rank_pv [of "snd (fs ! i)"] by (simp add: N_Fields)
next
  case (N_Scalar nt st)
  then show ?thesis by (cases st) (simp add: alarm_view_def)
qed (simp_all add: alarm_view_def optional_alarm_view_def timestamp_view_def optional_timestamp_view_def
    split: option.split)

function to_decoded :: "view \<Rightarrow> decoded_value" where
  "to_decoded v = (case v of
     V_Bool x \<Rightarrow> DV_Boolean x
   | V_I8 x \<Rightarrow> DV_Int8 x
   | V_I16 x \<Rightarrow> DV_Int16 x
   | V_I32 x \<Rightarrow> DV_Int32 x
   | V_I64 x \<Rightarrow> DV_Int64 x
   | V_U8 x \<Rightarrow> DV_UInt8 x
   | V_U16 x \<Rightarrow> DV_UInt16 x
   | V_U32 x \<Rightarrow> DV_UInt32 x
   | V_U64 x \<Rightarrow> DV_UInt64 x
   | V_F32 x \<Rightarrow> DV_Float32 x
   | V_F64 x \<Rightarrow> DV_Float64 x
   | V_Str s \<Rightarrow> DV_String s
   | V_Array a \<Rightarrow> dv_scalar_array a
   | V_Strings s \<Rightarrow> dv_string_array s
   | V_StandardChoices \<Rightarrow> dv_form_choices []
   | V_Dimensions d \<Rightarrow> dv_dimensions d
   | V_Attributes a \<Rightarrow> dv_attributes a
   | V_CodecParameters p \<Rightarrow> dv_codec_parameters p
   | V_Struct n \<Rightarrow>
       DV_Structure (map (\<lambda>i. (node_name n i, to_decoded (node_field n i))) [0..<node_len n]))"
  by pat_completeness auto
termination
  by (relation "measure view_rank") (auto dest: view_rank_field)

declare to_decoded.simps [simp del]

fun scalar_arrays_equal :: "scalar_array_value \<Rightarrow> scalar_array_value \<Rightarrow> bool" where
  "scalar_arrays_equal a b = (case a of
     SA_Bool x \<Rightarrow> (case b of SA_Bool y \<Rightarrow> x = y | _ \<Rightarrow> sav_len a = 0 \<and> sav_len b = 0)
   | SA_I8 x \<Rightarrow> (case b of SA_I8 y \<Rightarrow> x = y | _ \<Rightarrow> sav_len a = 0 \<and> sav_len b = 0)
   | SA_I16 x \<Rightarrow> (case b of SA_I16 y \<Rightarrow> x = y | _ \<Rightarrow> sav_len a = 0 \<and> sav_len b = 0)
   | SA_I32 x \<Rightarrow> (case b of SA_I32 y \<Rightarrow> x = y | _ \<Rightarrow> sav_len a = 0 \<and> sav_len b = 0)
   | SA_I64 x \<Rightarrow> (case b of SA_I64 y \<Rightarrow> x = y | _ \<Rightarrow> sav_len a = 0 \<and> sav_len b = 0)
   | SA_U8 x \<Rightarrow> (case b of SA_U8 y \<Rightarrow> x = y | _ \<Rightarrow> sav_len a = 0 \<and> sav_len b = 0)
   | SA_U16 x \<Rightarrow> (case b of SA_U16 y \<Rightarrow> x = y | _ \<Rightarrow> sav_len a = 0 \<and> sav_len b = 0)
   | SA_U32 x \<Rightarrow> (case b of SA_U32 y \<Rightarrow> x = y | _ \<Rightarrow> sav_len a = 0 \<and> sav_len b = 0)
   | SA_U64 x \<Rightarrow> (case b of SA_U64 y \<Rightarrow> x = y | _ \<Rightarrow> sav_len a = 0 \<and> sav_len b = 0)
   | SA_F32 x \<Rightarrow>
       (case b of
          SA_F32 y \<Rightarrow> length x = length y \<and> list_all (\<lambda>(p, q). f32_same p q) (zip x y)
        | _ \<Rightarrow> sav_len a = 0 \<and> sav_len b = 0)
   | SA_F64 x \<Rightarrow>
       (case b of
          SA_F64 y \<Rightarrow> length x = length y \<and> list_all (\<lambda>(p, q). f64_same p q) (zip x y)
        | _ \<Rightarrow> sav_len a = 0 \<and> sav_len b = 0)
   | SA_Str x \<Rightarrow> (case b of SA_Str y \<Rightarrow> x = y | _ \<Rightarrow> sav_len a = 0 \<and> sav_len b = 0))"

declare scalar_arrays_equal.simps [simp del]

text \<open>\<^verbatim>\<open>==\<close> on \<^verbatim>\<open>HashMap\<close>s.\<close>

definition maps_equal :: "(string \<times> string) list \<Rightarrow> (string \<times> string) list \<Rightarrow> bool" where
  "maps_equal x y \<longleftrightarrow> length x = length y \<and> list_all (\<lambda>(k, v). map_of y k = Some v) x"

definition views_fallback :: "view \<Rightarrow> view \<Rightarrow> bool" where
  "views_fallback a b =
     (if view_kind a \<noteq> view_kind b then False
      else if view_kind a = K_Array \<and> array_len a \<noteq> array_len b then False
      else if view_kind a = K_Array \<and> array_len a = 0 then True
      else if view_kind a = K_Array \<and> element_kind a \<noteq> element_kind b then False
      else decoded_values_equal (to_decoded a) (to_decoded b))"

function views_equal :: "view \<Rightarrow> view \<Rightarrow> bool" where
  "views_equal a b = (case a of
     V_Bool x \<Rightarrow> (case b of V_Bool y \<Rightarrow> x = y | _ \<Rightarrow> views_fallback a b)
   | V_I8 x \<Rightarrow> (case b of V_I8 y \<Rightarrow> x = y | _ \<Rightarrow> views_fallback a b)
   | V_I16 x \<Rightarrow> (case b of V_I16 y \<Rightarrow> x = y | _ \<Rightarrow> views_fallback a b)
   | V_I32 x \<Rightarrow> (case b of V_I32 y \<Rightarrow> x = y | _ \<Rightarrow> views_fallback a b)
   | V_I64 x \<Rightarrow> (case b of V_I64 y \<Rightarrow> x = y | _ \<Rightarrow> views_fallback a b)
   | V_U8 x \<Rightarrow> (case b of V_U8 y \<Rightarrow> x = y | _ \<Rightarrow> views_fallback a b)
   | V_U16 x \<Rightarrow> (case b of V_U16 y \<Rightarrow> x = y | _ \<Rightarrow> views_fallback a b)
   | V_U32 x \<Rightarrow> (case b of V_U32 y \<Rightarrow> x = y | _ \<Rightarrow> views_fallback a b)
   | V_U64 x \<Rightarrow> (case b of V_U64 y \<Rightarrow> x = y | _ \<Rightarrow> views_fallback a b)
   | V_F32 x \<Rightarrow> (case b of V_F32 y \<Rightarrow> f32_same x y | _ \<Rightarrow> views_fallback a b)
   | V_F64 x \<Rightarrow> (case b of V_F64 y \<Rightarrow> f64_same x y | _ \<Rightarrow> views_fallback a b)
   | V_Str x \<Rightarrow> (case b of V_Str y \<Rightarrow> x = y | _ \<Rightarrow> views_fallback a b)
   | V_Array x \<Rightarrow>
       (case b of
          V_Array y \<Rightarrow> scalar_arrays_equal x y
        | V_Strings y \<Rightarrow> (case x of SA_Str x \<Rightarrow> x = y | _ \<Rightarrow> views_fallback a b)
        | _ \<Rightarrow> views_fallback a b)
   | V_Strings x \<Rightarrow>
       (case b of
          V_Strings y \<Rightarrow> x = y
        | V_Array y \<Rightarrow> (case y of SA_Str y \<Rightarrow> y = x | _ \<Rightarrow> views_fallback a b)
        | _ \<Rightarrow> views_fallback a b)
   | V_StandardChoices \<Rightarrow> (case b of V_StandardChoices \<Rightarrow> True | _ \<Rightarrow> views_fallback a b)
   | V_Dimensions x \<Rightarrow> (case b of V_Dimensions y \<Rightarrow> x = y | _ \<Rightarrow> views_fallback a b)
   | V_Attributes _ \<Rightarrow> views_fallback a b
   | V_CodecParameters x \<Rightarrow> (case b of V_CodecParameters y \<Rightarrow> maps_equal x y | _ \<Rightarrow> views_fallback a b)
   | V_Struct x \<Rightarrow>
       (case b of
          V_Struct y \<Rightarrow> node_len x = node_len y \<and>
            list_all (\<lambda>i. node_name x i = node_name y i \<and> views_equal (node_field x i) (node_field y i))
              [0..<node_len x]
        | _ \<Rightarrow> views_fallback a b))"
  by pat_completeness auto
termination
  by (relation "measure (view_rank \<circ> fst)") (auto dest: view_rank_field)

declare views_equal.simps [simp del]

section \<open>Encoding views\<close>

function push_view :: "bytes \<Rightarrow> view \<Rightarrow> bool \<Rightarrow> bytes" where
  "push_view out v be = (case v of
     V_Bool x \<Rightarrow> out @ [if x then 1 else 0]
   | V_I8 x \<Rightarrow> out @ [x]
   | V_I16 x \<Rightarrow> out @ to_bytes be x
   | V_I32 x \<Rightarrow> out @ to_bytes be x
   | V_I64 x \<Rightarrow> out @ to_bytes be x
   | V_U8 x \<Rightarrow> out @ [x]
   | V_U16 x \<Rightarrow> out @ to_bytes be x
   | V_U32 x \<Rightarrow> out @ to_bytes be x
   | V_U64 x \<Rightarrow> out @ to_bytes be x
   | V_F32 x \<Rightarrow> out @ to_bytes be x
   | V_F64 x \<Rightarrow> out @ to_bytes be x
   | V_Str s \<Rightarrow> push_string out s be
   | V_Array a \<Rightarrow> push_scalar_array_value_pvd out a be
   | V_Strings s \<Rightarrow> push_string_array out s be
   | V_StandardChoices \<Rightarrow> push_string_array out STANDARD_FORM_CHOICES be
   | V_Struct n \<Rightarrow> fold (\<lambda>i out. push_view out (node_field n i) be) [0..<node_len n] out
   | _ \<Rightarrow> push_decoded_value out (to_decoded v) be)"
  by pat_completeness auto
termination
  by (relation "measure (\<lambda>(_, v, _). view_rank v)") (auto dest: view_rank_field)

declare push_view.simps [simp del]

function push_view_projected_fields :: "bytes \<Rightarrow> view \<Rightarrow> field_desc list \<Rightarrow> nat \<Rightarrow> bool \<Rightarrow> bytes" where
  "push_view_projected_fields out value [] hint be = out"
| "push_view_projected_fields out value (target # targets) hint be =
     (case view_field value (fd_name target) hint of
        (None, hint) \<Rightarrow> push_view_projected_fields out value targets hint be
      | (Some sub, hint) \<Rightarrow>
          (let out = (case fd_type target of
               FT_Structure inner \<Rightarrow>
                 if view_kind sub \<noteq> K_Structure then push_view out sub be
                 else push_view_projected_fields out sub (sd_fields inner) 0 be
             | _ \<Rightarrow> push_view out sub be)
           in push_view_projected_fields out value targets hint be))"
  by pat_completeness auto
termination
  by (relation "measure (\<lambda>(_, _, ts, _). size_list size ts)") (auto dest: size_nested_fields)

definition push_view_projected :: "bytes \<Rightarrow> view \<Rightarrow> structure_desc \<Rightarrow> bool \<Rightarrow> bytes" where
  "push_view_projected out value desc be =
     (if view_kind value \<noteq> K_Structure then push_view out value be
      else push_view_projected_fields out value (sd_fields desc) 0 be)"

fun payload_shape :: "nt_payload \<Rightarrow> string option \<times> nat" where
  "payload_shape (NT_Scalar _) = (Some ''epics:nt/NTScalar:1.0'', 6)"
| "payload_shape (NT_ScalarArray _) = (Some ''epics:nt/NTScalarArray:1.0'', 5)"
| "payload_shape (NT_Table _) = (Some ''epics:nt/NTTable:1.0'', 5)"
| "payload_shape (NT_NdArray _) = (Some ''epics:nt/NTNDArray:1.0'', 12)"
| "payload_shape (NT_Enum _) = (Some ''epics:nt/NTEnum:1.0'', 3)"
| "payload_shape (NT_Generic sid fs) = (if sid = [] then None else Some sid, length fs)"

definition nt_payload_shape_matches :: "nt_payload \<Rightarrow> structure_desc \<Rightarrow> bool" where
  "nt_payload_shape_matches p desc =
     (case payload_shape p of (sid, n) \<Rightarrow> struct_id desc = sid \<and> length (sd_fields desc) = n)"

lemma size_zip_field:
  "(x, y) \<in> set (zip xs ys) \<Longrightarrow> size (fd_type x) < size_list size xs"
proof -
  assume "(x, y) \<in> set (zip xs ys)"
  then have "x \<in> set xs" by (rule set_zip_leftD)
  moreover have "size (fd_type x) < size x" by (cases x) simp
  ultimately show ?thesis by (induction xs) auto
qed

function structure_desc_equal :: "structure_desc \<Rightarrow> structure_desc \<Rightarrow> bool"
  and field_type_equal :: "field_type \<Rightarrow> field_type \<Rightarrow> bool" where
  "structure_desc_equal a b =
     (if struct_id a \<noteq> struct_id b then False
      else if length (sd_fields a) \<noteq> length (sd_fields b) then False
      else list_all (\<lambda>(x, y). fd_name x = fd_name y \<and> field_type_equal (fd_type x) (fd_type y))
        (zip (sd_fields a) (sd_fields b)))"
| "field_type_equal s t = (case s of
     FT_Scalar x \<Rightarrow> (case t of FT_Scalar y \<Rightarrow> x = y | _ \<Rightarrow> False)
   | FT_ScalarArray x \<Rightarrow> (case t of FT_ScalarArray y \<Rightarrow> x = y | _ \<Rightarrow> False)
   | FT_String \<Rightarrow> t = FT_String
   | FT_StringArray \<Rightarrow> t = FT_StringArray
   | FT_Structure x \<Rightarrow> (case t of FT_Structure y \<Rightarrow> structure_desc_equal x y | _ \<Rightarrow> False)
   | FT_StructureArray x \<Rightarrow> (case t of FT_StructureArray y \<Rightarrow> structure_desc_equal x y | _ \<Rightarrow> False)
   | FT_Variant \<Rightarrow> t = FT_Variant
   | FT_VariantArray \<Rightarrow> t = FT_VariantArray
   | FT_BoundedString x \<Rightarrow> (case t of FT_BoundedString y \<Rightarrow> x = y | _ \<Rightarrow> False)
   | FT_Union x \<Rightarrow> (case t of FT_Union y \<Rightarrow> length x = length y | _ \<Rightarrow> False)
   | FT_UnionArray x \<Rightarrow> (case t of FT_UnionArray y \<Rightarrow> length x = length y | _ \<Rightarrow> False))"
  by pat_completeness auto
termination
proof (relation "measure (\<lambda>x. case x of Inl (a, _) \<Rightarrow> size a | Inr (s, _) \<Rightarrow> size s)")
  fix a b :: structure_desc and z x y
  assume "z \<in> set (zip (sd_fields a) (sd_fields b))" "(x, y) = z"
  then have "size (fd_type x) < size_list size (sd_fields a)" by (auto dest: size_zip_field)
  then show "(Inr (fd_type x, fd_type y), Inl (a, b)) \<in>
      measure (\<lambda>x. case x of Inl (a, _) \<Rightarrow> size a | Inr (s, _) \<Rightarrow> size s)"
    by (cases a) simp
qed auto

declare structure_desc_equal.simps [simp del] field_type_equal.simps [simp del]

definition encode_nt_payload_values_for_desc :: "clock \<Rightarrow> nt_payload \<Rightarrow> structure_desc \<Rightarrow> bool \<Rightarrow> bytes" where
  "encode_nt_payload_values_for_desc now p desc be =
     (if nt_payload_shape_matches p desc \<and> structure_desc_equal (nt_payload_desc p) desc
      then encode_nt_payload_full now p be
      else push_view_projected [] (of_payload now p) desc be)"

definition encode_nt_payload_filtered :: "clock \<Rightarrow> nt_payload \<Rightarrow> structure_desc \<Rightarrow> bool \<Rightarrow> bytes \<times> bytes" where
  "encode_nt_payload_filtered now p filtered_desc be =
     (encode_structure_bitset filtered_desc be, encode_nt_payload_values_for_desc now p filtered_desc be)"

section \<open>The delta walk\<close>

record delta_walk =
  dw_sink :: "(bool list \<times> bytes) option"
  dw_bit :: nat

definition opt_field :: "view option \<Rightarrow> string \<Rightarrow> nat \<Rightarrow> view option \<times> nat" where
  "opt_field v name hint = (case v of None \<Rightarrow> (None, hint) | Some v \<Rightarrow> view_field v name hint)"

definition view_leaf :: "bool \<Rightarrow> view option \<Rightarrow> view option \<Rightarrow> nat \<Rightarrow> delta_walk \<Rightarrow> bool \<times> delta_walk" where
  "view_leaf be p n bit_no w =
     (let changed = (case (p, n) of
            (Some a, Some b) \<Rightarrow> \<not> views_equal a b
          | (None, None) \<Rightarrow> False
          | _ \<Rightarrow> True)
      in (changed,
          if changed then
            (case dw_sink w of
               None \<Rightarrow> w
             | Some (bits, values) \<Rightarrow>
                 w\<lparr>dw_sink := Some (bits[bit_no := True],
                    case n of Some n \<Rightarrow> push_view values n be | None \<Rightarrow> values)\<rparr>)
          else w))"

function delta_fields :: "bool \<Rightarrow> view option \<Rightarrow> view option \<Rightarrow> field_desc list \<Rightarrow> nat \<Rightarrow> nat
    \<Rightarrow> bool \<Rightarrow> delta_walk \<Rightarrow> bool \<times> delta_walk" where
  "delta_fields be prev nxt [] ph nh any w = (any, w)"
| "delta_fields be prev nxt (f # fs) ph nh any w =
     (let bit_no = dw_bit w;
          w = w\<lparr>dw_bit := bit_no + 1\<rparr>;
          (p, ph) = opt_field prev (fd_name f) ph;
          (n, nh) = opt_field nxt (fd_name f) nh;
          (changed, w) = (case fd_type f of
             FT_Structure inner \<Rightarrow> delta_fields be p n (sd_fields inner) 0 0 False w
           | _ \<Rightarrow> view_leaf be p n bit_no w)
      in if changed \<and> dw_sink w = None then (True, w)
         else delta_fields be prev nxt fs ph nh (any \<or> changed) w)"
  by pat_completeness auto
termination
  by (relation "measure (\<lambda>(_, _, _, fs, _). size_list size fs)") (auto dest: size_nested_fields)

definition delta_level :: "bool \<Rightarrow> view option \<Rightarrow> view option \<Rightarrow> structure_desc \<Rightarrow> delta_walk
    \<Rightarrow> bool \<times> delta_walk" where
  "delta_level be prev nxt desc w = delta_fields be prev nxt (sd_fields desc) 0 0 False w"

text \<open>The two payloads are read one after the other; each has its own sample of the clock.\<close>

definition encode_nt_payload_delta :: "clock \<Rightarrow> clock \<Rightarrow> nt_payload \<Rightarrow> nt_payload \<Rightarrow> structure_desc \<Rightarrow> bool
    \<Rightarrow> (bytes \<times> bytes) option" where
  "encode_nt_payload_delta t1 t2 prev nxt filtered_desc be =
     (case delta_level be (Some (of_payload t1 prev)) (Some (of_payload t2 nxt)) filtered_desc
         \<lparr>dw_sink = Some (replicate (1 + count_structure_fields filtered_desc) False, []), dw_bit = 1\<rparr> of
        (changed, w) \<Rightarrow>
          if changed then
            (case dw_sink w of
               Some (bits, values) \<Rightarrow> Some (encode_bitset_from_flags bits be, values)
             | None \<Rightarrow> None)
          else None)"

definition nt_payload_changed_on_desc :: "clock \<Rightarrow> clock \<Rightarrow> nt_payload \<Rightarrow> nt_payload \<Rightarrow> structure_desc \<Rightarrow> bool
    \<Rightarrow> bool" where
  "nt_payload_changed_on_desc t1 t2 prev nxt filtered_desc be =
     fst (delta_level be (Some (of_payload t1 prev)) (Some (of_payload t2 nxt)) filtered_desc
       \<lparr>dw_sink = None, dw_bit = 1\<rparr>)"

end
