(* ===== verification/Pva_Encode.thy ===== *)
theory Pva_Encode
  imports Payload_View
begin

text \<open>
  The messages the library sends (\<^verbatim>\<open>spvirit-codec/src/spvirit_encode.rs\<close>): the eight-byte
  header, the status block, and one encoder for every message of a client and of a server. A
  fixed-size array of the source (\<^verbatim>\<open>[u8; 12]\<close>, \<^verbatim>\<open>[u8; 16]\<close>) is a byte list of that
  length.
\<close>

section \<open>Prefixes and statuses\<close>

definition encode_size_pva :: "nat \<Rightarrow> bool \<Rightarrow> bytes" where
  "encode_size_pva sz be = encode_size sz be"

definition encode_string_pva :: "string \<Rightarrow> bool \<Rightarrow> bytes" where
  "encode_string_pva value be = encode_string value be"

definition encode_status_ok :: bytes where
  "encode_status_ok = [0xFF]"

definition encode_status_error :: "string \<Rightarrow> bool \<Rightarrow> bytes" where
  "encode_status_error message be = [0x02] @ encode_string_pva message be @ encode_string_pva [] be"

definition encode_status_warning :: "string \<Rightarrow> bool \<Rightarrow> bytes" where
  "encode_status_warning message be = [0x01] @ encode_string_pva message be @ encode_string_pva [] be"

definition encode_status_fatal :: "string \<Rightarrow> bool \<Rightarrow> bytes" where
  "encode_status_fatal message be = [0x03] @ encode_string_pva message be @ encode_string_pva [] be"

section \<open>Headers\<close>

definition push_header :: "bytes \<Rightarrow> bool \<Rightarrow> bool \<Rightarrow> bool \<Rightarrow> u8 \<Rightarrow> u8 \<Rightarrow> u32 \<Rightarrow> bytes" where
  "push_header out is_server is_be is_control version command payload_length =
     (let flags = (0 :: u8);
          flags = (if is_control then flags OR 0x01 else flags);
          flags = (if is_server then flags OR 0x40 else flags);
          flags = (if is_be then flags OR 0x80 else flags)
      in out @ [0xCA, version, flags, command] @ to_bytes is_be payload_length)"

definition encode_header :: "bool \<Rightarrow> bool \<Rightarrow> bool \<Rightarrow> u8 \<Rightarrow> u8 \<Rightarrow> u32 \<Rightarrow> bytes" where
  "encode_header is_server is_be is_control version command payload_length =
     push_header [] is_server is_be is_control version command payload_length"

definition begin_frame :: "bytes \<Rightarrow> bool \<Rightarrow> u8 \<Rightarrow> u8 \<Rightarrow> bytes \<times> nat" where
  "begin_frame out is_be version command =
     (push_header out True is_be False version command 0, length out)"

definition finish_frame :: "bytes \<Rightarrow> nat \<Rightarrow> bool \<Rightarrow> bytes" where
  "finish_frame out header_at is_be =
     (let len = of_nat (length out - header_at - 8) :: u32 in
      take (header_at + 4) out @ to_bytes is_be len @ drop (header_at + 8) out)"

text \<open>The tail most encoders share: the header with the length of the payload, then the payload.\<close>

definition with_header :: "bool \<Rightarrow> bool \<Rightarrow> u8 \<Rightarrow> u8 \<Rightarrow> bytes \<Rightarrow> bytes" where
  "with_header is_server is_be version command payload =
     encode_header is_server is_be False version command (of_nat (length payload)) @ payload"

section \<open>Connection set-up and search\<close>

definition encode_message_error :: "string \<Rightarrow> u8 \<Rightarrow> bool \<Rightarrow> bytes" where
  "encode_message_error message version be =
     (let payload = to_bytes be (0 :: u32) @ [2] @ encode_string_pva message be in
      with_header True be version 18 payload)"

definition encode_search_response :: "bytes \<Rightarrow> u32 \<Rightarrow> bytes \<Rightarrow> u16 \<Rightarrow> string \<Rightarrow> bool \<Rightarrow> u32 list \<Rightarrow> u8 \<Rightarrow> bool
    \<Rightarrow> bytes" where
  "encode_search_response guid seq addr port protocol found cids version be =
     (let count = of_nat (length cids) :: u16;
          payload = guid @ to_bytes be seq @ addr @ to_bytes be port @ encode_string_pva protocol be
            @ [if found then 1 else 0] @ to_bytes be count @ concat (map (to_bytes be) cids)
      in with_header True be version 4 payload)"

definition encode_connection_validated :: "bool \<Rightarrow> u8 \<Rightarrow> bool \<Rightarrow> bytes" where
  "encode_connection_validated is_server version be = with_header is_server be version 9 encode_status_ok"

definition encode_control_message :: "bool \<Rightarrow> bool \<Rightarrow> u8 \<Rightarrow> u8 \<Rightarrow> u32 \<Rightarrow> bytes" where
  "encode_control_message is_server be version command data =
     encode_header is_server be True version command data"

definition encode_connection_validation :: "u32 \<Rightarrow> u16 \<Rightarrow> string list \<Rightarrow> u8 \<Rightarrow> bool \<Rightarrow> bytes" where
  "encode_connection_validation buffer_size registry_size auth_methods version be =
     (let payload = to_bytes be buffer_size @ to_bytes be registry_size
            @ encode_size_pva (length auth_methods) be
            @ concat (map (\<lambda>method. encode_string_pva method be) auth_methods)
      in with_header True be version 1 payload)"

definition encode_authnz_user_host :: "string \<Rightarrow> string \<Rightarrow> bool \<Rightarrow> bytes" where
  "encode_authnz_user_host user host be =
     [0xFD] @ to_bytes be (1 :: u16) @ [0x80, 0x00] @ [0x02] @ [0x04] @ as_bytes ''user'' @ [0x60]
       @ [0x04] @ as_bytes ''host'' @ [0x60] @ encode_string_pva user be @ encode_string_pva host be"

definition encode_connection_validation_client_ca :: "u32 \<Rightarrow> u16 \<Rightarrow> u16 \<Rightarrow> string \<Rightarrow> string \<Rightarrow> string \<Rightarrow> bool
    \<Rightarrow> bytes" where
  "encode_connection_validation_client_ca buffer_size registry_size qos method user host be =
     to_bytes be buffer_size @ to_bytes be registry_size @ to_bytes be qos @ encode_string_pva method be
       @ encode_authnz_user_host user host be"

definition encode_connection_validation_client_anon :: "u32 \<Rightarrow> u16 \<Rightarrow> u16 \<Rightarrow> string \<Rightarrow> bool \<Rightarrow> bytes" where
  "encode_connection_validation_client_anon buffer_size registry_size qos method be =
     to_bytes be buffer_size @ to_bytes be registry_size @ to_bytes be qos @ encode_string_pva method be"

definition encode_client_connection_validation :: "u32 \<Rightarrow> u16 \<Rightarrow> u16 \<Rightarrow> string \<Rightarrow> string \<Rightarrow> string \<Rightarrow> u8 \<Rightarrow> bool
    \<Rightarrow> bytes" where
  "encode_client_connection_validation buffer_size registry_size qos authz user host version be =
     (let payload = to_bytes be buffer_size @ to_bytes be registry_size @ to_bytes be qos
            @ encode_string_pva authz be @ encode_authnz_user_host user host be
      in with_header False be version 1 payload)"

definition encode_search_request :: "u32 \<Rightarrow> u8 \<Rightarrow> u16 \<Rightarrow> bytes \<Rightarrow> (u32 \<times> string) list \<Rightarrow> u8 \<Rightarrow> bool \<Rightarrow> bytes" where
  "encode_search_request seq flags port reply_addr pv_requests version be =
     (let payload = to_bytes be seq @ [flags] @ [0, 0, 0] @ reply_addr @ to_bytes be port
            @ encode_size_pva 1 be @ encode_string_pva ''tcp'' be
            @ to_bytes be (of_nat (length pv_requests) :: u16)
            @ concat (map (\<lambda>(cid, pv_name). to_bytes be cid @ encode_string_pva pv_name be) pv_requests)
      in with_header False be version 3 payload)"

definition encode_beacon :: "bytes \<Rightarrow> u8 \<Rightarrow> u16 \<Rightarrow> bytes \<Rightarrow> u16 \<Rightarrow> string \<Rightarrow> u8 \<Rightarrow> bool \<Rightarrow> bytes" where
  "encode_beacon guid seq change_count addr port protocol version be =
     (let payload = guid @ [0x00] @ [seq] @ to_bytes be change_count @ addr @ to_bytes be port
            @ encode_string_pva protocol be @ [0xFF]
      in with_header True be version 0 payload)"

section \<open>Requests of a client\<close>

definition encode_create_channel_request :: "u32 \<Rightarrow> string \<Rightarrow> u8 \<Rightarrow> bool \<Rightarrow> bytes" where
  "encode_create_channel_request cid pv_name version be =
     (let payload = to_bytes be (1 :: u16) @ to_bytes be cid @ encode_string_pva pv_name be in
      with_header False be version 7 payload)"

definition encode_get_field_request :: "u32 \<Rightarrow> u32 \<Rightarrow> string option \<Rightarrow> u8 \<Rightarrow> bool \<Rightarrow> bytes" where
  "encode_get_field_request sid ioid sub_field version be =
     (let payload = to_bytes be sid @ to_bytes be ioid
            @ encode_string_pva (case sub_field of Some s \<Rightarrow> s | None \<Rightarrow> []) be
      in with_header False be version 17 payload)"

definition encode_op_request :: "u8 \<Rightarrow> u32 \<Rightarrow> u32 \<Rightarrow> u8 \<Rightarrow> bytes \<Rightarrow> u8 \<Rightarrow> bool \<Rightarrow> bytes" where
  "encode_op_request command sid ioid subcmd extra version be =
     (let payload = to_bytes be sid @ to_bytes be ioid @ [subcmd] @ extra in
      with_header False be version command payload)"

definition encode_get_request :: "u32 \<Rightarrow> u32 \<Rightarrow> u8 \<Rightarrow> bytes \<Rightarrow> u8 \<Rightarrow> bool \<Rightarrow> bytes" where
  "encode_get_request sid ioid subcmd extra version be = encode_op_request 10 sid ioid subcmd extra version be"

definition encode_put_request :: "u32 \<Rightarrow> u32 \<Rightarrow> u8 \<Rightarrow> bytes \<Rightarrow> u8 \<Rightarrow> bool \<Rightarrow> bytes" where
  "encode_put_request sid ioid subcmd extra version be = encode_op_request 11 sid ioid subcmd extra version be"

definition encode_monitor_request :: "u32 \<Rightarrow> u32 \<Rightarrow> u8 \<Rightarrow> bytes \<Rightarrow> u8 \<Rightarrow> bool \<Rightarrow> bytes" where
  "encode_monitor_request sid ioid subcmd extra version be =
     encode_op_request 13 sid ioid subcmd extra version be"

definition encode_rpc_request :: "u32 \<Rightarrow> u32 \<Rightarrow> u8 \<Rightarrow> bytes \<Rightarrow> u8 \<Rightarrow> bool \<Rightarrow> bytes" where
  "encode_rpc_request sid ioid subcmd extra version be = encode_op_request 20 sid ioid subcmd extra version be"

definition encode_destroy_request :: "u32 \<Rightarrow> u32 \<Rightarrow> u8 \<Rightarrow> bool \<Rightarrow> bytes" where
  "encode_destroy_request sid ioid version be =
     (let payload = to_bytes be sid @ to_bytes be ioid in with_header False be version 15 payload)"

section \<open>Responses of a server\<close>

definition encode_create_channel_response :: "u32 \<Rightarrow> u32 \<Rightarrow> u8 \<Rightarrow> bool \<Rightarrow> bytes" where
  "encode_create_channel_response cid sid version be =
     (let payload = to_bytes be cid @ to_bytes be sid @ encode_status_ok in
      with_header True be version 7 payload)"

definition encode_create_channel_error :: "u32 \<Rightarrow> string \<Rightarrow> u8 \<Rightarrow> bool \<Rightarrow> bytes" where
  "encode_create_channel_error cid message version be =
     (let payload = to_bytes be cid @ to_bytes be (0 :: u32) @ [0x01] @ encode_string_pva message be
            @ encode_string_pva [] be
      in with_header True be version 7 payload)"

definition encode_get_field_response :: "u32 \<Rightarrow> structure_desc \<Rightarrow> u8 \<Rightarrow> bool \<Rightarrow> bytes" where
  "encode_get_field_response request_id desc version be =
     (let payload = to_bytes be request_id @ encode_status_ok @ [0x80] @ encode_structure_desc desc be in
      with_header True be version 17 payload)"

definition encode_get_field_error :: "u32 \<Rightarrow> string \<Rightarrow> u8 \<Rightarrow> bool \<Rightarrow> bytes" where
  "encode_get_field_error request_id message version be =
     (let payload = to_bytes be request_id @ encode_status_error message be in
      with_header True be version 17 payload)"

definition encode_op_init_response :: "clock \<Rightarrow> u8 \<Rightarrow> u32 \<Rightarrow> u8 \<Rightarrow> structure_desc \<Rightarrow> nt_scalar \<Rightarrow> u8 \<Rightarrow> bool
    \<Rightarrow> bytes" where
  "encode_op_init_response now command ioid subcmd desc nt version be =
     (let payload = to_bytes be ioid @ [subcmd] @ encode_status_ok @ [0x80] @ encode_structure_desc desc be
            @ encode_nt_scalar_full now nt be
      in with_header True be version command payload)"

definition encode_op_init_response_desc :: "u8 \<Rightarrow> u32 \<Rightarrow> u8 \<Rightarrow> structure_desc \<Rightarrow> u8 \<Rightarrow> bool \<Rightarrow> bytes" where
  "encode_op_init_response_desc command ioid subcmd desc version be =
     (let payload = to_bytes be ioid @ [subcmd] @ encode_status_ok @ [0x80] @ encode_structure_desc desc be in
      with_header True be version command payload)"

definition encode_op_data_response :: "clock \<Rightarrow> u8 \<Rightarrow> u32 \<Rightarrow> nt_scalar \<Rightarrow> u8 \<Rightarrow> bool \<Rightarrow> bytes" where
  "encode_op_data_response now command ioid nt version be =
     (let payload = to_bytes be ioid @ [0x00] @ encode_nt_scalar_bitset now nt be in
      with_header True be version command payload)"

definition encode_op_data_response_payload :: "clock \<Rightarrow> u8 \<Rightarrow> u32 \<Rightarrow> nt_payload \<Rightarrow> u8 \<Rightarrow> bool \<Rightarrow> bytes" where
  "encode_op_data_response_payload now command ioid payload_value version be =
     (let (out, header_at) = begin_frame [] be version command;
          out = out @ to_bytes be ioid;
          out = out @ [0x00];
          out = out @ encode_status_ok;
          out = push_nt_payload_bitset now out payload_value be
      in finish_frame out header_at be)"

definition encode_op_get_data_response_payload :: "clock \<Rightarrow> u32 \<Rightarrow> nt_payload \<Rightarrow> u8 \<Rightarrow> bool \<Rightarrow> bytes" where
  "encode_op_get_data_response_payload now ioid payload_value version be =
     encode_op_data_response_payload now 10 ioid payload_value version be"

definition encode_op_data_response_filtered :: "clock \<Rightarrow> u8 \<Rightarrow> u32 \<Rightarrow> nt_payload \<Rightarrow> structure_desc \<Rightarrow> u8 \<Rightarrow> bool
    \<Rightarrow> bytes" where
  "encode_op_data_response_filtered now command ioid payload_value filtered_desc version be =
     (let (bitset, vals) = encode_nt_payload_filtered now payload_value filtered_desc be;
          (out, header_at) = begin_frame [] be version command;
          out = out @ to_bytes be ioid;
          out = out @ [0x00];
          out = out @ encode_status_ok;
          out = out @ bitset;
          out = out @ vals
      in finish_frame out header_at be)"

definition encode_op_status_response :: "u8 \<Rightarrow> u32 \<Rightarrow> u8 \<Rightarrow> u8 \<Rightarrow> bool \<Rightarrow> bytes" where
  "encode_op_status_response command ioid subcmd version be =
     (let payload = to_bytes be ioid @ [subcmd] @ encode_status_ok in
      with_header True be version command payload)"

definition encode_op_status_error_response :: "u8 \<Rightarrow> u32 \<Rightarrow> u8 \<Rightarrow> string \<Rightarrow> u8 \<Rightarrow> bool \<Rightarrow> bytes" where
  "encode_op_status_error_response command ioid subcmd message version be =
     (let payload = to_bytes be ioid @ [subcmd] @ encode_status_error message be in
      with_header True be version command payload)"

definition encode_op_rpc_data_response_payload :: "clock \<Rightarrow> u32 \<Rightarrow> u8 \<Rightarrow> nt_payload \<Rightarrow> u8 \<Rightarrow> bool \<Rightarrow> bytes" where
  "encode_op_rpc_data_response_payload now ioid subcmd payload_value version be =
     (let desc = nt_payload_desc payload_value;
          payload = to_bytes be ioid @ [subcmd] @ encode_status_ok @ [0x80] @ encode_structure_desc desc be
            @ encode_nt_payload_full now payload_value be
      in with_header True be version 20 payload)"

definition encode_op_put_get_init_response :: "u32 \<Rightarrow> structure_desc \<Rightarrow> structure_desc \<Rightarrow> u8 \<Rightarrow> bool \<Rightarrow> bytes" where
  "encode_op_put_get_init_response ioid put_desc get_desc version be =
     (let payload = to_bytes be ioid @ [0x08] @ encode_status_ok @ [0x80] @ encode_structure_desc put_desc be
            @ [0x80] @ encode_structure_desc get_desc be
      in with_header True be version 12 payload)"

definition encode_op_put_get_data_response_payload :: "clock \<Rightarrow> u32 \<Rightarrow> nt_payload \<Rightarrow> u8 \<Rightarrow> bool \<Rightarrow> bytes" where
  "encode_op_put_get_data_response_payload now ioid payload_value version be =
     (let payload = to_bytes be ioid @ [0x00] @ encode_status_ok @ encode_nt_payload_bitset now payload_value be in
      with_header True be version 12 payload)"

definition encode_op_put_get_data_response :: "clock \<Rightarrow> u32 \<Rightarrow> nt_scalar \<Rightarrow> u8 \<Rightarrow> bool \<Rightarrow> bytes" where
  "encode_op_put_get_data_response now ioid nt version be =
     encode_op_put_get_data_response_payload now ioid (NT_Scalar nt) version be"

definition encode_op_put_response :: "u32 \<Rightarrow> u8 \<Rightarrow> u8 \<Rightarrow> bool \<Rightarrow> bytes" where
  "encode_op_put_response ioid subcmd version be =
     (let payload = to_bytes be ioid @ [subcmd] @ encode_status_ok in with_header True be version 11 payload)"

definition encode_op_put_status_response :: "u32 \<Rightarrow> u8 \<Rightarrow> string \<Rightarrow> u8 \<Rightarrow> bool \<Rightarrow> bytes" where
  "encode_op_put_status_response ioid subcmd message version be =
     (let payload = to_bytes be ioid @ [subcmd] @ encode_status_error message be in
      with_header True be version 11 payload)"

definition encode_op_put_getput_response_payload :: "clock \<Rightarrow> u32 \<Rightarrow> nt_payload \<Rightarrow> u8 \<Rightarrow> bool \<Rightarrow> bytes" where
  "encode_op_put_getput_response_payload now ioid payload_value version be =
     (let payload = to_bytes be ioid @ [0x40] @ encode_status_ok @ encode_nt_payload_bitset now payload_value be in
      with_header True be version 11 payload)"

definition encode_op_put_getput_response :: "clock \<Rightarrow> u32 \<Rightarrow> nt_scalar \<Rightarrow> u8 \<Rightarrow> bool \<Rightarrow> bytes" where
  "encode_op_put_getput_response now ioid nt version be =
     encode_op_put_getput_response_payload now ioid (NT_Scalar nt) version be"

definition encode_op_put_get_init_error_response :: "u32 \<Rightarrow> string \<Rightarrow> u8 \<Rightarrow> bool \<Rightarrow> bytes" where
  "encode_op_put_get_init_error_response ioid message version be =
     (let payload = to_bytes be ioid @ [0x08] @ encode_status_error message be in
      with_header True be version 12 payload)"

definition encode_op_put_get_data_error_response :: "u32 \<Rightarrow> string \<Rightarrow> u8 \<Rightarrow> bool \<Rightarrow> bytes" where
  "encode_op_put_get_data_error_response ioid message version be =
     (let payload = to_bytes be ioid @ [0x00] @ encode_status_error message be in
      with_header True be version 12 payload)"

definition encode_op_error :: "u8 \<Rightarrow> u8 \<Rightarrow> u32 \<Rightarrow> string \<Rightarrow> u8 \<Rightarrow> bool \<Rightarrow> bytes" where
  "encode_op_error command subcmd ioid message version be =
     (let payload = to_bytes be ioid @ [subcmd] @ [0x02] @ encode_string_pva message be @ encode_string_pva [] be in
      with_header True be version command payload)"

definition encode_destroy_channel_response :: "u32 \<Rightarrow> u32 \<Rightarrow> u8 \<Rightarrow> bool \<Rightarrow> bytes" where
  "encode_destroy_channel_response sid cid version be =
     (let payload = to_bytes be sid @ to_bytes be cid in with_header True be version 8 payload)"

section \<open>Monitor frames\<close>

definition monitor_frame_capacity :: "u8 \<Rightarrow> nat \<Rightarrow> nat" where
  "monitor_frame_capacity subcmd parts =
     (let status = (if subcmd AND 0x10 \<noteq> 0 then length encode_status_ok else 0) in
      8 + 4 + 1 + status + parts + length (encode_size_pva 0 False))"

definition encode_monitor_data_response_payload :: "clock \<Rightarrow> u32 \<Rightarrow> u8 \<Rightarrow> nt_payload \<Rightarrow> u8 \<Rightarrow> bool \<Rightarrow> bytes" where
  "encode_monitor_data_response_payload now ioid subcmd payload_value version be =
     (let (out, header_at) = begin_frame [] be version 13;
          out = out @ to_bytes be ioid;
          out = out @ [subcmd];
          out = (if subcmd AND 0x10 \<noteq> 0 then out @ encode_status_ok else out);
          out = push_nt_payload_bitset now out payload_value be;
          out = out @ encode_size_pva 0 be
      in finish_frame out header_at be)"

definition encode_monitor_data_response :: "clock \<Rightarrow> u32 \<Rightarrow> u8 \<Rightarrow> nt_scalar \<Rightarrow> u8 \<Rightarrow> bool \<Rightarrow> bytes" where
  "encode_monitor_data_response now ioid subcmd nt version be =
     encode_monitor_data_response_payload now ioid subcmd (NT_Scalar nt) version be"

text \<open>What the narrowed and the sparse frame have in common.\<close>

definition monitor_parts_frame :: "u32 \<Rightarrow> u8 \<Rightarrow> bytes \<Rightarrow> bytes \<Rightarrow> u8 \<Rightarrow> bool \<Rightarrow> bytes" where
  "monitor_parts_frame ioid subcmd bitset vals version be =
     (let (out, header_at) = begin_frame [] be version 13;
          out = out @ to_bytes be ioid;
          out = out @ [subcmd];
          out = (if subcmd AND 0x10 \<noteq> 0 then out @ encode_status_ok else out);
          out = out @ bitset;
          out = out @ vals;
          out = out @ encode_size_pva 0 be
      in finish_frame out header_at be)"

definition encode_monitor_data_response_filtered :: "clock \<Rightarrow> u32 \<Rightarrow> u8 \<Rightarrow> nt_payload \<Rightarrow> structure_desc \<Rightarrow> u8
    \<Rightarrow> bool \<Rightarrow> bytes" where
  "encode_monitor_data_response_filtered now ioid subcmd payload_value filtered_desc version be =
     (let (bitset, vals) = encode_nt_payload_filtered now payload_value filtered_desc be in
      monitor_parts_frame ioid subcmd bitset vals version be)"

definition encode_monitor_data_response_delta :: "clock \<Rightarrow> clock \<Rightarrow> u32 \<Rightarrow> u8 \<Rightarrow> nt_payload \<Rightarrow> nt_payload
    \<Rightarrow> structure_desc \<Rightarrow> u8 \<Rightarrow> bool \<Rightarrow> bytes option" where
  "encode_monitor_data_response_delta t1 t2 ioid subcmd prev_value next_value filtered_desc version be =
     (case encode_nt_payload_delta t1 t2 prev_value next_value filtered_desc be of
        None \<Rightarrow> None
      | Some (bitset, vals) \<Rightarrow> Some (monitor_parts_frame ioid subcmd bitset vals version be))"

section \<open>Addresses\<close>

datatype ip_addr = V4 u8 u8 u8 u8 | V6 bytes

definition ip_to_bytes :: "ip_addr \<Rightarrow> bytes" where
  "ip_to_bytes ip = (case ip of
     V4 a b c d \<Rightarrow> replicate 10 0 @ [0xFF, 0xFF] @ [a, b, c, d]
   | V6 octets \<Rightarrow> octets)"

definition ip_from_bytes :: "bytes \<Rightarrow> ip_addr option" where
  "ip_from_bytes addr =
     (if list_all (\<lambda>b. b = 0) addr then None
      else if list_all (\<lambda>b. b = 0) (take 10 addr) \<and> addr ! 10 = 0xFF \<and> addr ! 11 = 0xFF
      then Some (V4 (addr ! 12) (addr ! 13) (addr ! 14) (addr ! 15))
      else Some (V6 addr))"

definition socket_addr_from_pva_bytes :: "bytes \<Rightarrow> u16 \<Rightarrow> (ip_addr \<times> u16) option" where
  "socket_addr_from_pva_bytes addr port = map_option (\<lambda>ip. (ip, port)) (ip_from_bytes addr)"

end
