(* ===== verification/Pva_Decode.thy ===== *)
theory Pva_Decode
  imports Monitor_Update
begin

text \<open>
  The messages the library receives (\<^verbatim>\<open>spvirit-codec/src/epics_decode.rs\<close>): the header, one
  payload type with its decoder for every command, and the dispatch on the command. A constructor that
  cannot fail in the source still returns an option where the source declares one. The log messages
  and the \<^verbatim>\<open>Display\<close> texts are left out.
\<close>

section \<open>Headers\<close>

definition PVA_COMMAND_NAMES :: "string list" where
  "PVA_COMMAND_NAMES = [''BEACON'', ''CONNECTION_VALIDATION'', ''ECHO'', ''SEARCH'', ''SEARCH_RESPONSE'',
     ''AUTHNZ'', ''ACL_CHANGE'', ''CREATE_CHANNEL'', ''DESTROY_CHANNEL'', ''CONNECTION_VALIDATED'', ''GET'',
     ''PUT'', ''PUT_GET'', ''MONITOR'', ''ARRAY'', ''DESTROY_REQUEST'', ''PROCESS'', ''GET_FIELD'', ''MESSAGE'',
     ''MULTIPLE_DATA'', ''RPC'', ''CANCEL_REQUEST'', ''ORIGIN_TAG'']"

definition command_name :: "u8 \<Rightarrow> string" where
  "command_name code = (if unat code < length PVA_COMMAND_NAMES then PVA_COMMAND_NAMES ! unat code
     else ''Unknown'')"

record pva_control_flags =
  cf_raw :: u8
  cf_is_application :: bool
  cf_is_control :: bool
  cf_is_segmented :: u8
  cf_is_first_segment :: bool
  cf_is_last_segment :: bool
  cf_is_middle_segment :: bool
  cf_is_client :: bool
  cf_is_server :: bool
  cf_is_lsb :: bool
  cf_is_msb :: bool
  cf_is_valid :: bool

definition pva_control_flags_new :: "u8 \<Rightarrow> pva_control_flags" where
  "pva_control_flags_new raw =
     (let is_segmented = drop_bit 4 (raw AND 0x30) in
      \<lparr>cf_raw = raw,
       cf_is_application = (raw AND 0x01 = 0),
       cf_is_control = (raw AND 0x01 \<noteq> 0),
       cf_is_segmented = is_segmented,
       cf_is_first_segment = (is_segmented = 0x01),
       cf_is_last_segment = (is_segmented = 0x02),
       cf_is_middle_segment = (is_segmented = 0x03),
       cf_is_client = (raw AND 0x40 = 0),
       cf_is_server = (raw AND 0x40 \<noteq> 0),
       cf_is_lsb = (raw AND 0x80 = 0),
       cf_is_msb = (raw AND 0x80 \<noteq> 0),
       cf_is_valid = (raw AND 0x0E = 0)\<rparr>)"

record pva_header =
  h_magic :: u8
  h_version :: u8
  h_flags :: pva_control_flags
  h_command :: u8
  h_payload_length :: u32

definition pva_header_try_new :: "bytes \<Rightarrow> pva_header option" where
  "pva_header_try_new raw =
     (if length raw < 8 then None
      else let flags = pva_control_flags_new (raw ! 2) in
        Some \<lparr>h_magic = raw ! 0, h_version = raw ! 1, h_flags = flags, h_command = raw ! 3,
          h_payload_length = of_bytes (cf_is_msb flags) (take 4 (drop 4 raw))\<rparr>)"

definition pva_header_is_valid :: "pva_header \<Rightarrow> bool" where
  "pva_header_is_valid h \<longleftrightarrow> h_magic h = 0xCA \<and> cf_is_valid (h_flags h)"

section \<open>Reading at an offset\<close>

definition u32_at :: "bool \<Rightarrow> bytes \<Rightarrow> nat \<Rightarrow> u32" where
  "u32_at is_be raw offset = of_bytes is_be (take 4 (drop offset raw))"

definition u16_at :: "bool \<Rightarrow> bytes \<Rightarrow> nat \<Rightarrow> u16" where
  "u16_at is_be raw offset = of_bytes is_be (take 2 (drop offset raw))"

definition ok :: "'a decode_result \<Rightarrow> 'a option" where
  "ok r = (case r of Inl _ \<Rightarrow> None | Inr x \<Rightarrow> Some x)"

definition pva_decode_size :: "bytes \<Rightarrow> bool \<Rightarrow> (nat \<times> nat) option" where
  "pva_decode_size raw is_be = ok (decode_size_prefixed raw is_be)"

definition pva_decode_string :: "bytes \<Rightarrow> bool \<Rightarrow> (string \<times> nat) option" where
  "pva_decode_string raw is_be = ok (decode_string_prefixed raw is_be Lossy)"

section \<open>Statuses\<close>

record pva_status =
  st_code :: u8
  st_message :: "string option"
  st_stack :: "string option"

definition is_error :: "pva_status \<Rightarrow> bool" where
  "is_error s \<longleftrightarrow> st_code s \<noteq> 0"

definition decode_status :: "bytes \<Rightarrow> bool \<Rightarrow> pva_status option \<times> nat" where
  "decode_status raw is_be =
     (if raw = [] then (None, 0)
      else let code = raw ! 0 in
        if code = 0xff then (None, 1)
        else case pva_decode_string (drop 1 raw) is_be of
            None \<Rightarrow> (Some \<lparr>st_code = code, st_message = None, st_stack = None\<rparr>, 1)
          | Some (msg, consumed) \<Rightarrow>
              let idx = 1 + consumed in
              case pva_decode_string (drop idx raw) is_be of
                None \<Rightarrow> (Some \<lparr>st_code = code, st_message = Some msg, st_stack = None\<rparr>, idx)
              | Some (st, consumed2) \<Rightarrow>
                  (Some \<lparr>st_code = code, st_message = Some msg, st_stack = Some st\<rparr>, idx + consumed2))"

definition decode_op_response_status :: "bytes \<Rightarrow> bool \<Rightarrow> pva_status option decode_result" where
  "decode_op_response_status raw is_be =
     (case pva_header_try_new raw of
        None \<Rightarrow> Inl (Truncated 8 (length raw))
      | Some header \<Rightarrow>
          let payload_len = unat (h_payload_length header) in
          if length raw < 8 + payload_len then Inl (Truncated (8 + payload_len) (length raw))
          else let payload = take payload_len (drop 8 raw) in
            if length payload < 5 then Inl (Truncated 5 (length payload))
            else Inr (fst (decode_status (drop 5 payload) is_be)))"

section \<open>Search and beacons\<close>

record pva_search_response =
  sr_guid :: bytes
  sr_seq :: u32
  sr_addr :: bytes
  sr_port :: u16
  sr_protocol :: string
  sr_found :: bool
  sr_cids :: "u32 list"

text \<open>The loop over the announced channel IDs stops where the bytes do.\<close>

primrec read_cids :: "nat \<Rightarrow> bytes \<Rightarrow> bool \<Rightarrow> nat \<Rightarrow> u32 list" where
  "read_cids 0 raw is_be offset = []"
| "read_cids (Suc n) raw is_be offset =
     (if length raw < offset + 4 then [] else u32_at is_be raw offset # read_cids n raw is_be (offset + 4))"

definition pva_search_response_new :: "bytes \<Rightarrow> bool \<Rightarrow> pva_search_response option" where
  "pva_search_response_new raw is_be =
     (if length raw < 34 then None
      else case pva_decode_string (drop 34 raw) is_be of
          None \<Rightarrow> None
        | Some (protocol, consumed) \<Rightarrow>
            let offset = 34 + consumed;
                base = \<lparr>sr_guid = take 12 raw, sr_seq = u32_at is_be raw 12, sr_addr = take 16 (drop 16 raw),
                  sr_port = u16_at is_be raw 32, sr_protocol = protocol, sr_found = False, sr_cids = []\<rparr>
            in if length raw \<le> offset then Some base
            else let found = raw ! offset \<noteq> 0; offset = offset + 1 in
              Some (base\<lparr>sr_found := found,
                sr_cids := (if length raw \<ge> offset + 2
                  then read_cids (unat (u16_at is_be raw offset)) raw is_be (offset + 2) else [])\<rparr>))"

record pva_search =
  se_seq :: u32
  se_mask :: u8
  se_addr :: bytes
  se_port :: u16
  se_protocols :: "string list"
  se_pv_requests :: "(u32 \<times> string) list"
  se_pv_names :: "string list"

primrec read_strings :: "nat \<Rightarrow> bytes \<Rightarrow> bool \<Rightarrow> nat \<Rightarrow> (string list \<times> nat) option" where
  "read_strings 0 raw is_be offset = Some ([], offset)"
| "read_strings (Suc n) raw is_be offset =
     (case pva_decode_string (drop offset raw) is_be of
        None \<Rightarrow> None
      | Some (s, len) \<Rightarrow>
          (case read_strings n raw is_be (offset + len) of
             None \<Rightarrow> None
           | Some (ss, offset) \<Rightarrow> Some (s # ss, offset)))"

primrec read_requests :: "nat \<Rightarrow> bytes \<Rightarrow> bool \<Rightarrow> nat \<Rightarrow> (u32 \<times> string) list option" where
  "read_requests 0 raw is_be offset = Some []"
| "read_requests (Suc n) raw is_be offset =
     (if length raw < offset + 4 then None
      else let cid = u32_at is_be raw offset; offset = offset + 4 in
        case pva_decode_string (drop offset raw) is_be of
          None \<Rightarrow> None
        | Some (pv_name, len) \<Rightarrow> map_option ((#) (cid, pv_name)) (read_requests n raw is_be (offset + len)))"

definition pva_search_new :: "bytes \<Rightarrow> bool \<Rightarrow> pva_search option" where
  "pva_search_new raw is_be =
     (if raw = [] then None
      else if length raw < 26 then None
      else case pva_decode_size (drop 26 raw) is_be of
          None \<Rightarrow> None
        | Some (protocol_count, consumed) \<Rightarrow>
            (case read_strings protocol_count raw is_be (26 + consumed) of
               None \<Rightarrow> None
             | Some (protocols, offset) \<Rightarrow>
                 if length raw < offset + 2 then None
                 else case read_requests (unat (u16_at is_be raw offset)) raw is_be (offset + 2) of
                     None \<Rightarrow> None
                   | Some pv_requests \<Rightarrow>
                       Some \<lparr>se_seq = u32_at is_be raw 0, se_mask = raw ! 4, se_addr = take 16 (drop 8 raw),
                         se_port = u16_at is_be raw 24, se_protocols = protocols,
                         se_pv_requests = pv_requests, se_pv_names = map snd pv_requests\<rparr>))"

record pva_beacon =
  be_guid :: bytes
  be_flags :: u8
  be_sequence_id :: u8
  be_change_count :: u16
  be_server_address :: bytes
  be_server_port :: u16
  be_protocol :: string
  be_server_status_if :: string

definition pva_beacon_new :: "bytes \<Rightarrow> bool \<Rightarrow> pva_beacon option" where
  "pva_beacon_new raw is_be =
     (if length raw < 34 then None
      else case pva_decode_string (drop 34 raw) is_be of
          None \<Rightarrow> None
        | Some (protocol, len) \<Rightarrow>
            (case (if len > 0 then map_option fst (pva_decode_string (drop (34 + len) raw) is_be) else Some []) of
               None \<Rightarrow> None
             | Some server_status_if \<Rightarrow>
                 Some \<lparr>be_guid = take 12 raw, be_flags = raw ! 12, be_sequence_id = raw ! 13,
                   be_change_count = u16_at is_be raw 14, be_server_address = take 16 (drop 16 raw),
                   be_server_port = u16_at is_be raw 32, be_protocol = protocol,
                   be_server_status_if = server_status_if\<rparr>))"

section \<open>Connection set-up\<close>

record pva_connection_validation =
  cv_is_server :: bool
  cv_buffer_size :: u32
  cv_introspection_registry_size :: u16
  cv_qos :: u16
  cv_authz :: "string option"
  cv_user :: "string option"
  cv_host :: "string option"

text \<open>The first method that is not empty, of as many as are announced and can be read.\<close>

primrec first_method :: "nat \<Rightarrow> bytes \<Rightarrow> bool \<Rightarrow> nat \<Rightarrow> string option \<Rightarrow> string option" where
  "first_method 0 raw is_be offset found = found"
| "first_method (Suc n) raw is_be offset found =
     (case pva_decode_string (drop offset raw) is_be of
        None \<Rightarrow> found
      | Some (s, c) \<Rightarrow>
          first_method n raw is_be (offset + c) (if found = None \<and> s \<noteq> [] then Some s else found))"

primrec string_field :: "(string \<times> decoded_value) list \<Rightarrow> string \<Rightarrow> string option" where
  "string_field [] name = None"
| "string_field (f # fs) name =
     (case (fst f = name, snd f) of (True, DV_String s) \<Rightarrow> Some s | _ \<Rightarrow> string_field fs name)"

definition decoded_string_field :: "decoded_value \<Rightarrow> string \<Rightarrow> string option" where
  "decoded_string_field decoded name = (case decoded of
     DV_Structure fs \<Rightarrow> string_field fs name | _ \<Rightarrow> None)"

definition decode_ca_credentials :: "bytes \<Rightarrow> bool \<Rightarrow> string option \<times> string option" where
  "decode_ca_credentials bs is_be =
     (case parse_introspection_with_len bs (pvd_new is_be) of
        (Inl _, _) \<Rightarrow> (None, None)
      | (Inr (desc, consumed), dec) \<Rightarrow>
          (case fst (decode_structure (drop consumed bs) desc dec) of
             Inl _ \<Rightarrow> (None, None)
           | Inr (decoded, _) \<Rightarrow>
               (decoded_string_field decoded ''user'', decoded_string_field decoded ''host'')))"

definition pva_connection_validation_new :: "bytes \<Rightarrow> bool \<Rightarrow> bool \<Rightarrow> pva_connection_validation option" where
  "pva_connection_validation_new raw is_be is_server =
     (if length raw < 6 then None
      else let buffer_size = u32_at is_be raw 0; registry_size = u16_at is_be raw 4 in
      if is_server then
        let authz =
          (if 6 < length raw then
             (case pva_decode_size (drop 6 raw) is_be of
                Some (count, consumed) \<Rightarrow> first_method count raw is_be (6 + consumed) None
              | None \<Rightarrow> map_option fst (pva_decode_string (drop 6 raw) is_be))
           else None)
        in Some \<lparr>cv_is_server = is_server, cv_buffer_size = buffer_size,
          cv_introspection_registry_size = registry_size, cv_qos = 0, cv_authz = authz,
          cv_user = None, cv_host = None\<rparr>
      else if length raw < 8 then None
      else
        let qos = u16_at is_be raw 6;
            (authz, user, host) =
              (if length raw > 8 then
                 (case pva_decode_string (drop 8 raw) is_be of
                    None \<Rightarrow> (None, None, None)
                  | Some (s, consumed) \<Rightarrow>
                      let off = 8 + consumed;
                          (user, host) = (if off < length raw then decode_ca_credentials (drop off raw) is_be
                            else (None, None))
                      in (Some s, user, host))
               else (None, None, None))
        in Some \<lparr>cv_is_server = is_server, cv_buffer_size = buffer_size,
          cv_introspection_registry_size = registry_size, cv_qos = qos, cv_authz = authz,
          cv_user = user, cv_host = host\<rparr>)"

type_synonym pva_connection_validated = "pva_status option"

definition pva_connection_validated_new :: "bytes \<Rightarrow> bool \<Rightarrow> pva_connection_validated option" where
  "pva_connection_validated_new raw is_be = Some (fst (decode_status raw is_be))"

record pva_auth_nz =
  an_raw :: bytes
  an_strings :: "string list"

primrec strings_upto :: "nat \<Rightarrow> bytes \<Rightarrow> bool \<Rightarrow> nat \<Rightarrow> string list" where
  "strings_upto 0 raw is_be offset = []"
| "strings_upto (Suc n) raw is_be offset =
     (case pva_decode_string (drop offset raw) is_be of
        None \<Rightarrow> []
      | Some (s, len) \<Rightarrow> s # strings_upto n raw is_be (offset + len))"

definition pva_auth_nz_new :: "bytes \<Rightarrow> bool \<Rightarrow> pva_auth_nz option" where
  "pva_auth_nz_new raw is_be =
     Some \<lparr>an_raw = raw, an_strings = (case pva_decode_size raw is_be of
       None \<Rightarrow> [] | Some (count, consumed) \<Rightarrow> strings_upto count raw is_be consumed)\<rparr>"

record pva_acl_change =
  ac_status :: "pva_status option"
  ac_raw :: bytes

definition pva_acl_change_new :: "bytes \<Rightarrow> bool \<Rightarrow> pva_acl_change option" where
  "pva_acl_change_new raw is_be =
     (case decode_status raw is_be of (status, consumed) \<Rightarrow>
        Some \<lparr>ac_status = status, ac_raw = (if length raw > consumed then drop consumed raw else [])\<rparr>)"

section \<open>Channels and introspection\<close>

record pva_get_field =
  gf_is_server :: bool
  gf_cid :: u32
  gf_sid :: "u32 option"
  gf_ioid :: "u32 option"
  gf_field_name :: "string option"
  gf_status :: "pva_status option"
  gf_introspection :: "structure_desc option"
  gf_raw :: bytes

definition parse_status_then_intro :: "bytes \<Rightarrow> bool \<Rightarrow> pva_status option \<times> bytes \<times> structure_desc option" where
  "parse_status_then_intro bs is_be =
     (case decode_status bs is_be of (status, consumed) \<Rightarrow>
        let pvd_raw = (if length bs > consumed then drop consumed bs else []);
            introspection = (if pvd_raw \<noteq> [] then ok (fst (parse_introspection pvd_raw (pvd_new is_be))) else None)
        in (status, pvd_raw, introspection))"

text \<open>A string that ends exactly where the payload ends.\<close>

definition last_string :: "bytes \<Rightarrow> bool \<Rightarrow> nat \<Rightarrow> string option" where
  "last_string raw is_be offset = (case pva_decode_string (drop offset raw) is_be of
     None \<Rightarrow> None | Some (s, consumed) \<Rightarrow> if offset + consumed = length raw then Some s else None)"

definition pva_get_field_new :: "bytes \<Rightarrow> bool \<Rightarrow> bool \<Rightarrow> pva_get_field option" where
  "pva_get_field_new raw is_be is_server =
     (if \<not> is_server then
        if length raw < 4 then None
        else
          let cid = u32_at is_be raw 0;
              legacy_field = (if length raw > 4 then last_string raw is_be 4 else None);
              epics_variant = (if length raw \<ge> 9
                then map_option (Pair (u32_at is_be raw 4)) (last_string raw is_be 8) else None);
              (sid, ioid, field_name) = (case epics_variant of
                 Some (ioid, field) \<Rightarrow> (Some cid, Some ioid, Some field)
               | None \<Rightarrow> (None, None, legacy_field))
          in Some \<lparr>gf_is_server = is_server, gf_cid = cid, gf_sid = sid, gf_ioid = ioid,
            gf_field_name = field_name, gf_status = None, gf_introspection = None, gf_raw = []\<rparr>
      else
        let (cid, status, pvd_raw, introspection) =
              (if length raw \<ge> 4 then (u32_at is_be raw 0, parse_status_then_intro (drop 4 raw) is_be)
               else (0, parse_status_then_intro raw is_be))
        in Some \<lparr>gf_is_server = is_server, gf_cid = cid, gf_sid = None, gf_ioid = None,
          gf_field_name = None, gf_status = status, gf_introspection = introspection, gf_raw = pvd_raw\<rparr>)"

record pva_create_channel =
  cc_is_server :: bool
  cc_channels :: "(u32 \<times> string) list"
  cc_cid :: u32
  cc_sid :: u32
  cc_status :: "pva_status option"

primrec channels_upto :: "nat \<Rightarrow> bytes \<Rightarrow> bool \<Rightarrow> nat \<Rightarrow> (u32 \<times> string) list" where
  "channels_upto 0 raw is_be offset = []"
| "channels_upto (Suc n) raw is_be offset =
     (if length raw < offset + 4 then []
      else let cid = u32_at is_be raw offset; offset = offset + 4 in
        case pva_decode_string (drop offset raw) is_be of
          None \<Rightarrow> []
        | Some (pv_name, consumed) \<Rightarrow> (cid, pv_name) # channels_upto n raw is_be (offset + consumed))"

text \<open>The status of a CREATE_CHANNEL response, read inline at offset 8.\<close>

definition create_status :: "bytes \<Rightarrow> bool \<Rightarrow> pva_status option" where
  "create_status raw is_be =
     (if length raw > 8 then
        let code = raw ! 8 in
        if code = 0xff then None
        else
          let (message, idx) =
                (if 9 < length raw then
                   (case pva_decode_string (drop 9 raw) is_be of
                      None \<Rightarrow> (None, 9) | Some (msg, consumed) \<Rightarrow> (Some msg, 9 + consumed))
                 else (None, 9));
              stack = (if idx < length raw then map_option fst (pva_decode_string (drop idx raw) is_be) else None)
          in Some \<lparr>st_code = code, st_message = message, st_stack = stack\<rparr>
      else None)"

definition pva_create_channel_new :: "bytes \<Rightarrow> bool \<Rightarrow> bool \<Rightarrow> pva_create_channel option" where
  "pva_create_channel_new raw is_be is_server =
     (if raw = [] then None
      else if is_server then
        if length raw < 8 then None
        else Some \<lparr>cc_is_server = True, cc_channels = [], cc_cid = u32_at is_be raw 0,
          cc_sid = u32_at is_be raw 4, cc_status = create_status raw is_be\<rparr>
      else if length raw < 2 then None
      else Some \<lparr>cc_is_server = False,
        cc_channels = channels_upto (unat (u16_at is_be raw 0)) raw is_be 2,
        cc_cid = 0, cc_sid = 0, cc_status = None\<rparr>)"

record pva_destroy_channel =
  dc_sid :: u32
  dc_cid :: u32

definition pva_destroy_channel_new :: "bytes \<Rightarrow> bool \<Rightarrow> pva_destroy_channel option" where
  "pva_destroy_channel_new raw is_be =
     (if length raw < 8 then None
      else Some \<lparr>dc_sid = u32_at is_be raw 0, dc_cid = u32_at is_be raw 4\<rparr>)"

section \<open>Requests, messages and tags\<close>

record pva_message_payload =
  me_ioid :: u32
  me_message_type :: u8
  me_message :: "string option"
  me_status :: "pva_status option"
  me_raw :: bytes

definition pva_message_new :: "bytes \<Rightarrow> bool \<Rightarrow> pva_message_payload option" where
  "pva_message_new raw is_be =
     (if length raw \<ge> 5 then
        let message_type = raw ! 4;
            message = (if length raw > 5 then map_option fst (pva_decode_string (drop 5 raw) is_be) else None);
            code = (if message_type = 0 then 0xFF else if message_type = 1 then 0x01
              else if message_type = 2 then 0x02 else 0x03)
        in Some \<lparr>me_ioid = u32_at is_be raw 0, me_message_type = message_type, me_message = message,
          me_status = Some \<lparr>st_code = code, st_message = message, st_stack = None\<rparr>, me_raw = raw\<rparr>
      else Some \<lparr>me_ioid = 0, me_message_type = 0, me_message = None, me_status = None, me_raw = raw\<rparr>)"

record pva_multiple_data_entry =
  md_ioid :: u32
  md_subcmd :: u8

record pva_multiple_data =
  md_entries :: "pva_multiple_data_entry list"
  md_raw :: bytes

primrec entries_upto :: "nat \<Rightarrow> bytes \<Rightarrow> bool \<Rightarrow> nat \<Rightarrow> pva_multiple_data_entry list" where
  "entries_upto 0 raw is_be offset = []"
| "entries_upto (Suc n) raw is_be offset =
     (if length raw < offset + 5 then []
      else \<lparr>md_ioid = u32_at is_be raw offset, md_subcmd = raw ! (offset + 4)\<rparr>
        # entries_upto n raw is_be (offset + 5))"

definition pva_multiple_data_new :: "bytes \<Rightarrow> bool \<Rightarrow> pva_multiple_data option" where
  "pva_multiple_data_new raw is_be =
     Some \<lparr>md_entries = (case pva_decode_size raw is_be of
       None \<Rightarrow> [] | Some (count, consumed) \<Rightarrow> entries_upto count raw is_be consumed), md_raw = raw\<rparr>"

record pva_cancel_request =
  cr_request_id :: u32
  cr_status :: "pva_status option"

definition pva_cancel_request_new :: "bytes \<Rightarrow> bool \<Rightarrow> pva_cancel_request option" where
  "pva_cancel_request_new raw is_be =
     (if length raw < 4 then None
      else Some \<lparr>cr_request_id = u32_at is_be raw 0,
        cr_status = (if length raw > 4 then fst (decode_status (drop 4 raw) is_be) else None)\<rparr>)"

record pva_destroy_request =
  dr_sid :: u32
  dr_request_id :: u32

definition pva_destroy_request_new :: "bytes \<Rightarrow> bool \<Rightarrow> pva_destroy_request option" where
  "pva_destroy_request_new raw is_be =
     (if length raw \<ge> 8 then Some \<lparr>dr_sid = u32_at is_be raw 0, dr_request_id = u32_at is_be raw 4\<rparr>
      else if length raw \<ge> 4 then Some \<lparr>dr_sid = 0, dr_request_id = u32_at is_be raw 0\<rparr>
      else None)"

definition pva_origin_tag_new :: "bytes \<Rightarrow> bytes option" where
  "pva_origin_tag_new raw = (if length raw < 16 then None else Some (take 16 raw))"

section \<open>Operations\<close>

record pva_op =
  op_sid_or_cid :: u32
  op_ioid :: u32
  op_subcmd :: u8
  op_body :: bytes
  op_command :: u8
  op_is_server :: bool
  op_status :: "pva_status option"
  op_introspection :: "structure_desc option"
  op_decoded_value :: "decoded_value option"

definition has_status :: "bool \<Rightarrow> u8 \<Rightarrow> u8 \<Rightarrow> bool" where
  "has_status is_server subcmd command \<longleftrightarrow>
     is_server \<and> (subcmd AND 0x08 \<noteq> 0 \<or> command \<noteq> 13 \<and> command \<noteq> 14)"

definition pva_op_new :: "bytes \<Rightarrow> bool \<Rightarrow> bool \<Rightarrow> u8 \<Rightarrow> pva_op option" where
  "pva_op_new raw is_be is_server command =
     (if length raw < 5 then None
      else if \<not> is_server \<and> length raw < 9 then None
      else
        let (sid_or_cid, ioid, subcmd, offset) =
              (if is_server then (0, u32_at is_be raw 0, raw ! 4, 5)
               else (u32_at is_be raw 0, u32_at is_be raw 4, raw ! 8, 9));
            body = (if length raw > offset then drop offset raw else []);
            (status, pvd_raw) =
              (if body = [] then (None, [])
               else if has_status is_server subcmd command then
                 (case decode_status body is_be of
                    (parsed, consumed) \<Rightarrow> (parsed, if length body > consumed then drop consumed body else []))
               else (None, body));
            introspection =
              (if is_server \<and> subcmd AND 0x08 \<noteq> 0 \<and> pvd_raw \<noteq> []
               then ok (fst (parse_introspection pvd_raw (pvd_new is_be))) else None)
        in Some \<lparr>op_sid_or_cid = sid_or_cid, op_ioid = ioid, op_subcmd = subcmd, op_body = pvd_raw,
          op_command = command, op_is_server = is_server, op_status = status,
          op_introspection = introspection, op_decoded_value = None\<rparr>)"

datatype decode_mode = StrictMode | LenientMode

definition decode_with_field_desc :: "pva_op \<Rightarrow> structure_desc \<Rightarrow> bool \<Rightarrow> decode_mode
    \<Rightarrow> unit decode_result \<times> pva_op" where
  "decode_with_field_desc op field_desc is_be mode =
     (if op_body op = [] then (Inr (), op)
      else
        let decoder = pvd_new is_be;
            value =
              (if op_subcmd op = 0x00 \<or> op_subcmd op AND 0x40 \<noteq> 0 then
                 if op_command op = 13 then
                   (case mode of
                      StrictMode \<Rightarrow> map_sum id mu_value (fst (decode_monitor_update (op_body op) field_desc decoder))
                    | LenientMode \<Rightarrow>
                        map_sum id (mu_value \<circ> fst) (fst (decode_monitor_update_lenient (op_body op) field_desc decoder)))
                 else map_sum id fst (fst (decode_structure_with_bitset (op_body op) field_desc decoder))
               else map_sum id fst (fst (decode_structure (op_body op) field_desc decoder)))
        in case value of
             Inl e \<Rightarrow> (Inl e, op)
           | Inr v \<Rightarrow> (Inr (), op\<lparr>op_decoded_value := Some v\<rparr>))"

section \<open>Packets\<close>

datatype pva_packet_command =
    PC_Control u8 u32
  | PC_Search pva_search
  | PC_SearchResponse pva_search_response
  | PC_Beacon pva_beacon
  | PC_ConnectionValidation pva_connection_validation
  | PC_ConnectionValidated pva_connection_validated
  | PC_AuthNZ pva_auth_nz
  | PC_AclChange pva_acl_change
  | PC_Op pva_op
  | PC_CreateChannel pva_create_channel
  | PC_DestroyChannel pva_destroy_channel
  | PC_GetField pva_get_field
  | PC_Message pva_message_payload
  | PC_MultipleData pva_multiple_data
  | PC_CancelRequest pva_cancel_request
  | PC_DestroyRequest pva_destroy_request
  | PC_OriginTag bytes
  | PC_Echo bytes
  | PC_Unknown u8 bool nat

record pva_packet =
  pk_header :: pva_header
  pk_payload :: bytes

definition pva_packet_try_new :: "bytes \<Rightarrow> pva_packet option" where
  "pva_packet_try_new raw = (case pva_header_try_new raw of
     None \<Rightarrow> None | Some header \<Rightarrow> Some \<lparr>pk_header = header, pk_payload = raw\<rparr>)"

definition pva_packet_from_vec :: "bytes \<Rightarrow> pva_packet option" where
  "pva_packet_from_vec raw = (case pva_header_try_new raw of
     None \<Rightarrow> None | Some header \<Rightarrow> Some \<lparr>pk_header = header, pk_payload = raw\<rparr>)"

definition decode_command :: "u8 \<Rightarrow> bytes \<Rightarrow> bool \<Rightarrow> bool \<Rightarrow> pva_packet_command option" where
  "decode_command command payload_slice msb server =
     (if command = 0 then map_option PC_Beacon (pva_beacon_new payload_slice msb)
      else if command = 2 then Some (PC_Echo payload_slice)
      else if command = 1 then map_option PC_ConnectionValidation (pva_connection_validation_new payload_slice msb server)
      else if command = 3 then map_option PC_Search (pva_search_new payload_slice msb)
      else if command = 4 then map_option PC_SearchResponse (pva_search_response_new payload_slice msb)
      else if command = 5 then map_option PC_AuthNZ (pva_auth_nz_new payload_slice msb)
      else if command = 6 then map_option PC_AclChange (pva_acl_change_new payload_slice msb)
      else if command = 7 then map_option PC_CreateChannel (pva_create_channel_new payload_slice msb server)
      else if command = 8 then map_option PC_DestroyChannel (pva_destroy_channel_new payload_slice msb)
      else if command = 9 then map_option PC_ConnectionValidated (pva_connection_validated_new payload_slice msb)
      else if command \<in> {10, 11, 12, 13, 14, 16, 20} then map_option PC_Op (pva_op_new payload_slice msb server command)
      else if command = 15 then map_option PC_DestroyRequest (pva_destroy_request_new payload_slice msb)
      else if command = 17 then map_option PC_GetField (pva_get_field_new payload_slice msb server)
      else if command = 18 then map_option PC_Message (pva_message_new payload_slice msb)
      else if command = 19 then map_option PC_MultipleData (pva_multiple_data_new payload_slice msb)
      else if command = 21 then map_option PC_CancelRequest (pva_cancel_request_new payload_slice msb)
      else if command = 22 then map_option PC_OriginTag (pva_origin_tag_new payload_slice)
      else None)"

definition decode_payload :: "pva_packet \<Rightarrow> pva_packet_command option" where
  "decode_payload packet =
     (let header = pk_header packet; payload = pk_payload packet; flags = h_flags header in
      if length payload < 8 then None
      else
        let expected_total_len = (if cf_is_control flags then 8 else 8 + unat (h_payload_length header)) in
        if length payload < expected_total_len then None
        else
          let payload_slice = take (expected_total_len - 8) (drop 8 payload) in
          if cf_is_control flags then Some (PC_Control (h_command header) (h_payload_length header))
          else case decode_command (h_command header) payload_slice (cf_is_msb flags) (cf_is_server flags) of
              Some cmd \<Rightarrow> Some cmd
            | None \<Rightarrow> Some (PC_Unknown (h_command header) False (length payload_slice)))"

definition pva_packet_is_valid :: "pva_packet \<Rightarrow> bool" where
  "pva_packet_is_valid packet = pva_header_is_valid (pk_header packet)"

end
