(* ===== verification/Pvd_Wire.thy ===== *)
theory Pvd_Wire
  imports Value_Safety Desc_Roundtrip
begin

text \<open>
  The wire format of pvData values, as a grammar, and the decoder's completeness for it.

  \<open>wire_value be L h n ft v bs\<close> says that \<open>bs\<close> is a wire form of the value \<open>v\<close> at type
  \<open>ft\<close>, in the byte order \<open>be\<close> and within the array limits \<open>L\<close>; \<open>h\<close> bounds the
  nesting of the value, and \<open>n\<close> is the number of type nodes its variants carry. The rules are
  the pvData specification of the types the encoders use; \<^verbatim>\<open>decode_value\<close> accepts every
  sentence and returns its value, for exactly its bytes, whatever follows.
\<close>

section \<open>The grammar\<close>

inductive scalar_wire :: "bool \<Rightarrow> type_code \<Rightarrow> decoded_value \<Rightarrow> bytes \<Rightarrow> bool" for be where
  sw_bool: "scalar_wire be TC_Boolean (DV_Boolean b) [if b then 1 else 0]"
| sw_i8: "scalar_wire be TC_Int8 (DV_Int8 w8) [w8]"
| sw_i16: "scalar_wire be TC_Int16 (DV_Int16 w16) (to_bytes be w16)"
| sw_i32: "scalar_wire be TC_Int32 (DV_Int32 w32) (to_bytes be w32)"
| sw_i64: "scalar_wire be TC_Int64 (DV_Int64 w64) (to_bytes be w64)"
| sw_u8: "scalar_wire be TC_UInt8 (DV_UInt8 w8) [w8]"
| sw_u16: "scalar_wire be TC_UInt16 (DV_UInt16 w16) (to_bytes be w16)"
| sw_u32: "scalar_wire be TC_UInt32 (DV_UInt32 w32) (to_bytes be w32)"
| sw_u64: "scalar_wire be TC_UInt64 (DV_UInt64 w64) (to_bytes be w64)"
| sw_f32: "scalar_wire be TC_Float32 (DV_Float32 w32) (to_bytes be w32)"
| sw_f64: "scalar_wire be TC_Float64 (DV_Float64 w64) (to_bytes be w64)"

inductive wire_value :: "bool \<Rightarrow> decode_limits \<Rightarrow> nat \<Rightarrow> nat \<Rightarrow> field_type \<Rightarrow> decoded_value
    \<Rightarrow> bytes \<Rightarrow> bool"
  and wire_fields :: "bool \<Rightarrow> decode_limits \<Rightarrow> nat \<Rightarrow> nat \<Rightarrow> field_desc list
    \<Rightarrow> (string \<times> decoded_value) list \<Rightarrow> bytes \<Rightarrow> bool"
  and wire_items :: "bool \<Rightarrow> decode_limits \<Rightarrow> nat \<Rightarrow> nat \<Rightarrow> structure_desc
    \<Rightarrow> decoded_value list \<Rightarrow> bytes \<Rightarrow> bool"
  for be L where
  w_scalar: "0 < h \<Longrightarrow> scalar_wire be tc v bs \<Longrightarrow> wire_value be L h 0 (FT_Scalar tc) v bs"
| w_string: "0 < h \<Longrightarrow> wf_string s \<Longrightarrow>
    wire_value be L h 0 FT_String (DV_String s) (encode_string s be)"
| w_bounded: "0 < h \<Longrightarrow> wf_string s \<Longrightarrow>
    wire_value be L h 0 (FT_BoundedString b) (DV_String s) (encode_string s be)"
| w_scalars: "0 < h \<Longrightarrow> list_all2 (scalar_wire be tc) vs bss \<Longrightarrow>
    length vs \<le> max_scalar_array L \<Longrightarrow> length vs < 2 ^ 32 \<Longrightarrow>
    wire_value be L h 0 (FT_ScalarArray tc) (DV_Array vs) (encode_size (length vs) be @ concat bss)"
| w_strings: "0 < h \<Longrightarrow> list_all wf_string ss \<Longrightarrow>
    length ss \<le> max_string_array L \<Longrightarrow> length ss < 2 ^ 32 \<Longrightarrow>
    wire_value be L h 0 FT_StringArray (DV_Array (map DV_String ss))
      (encode_size (length ss) be @ concat (map (\<lambda>s. encode_string s be) ss))"
| w_struct: "0 < h \<Longrightarrow> wire_fields be L (h - 1) n (sd_fields d) vs bs \<Longrightarrow>
    wire_value be L h n (FT_Structure d) (DV_Structure vs) bs"
| w_structs: "0 < h \<Longrightarrow> wire_items be L (h - 1) n d vs bs \<Longrightarrow>
    length vs \<le> max_struct_array L \<Longrightarrow> length vs < 2 ^ 32 \<Longrightarrow>
    wire_value be L h n (FT_StructureArray d) (DV_Array vs) (encode_size (length vs) be @ bs)"
| w_union: "0 < h \<Longrightarrow> i < length fs \<Longrightarrow> i < 2 ^ 32 \<Longrightarrow>
    wire_value be L (h - 1) n (fd_type (fs ! i)) v bs \<Longrightarrow>
    wire_value be L h n (FT_Union fs) (DV_Structure [(fd_name (fs ! i), v)])
      (encode_size i be @ bs)"
| w_null: "0 < h \<Longrightarrow> wire_value be L h 0 FT_Variant DV_Null [0xFF]"
| w_variant: "0 < h \<Longrightarrow> wf_field_type (max_struct_fields L) ft \<Longrightarrow> type_height ft \<le> h - 1 \<Longrightarrow>
    wire_value be L (h - 1) n ft v bs \<Longrightarrow>
    wire_value be L h (type_nodes ft + n) FT_Variant v (encode_type_desc ft be @ bs)"
| f_nil: "wire_fields be L h 0 [] [] []"
| f_cons: "wire_value be L h n (fd_type f) v b1 \<Longrightarrow> wire_fields be L h m fs vs b2 \<Longrightarrow>
    b1 @ b2 \<noteq> [] \<Longrightarrow> wire_fields be L h (n + m) (f # fs) ((fd_name f, v) # vs) (b1 @ b2)"
| i_nil: "wire_items be L h 0 d [] []"
| i_null: "wire_items be L h m d vs b2 \<Longrightarrow>
    wire_items be L h m d (DV_Structure [] # vs) (0 # b2)"
| i_cons: "wire_fields be L h n (sd_fields d) fvs b1 \<Longrightarrow> wire_items be L h m d vs b2 \<Longrightarrow> k \<noteq> 0 \<Longrightarrow>
    wire_items be L h (n + m) d (DV_Structure fvs # vs) (k # b1 @ b2)"

section \<open>Costs\<close>

text \<open>The type nodes of the variants are paid for in bytes.\<close>

lemma wire_cost:
  "wire_value be L h n ft v bs \<Longrightarrow> n \<le> length bs"
  "wire_fields be L h n fs vs bs \<Longrightarrow> n \<le> length bs"
  "wire_items be L h n d ws bs \<Longrightarrow> n \<le> length bs"
proof (induction rule: wire_value_wire_fields_wire_items.inducts)
  case (w_variant h ft n v bs)
  then show ?case using type_nodes_le_length [of ft be] by simp
qed simp_all

section \<open>Scalars\<close>

lemma decode_scalar_wire:
  "scalar_wire be tc v bs \<Longrightarrow> d_is_be st = be \<Longrightarrow>
   decode_scalar (bs @ rest) tc st = (Inr (v, length bs), st)"
  by (induction rule: scalar_wire.induct) (auto simp: decode_scalar_def Let_def)

lemma scalar_wire_length: "scalar_wire be tc v bs \<Longrightarrow> tc_size tc = Some (length bs)"
  by (induction rule: scalar_wire.induct) simp_all

lemma tc_size_pos: "tc_size tc = Some m \<Longrightarrow> 0 < m"
  by (cases tc) auto

lemma length_concat_same:
  "\<forall>b \<in> set bss. length b = m \<Longrightarrow> length (concat bss) = m * length bss"
  by (induction bss) auto

lemma length_concat_ge: "\<forall>x \<in> set xs. f x \<noteq> [] \<Longrightarrow> length xs \<le> length (concat (map f xs))"
proof (induction xs)
  case (Cons x xs)
  then have "0 < length (f x)" by simp
  with Cons show ?case by (simp del: length_greater_0_conv)
qed simp

text \<open>The generic step of an array loop: each element is read back at its offset.\<close>

lemma decode_many_wire:
  assumes "list_all2 (\<lambda>v b. \<forall>pre rest. data = pre @ b @ rest \<longrightarrow>
      elem (length pre) st = (Inr (v, length pre + length b), st)) vs bss"
    and "data = pre @ concat bss @ rest"
  shows "decode_many elem (length vs) (length pre) acc st =
    (Inr (acc @ vs, length pre + length (concat bss)), st)"
  using assms
proof (induction vs bss arbitrary: pre acc rule: list_all2_induct)
  case Nil
  then show ?case by (simp add: ret_def)
next
  case (Cons v vs b bss)
  have "elem (length pre) st = (Inr (v, length (pre @ b)), st)"
    using Cons.hyps(1) Cons.prems by simp
  moreover have "decode_many elem (length vs) (length (pre @ b)) (acc @ [v]) st =
      (Inr ((acc @ [v]) @ vs, length (pre @ b) + length (concat bss)), st)"
    using Cons.prems by (intro Cons.IH) simp
  ultimately show ?case by (simp add: bind_dec_def)
qed

lemma decode_array_wire:
  assumes "decode_many elem (length vs) (length (encode_size (length vs) be)) [] st =
      (Inr (vs, length (encode_size (length vs) be) + length bs), st')"
    and "be = d_is_be st" "length vs \<le> limit (d_limits st)" "length vs < 2 ^ 32"
    and "length vs * m \<le> length bs"
  shows "decode_array (encode_size (length vs) be @ bs @ rest) kind m limit elem st =
    (Inr (DV_Array vs, length (encode_size (length vs) be) + length bs), st')"
proof -
  have "saturating_mul (length vs) m \<le> length bs + length rest"
    using assms(5) saturating_mul_le [of "length vs" m] by linarith
  then show ?thesis
    using assms
    by (simp add: decode_array_def decode_array_upto_def bind_dec_def decode_size_def
        decode_encode_size check_array_count_def ret_def)
qed

section \<open>Completeness of the decoder\<close>

text \<open>A decoder state with room for \<open>h\<close> more levels and \<open>n\<close> more type nodes.\<close>

definition room :: "bool \<Rightarrow> decode_limits \<Rightarrow> nat \<Rightarrow> nat \<Rightarrow> pvd_decoder \<Rightarrow> bool" where
  "room be L h n st \<longleftrightarrow> st_ok st \<and> d_is_be st = be \<and> d_limits st = L \<and>
     d_depth st + h \<le> max_depth L \<and> d_nodes st + n \<le> d_node_limit st"

definition spend :: "nat \<Rightarrow> pvd_decoder \<Rightarrow> pvd_decoder" where
  "spend n st = st\<lparr>d_nodes := d_nodes st + n\<rparr>"

definition deeper :: "pvd_decoder \<Rightarrow> pvd_decoder" where
  "deeper st = st\<lparr>d_budget_scope := Suc (d_budget_scope st), d_depth := Suc (d_depth st)\<rparr>"

definition rescoped :: "pvd_decoder \<Rightarrow> pvd_decoder" where
  "rescoped st = st\<lparr>d_budget_scope := Suc (d_budget_scope st)\<rparr>"

lemma room_deeper: "room be L h n st \<Longrightarrow> 0 < h \<Longrightarrow> room be L (h - 1) n (deeper st)"
  by (auto simp: room_def deeper_def st_ok_def)

lemma room_rescoped: "room be L h n st \<Longrightarrow> room be L h n (rescoped st)"
  by (auto simp: room_def rescoped_def st_ok_def)

lemma room_spend: "room be L h (n + m) st \<Longrightarrow> room be L h m (spend n st)"
  by (auto simp: room_def spend_def st_ok_def)

lemma room_less: "room be L h (n + m) st \<Longrightarrow> room be L h n st"
  by (auto simp: room_def)

lemma roomD:
  assumes "room be L h n st"
  shows "st_ok st" "d_is_be st = be" "d_limits st = L"
    "d_depth st + h \<le> max_depth (d_limits st)" "d_nodes st + n \<le> d_node_limit st"
  using assms by (simp_all add: room_def)

lemma spend_simps [simp]:
  "spend 0 st = st" "spend m (spend n st) = spend (n + m) st"
  "d_limits (spend n st) = d_limits st" "d_is_be (spend n st) = d_is_be st"
  by (simp_all add: spend_def ac_simps)

lemma deeper_simps [simp]: "d_limits (deeper st) = d_limits st" "d_is_be (deeper st) = d_is_be st"
  by (simp_all add: deeper_def)

lemma decode_value_step:
  assumes "room be L h n st" "0 < h"
    and "decode_value_match decode_value data ft (deeper st) = (Inr x, spend k (deeper st))"
  shows "decode_value data ft st = (Inr x, spend k st)"
  using assms
  by (simp add: decode_value_unfold decode_value_body_def with_scope_def with_depth_def Let_def
      room_def st_ok_def deeper_def spend_def)

lemma decode_structure_step:
  assumes "room be L h n st"
    and "decode_fields decode_value data (sd_fields d) 0 [] (rescoped st) = (Inr x, spend k (rescoped st))"
  shows "decode_structure_with decode_value data d st = (Inr x, spend k st)"
  using assms
  by (simp add: decode_structure_with_def with_scope_def Let_def room_def st_ok_def rescoped_def
      spend_def)

text \<open>What completeness says of each syntactic class.\<close>

definition value_ok :: "bool \<Rightarrow> decode_limits \<Rightarrow> nat \<Rightarrow> nat \<Rightarrow> field_type \<Rightarrow> decoded_value
    \<Rightarrow> bytes \<Rightarrow> bool" where
  "value_ok be L h n ft v bs \<longleftrightarrow> (\<forall>st rest. room be L h n st \<longrightarrow>
     decode_value (bs @ rest) ft st = (Inr (v, length bs), spend n st))"

definition fields_ok :: "bool \<Rightarrow> decode_limits \<Rightarrow> nat \<Rightarrow> nat \<Rightarrow> field_desc list
    \<Rightarrow> (string \<times> decoded_value) list \<Rightarrow> bytes \<Rightarrow> bool" where
  "fields_ok be L h n fs vs bs \<longleftrightarrow> (\<forall>st pre rest acc. room be L h n st \<longrightarrow>
     decode_fields decode_value (pre @ bs @ rest) fs (length pre) acc st =
       (Inr (DV_Structure (acc @ vs), length pre + length bs), spend n st))"

definition items_ok :: "bool \<Rightarrow> decode_limits \<Rightarrow> nat \<Rightarrow> nat \<Rightarrow> structure_desc
    \<Rightarrow> decoded_value list \<Rightarrow> bytes \<Rightarrow> bool" where
  "items_ok be L h n d vs bs \<longleftrightarrow> (\<forall>st data pre rest acc. room be L h n st \<longrightarrow>
     data = pre @ bs @ rest \<longrightarrow>
     decode_many (struct_element decode_value data d)
       (length vs) (length pre) acc st =
       (Inr (acc @ vs, length pre + length bs), spend n st))"

lemma fields_ok_structure:
  assumes "fields_ok be L h n (sd_fields d) vs bs" "room be L h n st"
  shows "decode_structure_with decode_value (bs @ rest) d st =
    (Inr (DV_Structure vs, length bs), spend n st)"
proof (rule decode_structure_step [OF assms(2)])
  show "decode_fields decode_value (bs @ rest) (sd_fields d) 0 [] (rescoped st) =
      (Inr (DV_Structure vs, length bs), spend n (rescoped st))"
    using assms(1) [unfolded fields_ok_def, rule_format, of "rescoped st" "[]" rest "[]"]
      room_rescoped [OF assms(2)] by simp
qed

lemma fields_ok_nil: "fields_ok be L h 0 [] [] []"
  by (simp add: fields_ok_def)

lemma items_ok_nil: "items_ok be L h 0 d [] []"
  by (simp add: items_ok_def ret_def)

lemma fields_ok_cons:
  assumes "value_ok be L h n (fd_type f) v b1" "fields_ok be L h m fs vs b2" "b1 @ b2 \<noteq> []"
  shows "fields_ok be L h (n + m) (f # fs) ((fd_name f, v) # vs) (b1 @ b2)"
  unfolding fields_ok_def
proof (intro allI impI)
  fix st and pre rest :: bytes and acc
  assume st: "room be L h (n + m) st"
  have "decode_value (b1 @ b2 @ rest) (fd_type f) st = (Inr (v, length b1), spend n st)"
    using assms(1) room_less [OF st] unfolding value_ok_def by blast
  moreover have "decode_fields decode_value ((pre @ b1) @ b2 @ rest) fs (length (pre @ b1))
      (acc @ [(fd_name f, v)]) (spend n st) =
      (Inr (DV_Structure ((acc @ [(fd_name f, v)]) @ vs), length (pre @ b1) + length b2),
       spend m (spend n st))"
    using assms(2) room_spend [OF st] unfolding fields_ok_def by blast
  ultimately show "decode_fields decode_value (pre @ (b1 @ b2) @ rest) (f # fs) (length pre) acc st =
      (Inr (DV_Structure (acc @ (fd_name f, v) # vs), length pre + length (b1 @ b2)), spend (n + m) st)"
    using assms(3) by auto
qed

lemma items_ok_null:
  assumes "items_ok be L h m d vs b2"
  shows "items_ok be L h m d (DV_Structure [] # vs) (0 # b2)"
  unfolding items_ok_def
proof (intro allI impI)
  fix st data pre rest acc
  assume st: "room be L h m st" and data: "data = pre @ (0 # b2) @ rest"
  note tail = assms [unfolded items_ok_def, rule_format, OF st,
      where pre = "pre @ [0]" and data = data and rest = rest and acc = "acc @ [DV_Structure []]"]
  show "decode_many (struct_element decode_value data d)
       (length (DV_Structure [] # vs)) (length pre) acc st =
       (Inr (acc @ DV_Structure [] # vs, length pre + length (0 # b2)), spend m st)"
    using tail data by (simp add: struct_element_def bind_dec_def ret_def nth_append)
qed

lemma items_ok_cons:
  assumes "fields_ok be L h n (sd_fields d) fvs b1" "items_ok be L h m d vs b2" "k \<noteq> 0"
  shows "items_ok be L h (n + m) d (DV_Structure fvs # vs) (k # b1 @ b2)"
  unfolding items_ok_def
proof (intro allI impI)
  fix st data pre rest acc
  assume st: "room be L h (n + m) st" and data: "data = pre @ (k # b1 @ b2) @ rest"
  have "decode_structure_with decode_value (drop (length pre + 1) data) d st =
      (Inr (DV_Structure fvs, length b1), spend n st)"
    using fields_ok_structure [OF assms(1) room_less [OF st], of "b2 @ rest"] data by simp
  moreover note tail = assms(2) [unfolded items_ok_def, rule_format, OF room_spend [OF st],
      where pre = "pre @ k # b1" and data = data and rest = rest and acc = "acc @ [DV_Structure fvs]"]
  ultimately show "decode_many (struct_element decode_value data d)
       (length (DV_Structure fvs # vs)) (length pre) acc st =
       (Inr (acc @ DV_Structure fvs # vs, length pre + length (k # b1 @ b2)), spend (n + m) st)"
    using tail data assms(3) by (simp add: struct_element_def bind_dec_def ret_def nth_append)
qed

text \<open>Each rule of the grammar, seen through the decoder.\<close>

lemma value_okI:
  assumes "\<And>st rest. room be L h n st \<Longrightarrow>
      decode_value_match decode_value (bs @ rest) ft (deeper st) =
        (Inr (v, length bs), spend n (deeper st))" "0 < h"
  shows "value_ok be L h n ft v bs"
  unfolding value_ok_def using assms decode_value_step by blast

lemma value_ok_scalar:
  "0 < h \<Longrightarrow> scalar_wire be tc v bs \<Longrightarrow> value_ok be L h 0 (FT_Scalar tc) v bs"
  by (rule value_okI) (simp_all add: decode_value_match_def decode_scalar_wire roomD)

lemma value_ok_string:
  assumes "0 < h" "wf_string s"
  shows "value_ok be L h 0 FT_String (DV_String s) (encode_string s be)"
    and "value_ok be L h 0 (FT_BoundedString b) (DV_String s) (encode_string s be)"
  by (rule value_okI; use assms in \<open>simp add: decode_value_match_def bind_dec_def decode_string_def
      decode_encode_string roomD ret_def\<close>)+

lemma value_ok_scalars:
  assumes h: "0 < h" and elems: "list_all2 (scalar_wire be tc) vs bss"
    and len: "length vs \<le> max_scalar_array L" "length vs < 2 ^ 32"
  shows "value_ok be L h 0 (FT_ScalarArray tc) (DV_Array vs) (encode_size (length vs) be @ concat bss)"
proof (rule value_okI [OF _ h])
  fix st rest
  assume st: "room be L h 0 st"
  let ?m = "case tc_size tc of Some n \<Rightarrow> n | None \<Rightarrow> 1"
  let ?data = "encode_size (length vs) be @ concat bss @ rest"
  let ?elem = "\<lambda>offset. bind_dec (decode_scalar (drop offset ?data) tc) (\<lambda>(v, consumed).
      ret (v, offset + consumed))"
  have "length (concat bss) = ?m * length bss"
  proof (cases "bss = []")
    case False
    with elems obtain v b where "scalar_wire be tc v b"
      by (cases vs; cases bss) auto
    then have "tc_size tc = Some (length b)" by (rule scalar_wire_length)
    moreover have "\<forall>b' \<in> set bss. length b' = length b"
      using elems scalar_wire_length calculation
      by (fastforce simp: list_all2_conv_all_nth in_set_conv_nth)
    ultimately show ?thesis by (simp add: length_concat_same)
  qed simp
  then have room: "length vs * ?m \<le> length (concat bss)"
    using elems by (simp add: list_all2_lengthD mult.commute)
  have "list_all2 (\<lambda>v b. \<forall>pre rest. ?data = pre @ b @ rest \<longrightarrow>
      ?elem (length pre) (deeper st) = (Inr (v, length pre + length b), deeper st)) vs bss"
    by (rule list_all2_mono [OF elems])
      (simp add: bind_dec_def ret_def decode_scalar_wire roomD(2) [OF st])
  then have "decode_many ?elem (length vs) (length (encode_size (length vs) be)) [] (deeper st) =
      (Inr (vs, length (encode_size (length vs) be) + length (concat bss)), deeper st)"
    using decode_many_wire [where elem = ?elem and data = ?data and rest = rest and acc = "[]"
        and pre = "encode_size (length vs) be" and st = "deeper st"] by simp
  from decode_array_wire [OF this _ _ len(2) room, of max_scalar_array] st len
  show "decode_value_match decode_value ((encode_size (length vs) be @ concat bss) @ rest)
      (FT_ScalarArray tc) (deeper st) =
      (Inr (DV_Array vs, length (encode_size (length vs) be @ concat bss)), spend 0 (deeper st))"
    by (simp add: decode_value_match_def roomD)
qed

lemma value_ok_strings:
  assumes h: "0 < h" and wf: "list_all wf_string ss"
    and len: "length ss \<le> max_string_array L" "length ss < 2 ^ 32"
  shows "value_ok be L h 0 FT_StringArray (DV_Array (map DV_String ss))
    (encode_size (length ss) be @ concat (map (\<lambda>s. encode_string s be) ss))"
proof (rule value_okI [OF _ h])
  fix st rest
  assume st: "room be L h 0 st"
  let ?vs = "map DV_String ss"
  let ?bss = "map (\<lambda>s. encode_string s be) ss"
  let ?data = "encode_size (length ss) be @ concat ?bss @ rest"
  let ?elem = "\<lambda>offset. bind_dec (decode_string (drop offset ?data)) (\<lambda>(s, consumed).
      ret (DV_String s, offset + consumed))"
  have "list_all2 (\<lambda>v b. \<forall>pre rest. ?data = pre @ b @ rest \<longrightarrow>
      ?elem (length pre) (deeper st) = (Inr (v, length pre + length b), deeper st)) ?vs ?bss"
    using wf roomD(2) [OF st]
    by (auto simp: list_all2_conv_all_nth list_all_length bind_dec_def decode_string_def
        decode_encode_string ret_def)
  then have many: "decode_many ?elem (length ?vs) (length (encode_size (length ?vs) be)) [] (deeper st) =
      (Inr (?vs, length (encode_size (length ?vs) be) + length (concat ?bss)), deeper st)"
    using decode_many_wire [where elem = ?elem and data = ?data and rest = rest and acc = "[]"
        and pre = "encode_size (length ss) be" and st = "deeper st" and vs = ?vs and bss = ?bss]
    by simp
  have "length ss \<le> length (concat ?bss)"
    by (rule length_concat_ge) simp
  with decode_array_wire [OF many, of max_string_array 1 rest "''string array''"] st len
  show "decode_value_match decode_value ((encode_size (length ss) be @ concat ?bss) @ rest)
      FT_StringArray (deeper st) =
      (Inr (DV_Array ?vs, length (encode_size (length ss) be @ concat ?bss)), spend 0 (deeper st))"
    by (simp add: decode_value_match_def roomD)
qed

lemma value_ok_struct:
  assumes "0 < h" "fields_ok be L (h - 1) n (sd_fields d) vs bs"
  shows "value_ok be L h n (FT_Structure d) (DV_Structure vs) bs"
  using assms fields_ok_structure room_deeper
  by (intro value_okI) (auto simp: decode_value_match_def)

lemma value_ok_structs:
  assumes h: "0 < h" and items: "items_ok be L (h - 1) n d vs bs" and bs: "length vs \<le> length bs"
    and len: "length vs \<le> max_struct_array L" "length vs < 2 ^ 32"
  shows "value_ok be L h n (FT_StructureArray d) (DV_Array vs) (encode_size (length vs) be @ bs)"
proof (rule value_okI [OF _ h])
  fix st rest
  assume st: "room be L h n st"
  note items [unfolded items_ok_def, rule_format, OF room_deeper [OF st h] refl,
      of "encode_size (length vs) be" rest "[]"]
  from decode_array_wire [OF this [simplified append_Nil], of max_struct_array 1 rest] st len bs
  show "decode_value_match decode_value ((encode_size (length vs) be @ bs) @ rest)
      (FT_StructureArray d) (deeper st) =
      (Inr (DV_Array vs, length (encode_size (length vs) be @ bs)), spend n (deeper st))"
    by (simp add: decode_value_match_def roomD)
qed

lemma value_ok_union:
  assumes "0 < h" "i < length fs" "i < 2 ^ 32" "value_ok be L (h - 1) n (fd_type (fs ! i)) v bs"
  shows "value_ok be L h n (FT_Union fs) (DV_Structure [(fd_name (fs ! i), v)]) (encode_size i be @ bs)"
  using assms room_deeper
  by (intro value_okI) (auto simp: decode_value_match_def bind_dec_def decode_size_def
      decode_encode_size roomD union_field_def ret_def value_ok_def)

lemma value_ok_null: "0 < h \<Longrightarrow> value_ok be L h 0 FT_Variant DV_Null [0xFF]"
  by (rule value_okI) (simp_all add: decode_value_match_def ret_def)

lemma encode_type_tag_not_null:
  assumes "wf_field_type m ft"
  shows "(encode_type_desc ft be @ rest) ! 0 \<noteq> 0xFF"
proof (cases ft)
  case (FT_Scalar tc)
  then show ?thesis using assms by (cases tc) (simp_all add: wf_scalar_code_def)
next
  case (FT_ScalarArray tc)
  then show ?thesis using assms by (cases tc) (simp_all add: wf_scalar_code_def)
qed simp_all

lemma value_ok_variant:
  assumes h: "0 < h" and wf: "wf_field_type (max_struct_fields L) ft" and height: "type_height ft \<le> h - 1"
    and v: "value_ok be L (h - 1) n ft v bs"
  shows "value_ok be L h (type_nodes ft + n) FT_Variant v (encode_type_desc ft be @ bs)"
proof (rule value_okI [OF _ h])
  fix st rest
  assume st: "room be L h (type_nodes ft + n) st"
  note inner = room_deeper [OF st h]
  have "parse_type_desc (encode_type_desc ft be @ bs @ rest) (deeper st) =
      (Inr (ft, length (encode_type_desc ft be)), spend (type_nodes ft) (deeper st))"
    using reads_backD [OF type_reads_back, of "deeper st" ft be "bs @ rest"] inner wf height
    by (simp add: room_def spend_def)
  moreover have "decode_value (bs @ rest) ft (spend (type_nodes ft) (deeper st)) =
      (Inr (v, length bs), spend n (spend (type_nodes ft) (deeper st)))"
    using v room_spend [OF inner] unfolding value_ok_def by blast
  ultimately show "decode_value_match decode_value ((encode_type_desc ft be @ bs) @ rest) FT_Variant
      (deeper st) =
      (Inr (v, length (encode_type_desc ft be @ bs)), spend (type_nodes ft + n) (deeper st))"
    using encode_type_tag_not_null [OF wf, of be "bs @ rest"]
    by (simp add: decode_value_match_def bind_dec_def ret_def)
qed

lemma wire_items_length: "wire_items be L h n d vs bs \<Longrightarrow> length vs \<le> length bs"
  by (induction n d vs bs rule: wire_value_wire_fields_wire_items.inducts(3)
      [where ?P1.0 = "\<lambda>_ _ _ _ _. True" and ?P2.0 = "\<lambda>_ _ _ _ _. True"]) auto

theorem wire_complete:
  "wire_value be L h n ft v bs \<Longrightarrow> value_ok be L h n ft v bs"
  "wire_fields be L h n fs vs bs \<Longrightarrow> fields_ok be L h n fs vs bs"
  "wire_items be L h n d ws bs \<Longrightarrow> items_ok be L h n d ws bs"
proof (induction rule: wire_value_wire_fields_wire_items.inducts)
  case (w_structs h n d vs bs)
  then show ?case by (auto intro: value_ok_structs wire_items_length)
qed (auto intro: value_ok_scalar value_ok_string value_ok_scalars value_ok_strings value_ok_struct
    value_ok_union value_ok_null value_ok_variant fields_ok_nil fields_ok_cons items_ok_nil items_ok_null
    items_ok_cons)

section \<open>Between messages\<close>

lemma room_open_scope:
  assumes "idle st" "h \<le> max_depth (d_limits st)" "n \<le> MAX_DECODE_NODES" "n \<le> len"
  shows "room (d_is_be st) (d_limits st) h n (open_scope len st)"
proof -
  have "n \<le> node_ceiling (max_struct_fields (d_limits st)) len"
    by (rule node_ceiling_ge [OF assms(3,4)])
  then show ?thesis
    using assms open_scope_ok [OF assms(1), of len] by (simp add: room_def open_scope_def idle_def)
qed

lemma decode_structure_wire:
  assumes idle: "idle st" and wire: "wire_fields (d_is_be st) (d_limits st) h n (sd_fields d) vs bs"
    and "h \<le> max_depth (d_limits st)" "n \<le> MAX_DECODE_NODES"
  shows "fst (decode_structure (bs @ rest) d st) = Inr (DV_Structure vs, length bs)"
proof -
  have "n \<le> length (bs @ rest)" using wire_cost(2) [OF wire] by simp
  with assms have "room (d_is_be st) (d_limits st) h n (open_scope (length (bs @ rest)) st)"
    by (intro room_open_scope)
  with wire_complete(2) [OF wire]
  have "decode_fields decode_value ([] @ bs @ rest) (sd_fields d) (length ([] :: bytes)) []
      (open_scope (length (bs @ rest)) st) =
      (Inr (DV_Structure ([] @ vs), length ([] :: bytes) + length bs),
       spend n (open_scope (length (bs @ rest)) st))"
    unfolding fields_ok_def by blast
  then show ?thesis
    by (simp add: decode_structure_def decode_structure_with_def with_scope_idle [OF idle])
qed

text \<open>C17: the decoder implements the wire format. Every sentence of the grammar, followed by any
  bytes, is decoded to the value it stands for and for exactly its bytes, by a decoder between
  messages whose depth limit covers the nesting of the value; the types inside its variants may
  have up to a million nodes. The lenient loops of the decoder never cut a well-formed value
  short.\<close>

theorem decode_implements_wire:
  assumes "idle st" "wire_fields (d_is_be st) (d_limits st) h n (sd_fields d) vs bs"
    and "h \<le> max_depth (d_limits st)" "n \<le> MAX_DECODE_NODES"
  shows "fst (decode_structure (bs @ rest) d st) = Inr (DV_Structure vs, length bs)"
  using assms by (rule decode_structure_wire)

theorem decode_implements_wire_witness:
  "fst (decode_structure ((to_bytes True (7 :: i32) @ [0xFF]) @ [1, 2])
      (StructureDesc None [FieldDesc ''i'' (FT_Scalar TC_Int32), FieldDesc ''v'' FT_Variant])
      (pvd_new True)) =
   Inr (DV_Structure [(''i'', DV_Int32 7), (''v'', DV_Null)], 5)"
proof -
  let ?fs = "[FieldDesc ''i'' (FT_Scalar TC_Int32), FieldDesc ''v'' FT_Variant]"
  have be: "d_is_be (pvd_new True) = True" "max_depth (d_limits (pvd_new True)) = 32"
    by (simp_all add: pvd_new_def pvd_with_limits_def default_limits_def)
  have "wire_fields True (d_limits (pvd_new True)) 1 (0 + (0 + 0)) ?fs
      [(fd_name (?fs ! 0), DV_Int32 7), (fd_name (?fs ! 1), DV_Null)] (to_bytes True (7 :: i32) @ [0xFF] @ [])"
    by (simp only: nth_Cons_0 One_nat_def nth_Cons_Suc)
      (intro f_cons f_nil; simp add: w_null w_scalar sw_i32)
  then show ?thesis
    using decode_implements_wire [of "pvd_new True" 1 0 "StructureDesc None ?fs"
        "[(''i'', DV_Int32 7), (''v'', DV_Null)]" "to_bytes True (7 :: i32) @ [0xFF]" "[1, 2]"]
    by (simp add: be MAX_DECODE_NODES_def)
qed

end
