(* ===== verification/Bitset_Wire.thy ===== *)
theory Bitset_Wire
  imports Bitset_Walk Pvd_Wire Nt_Encode
begin

text \<open>
  The wire format of a partial update, and the bitset walk's completeness for it.

  \<open>wire_delta be L bits h n fs bo vs bs\<close> says that \<open>bs\<close> carries the fields of \<open>fs\<close> that the
  bitset \<open>bits\<close> selects, when the first of them has bit number \<open>bo\<close>: a selected leaf sends its
  value, a structure whose own bit is set and none below it sends all of its fields, a structure
  with bits set below it sends what these select, and the rest send nothing.
\<close>

section \<open>The grammar\<close>

definition any_bit :: "bytes \<Rightarrow> nat \<Rightarrow> nat \<Rightarrow> bool" where
  "any_bit bits bo n \<longleftrightarrow> (\<exists>i < n. bit_set bits (bo + i))"

definition as_structure :: "field_type \<Rightarrow> structure_desc option" where
  "as_structure ft = (case ft of FT_Structure d \<Rightarrow> Some d | _ \<Rightarrow> None)"

inductive wire_delta :: "bool \<Rightarrow> decode_limits \<Rightarrow> bytes \<Rightarrow> nat \<Rightarrow> nat \<Rightarrow> field_desc list \<Rightarrow> nat
    \<Rightarrow> (string \<times> decoded_value) list \<Rightarrow> bytes \<Rightarrow> bool" for be L bits where
  d_nil: "wire_delta be L bits h 0 [] bo [] []"
| d_skip: "as_structure (fd_type f) = None \<Longrightarrow> \<not> bit_set bits bo \<Longrightarrow>
    wire_delta be L bits h n fs (Suc bo) vs bs \<Longrightarrow>
    wire_delta be L bits h n (f # fs) bo vs bs"
| d_leaf: "as_structure (fd_type f) = None \<Longrightarrow> bit_set bits bo \<Longrightarrow>
    wire_value be L h n (fd_type f) v b1 \<Longrightarrow> wire_delta be L bits h m fs (Suc bo) vs b2 \<Longrightarrow>
    wire_delta be L bits h (n + m) (f # fs) bo ((fd_name f, v) # vs) (b1 @ b2)"
| d_none: "as_structure (fd_type f) = Some d \<Longrightarrow> \<not> bit_set bits bo \<Longrightarrow>
    \<not> any_bit bits (Suc bo) (count_structure_fields d) \<Longrightarrow>
    wire_delta be L bits h n fs (Suc bo + count_structure_fields d) vs bs \<Longrightarrow>
    wire_delta be L bits h n (f # fs) bo vs bs"
| d_whole: "as_structure (fd_type f) = Some d \<Longrightarrow> bit_set bits bo \<Longrightarrow>
    \<not> any_bit bits (Suc bo) (count_structure_fields d) \<Longrightarrow>
    wire_fields be L h n (sd_fields d) ws b1 \<Longrightarrow> b1 @ b2 \<noteq> [] \<Longrightarrow>
    wire_delta be L bits h m fs (Suc bo + count_structure_fields d) vs b2 \<Longrightarrow>
    wire_delta be L bits h (n + m) (f # fs) bo ((fd_name f, DV_Structure ws) # vs) (b1 @ b2)"
| d_part: "as_structure (fd_type f) = Some d \<Longrightarrow>
    any_bit bits (Suc bo) (count_structure_fields d) \<Longrightarrow> h1 \<le> h \<Longrightarrow>
    wire_delta be L bits h1 n (sd_fields d) (Suc bo) ws b1 \<Longrightarrow> ws \<noteq> [] \<Longrightarrow>
    wire_delta be L bits h m fs (Suc bo + count_structure_fields d) vs b2 \<Longrightarrow>
    wire_delta be L bits h (n + m) (f # fs) bo ((fd_name f, DV_Structure ws) # vs) (b1 @ b2)"

section \<open>Completeness of the walk\<close>

lemma as_structure_simps:
  "as_structure ft = Some d \<longleftrightarrow> ft = FT_Structure d"
  by (auto simp: as_structure_def split: field_type.splits)

lemma any_bit_ex: "(\<exists>i \<in> set [0..<n]. bit_set bits (bo + i)) \<longleftrightarrow> any_bit bits bo n"
  by (auto simp: any_bit_def)

lemma scalar_wire_not_Nil: "scalar_wire be tc v bs \<Longrightarrow> bs \<noteq> []"
  using scalar_wire_length tc_size_pos by fastforce

lemma wire_leaf_not_Nil:
  "wire_value be L h n ft v bs \<Longrightarrow> as_structure ft = None \<Longrightarrow> bs \<noteq> []"
  by (induction rule: wire_value.cases) (auto simp: as_structure_def dest: scalar_wire_not_Nil)

lemma room_mono: "room be L h n st \<Longrightarrow> h1 \<le> h \<Longrightarrow> room be L h1 n st"
  by (simp add: room_def)

lemma recount_leaf:
  assumes "as_structure (fd_type f) = None"
  shows "bitset_fields_recount data bits (f # fs) off bo acc st =
    (if bit_set bits bo then
       (if off \<ge> length data then (Inr (False, off, Suc bo, acc), st)
        else case decode_value (drop off data) (fd_type f) st of
            (Inr (v, consumed), st') \<Rightarrow>
              bitset_fields_recount data bits fs (off + consumed) (Suc bo) (acc @ [(fd_name f, v)]) st'
          | (Inl e, st') \<Rightarrow>
              if is_hostile e then (Inl e, st') else (Inr (False, off, Suc bo, acc), st'))
     else bitset_fields_recount data bits fs off (Suc bo) acc st)"
  using assms unfolding bitset_fields_recount.simps(2) Let_def as_structure_def
    Suc_eq_plus1
  by (cases "fd_type f") simp_all

lemmas recount_structure = bitset_fields_recount.simps(2) [unfolded Let_def any_bit_ex]

theorem walk_complete:
  "wire_delta be L bits h n fs bo vs bs \<Longrightarrow> room be L h n st \<Longrightarrow> data = pre @ bs @ rest \<Longrightarrow>
   bitset_fields_recount data bits fs (length pre) bo acc st =
     (Inr (True, length pre + length bs, bo + length (bits_of fs), acc @ vs), spend n st)"
proof (induction arbitrary: st pre rest acc rule: wire_delta.induct)
  case (d_nil h bo)
  then show ?case by simp
next
  case (d_skip f bo h n fs vs bs)
  then show ?case
    by (simp add: recount_leaf as_structure_def split: field_type.splits)
next
  case (d_leaf f bo h n v b1 m fs vs b2)
  have "decode_value (b1 @ b2 @ rest) (fd_type f) st = (Inr (v, length b1), spend n st)"
    using wire_complete(1) [OF d_leaf.hyps(3)] room_less [OF d_leaf.prems(1)]
    unfolding value_ok_def by blast
  moreover note d_leaf.IH [OF room_spend [OF d_leaf.prems(1)], of "pre @ b1" rest "acc @ [(fd_name f, v)]"]
  ultimately show ?case
    using d_leaf.prems wire_leaf_not_Nil [OF d_leaf.hyps(3,1)] d_leaf.hyps(1,2)
    by (simp add: recount_leaf as_structure_def split: field_type.splits)
next
  case (d_none f d bo h n fs vs bs)
  then show ?case
    by (simp add: recount_structure as_structure_simps length_bits_of_nested)
next
  case (d_whole f d bo h n ws b1 b2 m fs vs)
  have "decode_structure (b1 @ b2 @ rest) d st = (Inr (DV_Structure ws, length b1), spend n st)"
    using fields_ok_structure [OF wire_complete(2) [OF d_whole.hyps(4)] room_less [OF d_whole.prems(1)]]
    by (simp add: decode_structure_def)
  moreover note d_whole.IH [OF room_spend [OF d_whole.prems(1)], of "pre @ b1" rest
      "acc @ [(fd_name f, DV_Structure ws)]"]
  ultimately show ?case
    using d_whole.prems d_whole.hyps
    by (auto simp: recount_structure as_structure_simps length_bits_of_nested)
next
  case (d_part f d bo h1 h n ws b1 m fs vs b2)
  note part = d_part.IH(1) [OF room_mono [OF room_less [OF d_part.prems(1)] d_part.hyps(3)],
      of pre "b2 @ rest" "[]"]
    and onward = d_part.IH(2) [OF room_spend [OF d_part.prems(1)], of "pre @ b1" rest
      "acc @ [(fd_name f, DV_Structure ws)]"]
  show ?case
    using d_part.prems d_part.hyps part onward
    by (simp add: recount_structure as_structure_simps length_bits_of_nested)
qed

section \<open>Bitsets\<close>

lemma bit_set_iff: "bit_set bits i \<longleftrightarrow> i div 8 < length bits \<and> bit (bits ! (i div 8)) (i mod 8)"
  by (simp add: bit_set_def and_exp_eq_0_iff_not_bit)

lemma byte_nonzero_iff: "w \<noteq> 0 \<longleftrightarrow> (\<exists>j < 8. bit w j)" for w :: byte
  by (auto simp: bit_eq_iff [of w 0] possible_bit_word)

lemma has_field_bits_iff: "has_field_bits bits \<longleftrightarrow> (\<exists>i > 0. bit_set bits i)"
proof
  assume "has_field_bits bits"
  then obtain i where i: "i < length bits"
      "(if i = 0 then (bits ! i) AND NOT 0x01 else bits ! i) \<noteq> 0"
    by (auto simp: has_field_bits_def)
  from i(2) obtain j where j: "j < 8" "bit (if i = 0 then (bits ! i) AND NOT 0x01 else bits ! i) j"
    by (auto simp only: byte_nonzero_iff)
  then have "bit (bits ! i) j" "i = 0 \<Longrightarrow> 0 < j"
    by (auto simp: bit_and_iff bit_not_iff bit_1_iff split: if_splits)
  with i j show "\<exists>i > 0. bit_set bits i"
    by (intro exI [of _ "i * 8 + j"]) (auto simp: bit_set_iff)
next
  assume "\<exists>i > 0. bit_set bits i"
  then obtain i where i: "0 < i" "i div 8 < length bits" "bit (bits ! (i div 8)) (i mod 8)"
    by (auto simp: bit_set_iff)
  have "bit (if i div 8 = 0 then (bits ! (i div 8)) AND NOT 0x01 else bits ! (i div 8)) (i mod 8)"
    using i by (auto simp: bit_and_iff bit_not_iff bit_1_iff)
  then have "(if i div 8 = 0 then (bits ! (i div 8)) AND NOT 0x01 else bits ! (i div 8)) \<noteq> 0"
    using byte_nonzero_iff by fastforce
  with i(2) show "has_field_bits bits"
    unfolding has_field_bits_def by (intro bexI [of _ "i div 8"]) auto
qed

text \<open>The bytes of an all-ones bitset.\<close>

definition ones :: "nat \<Rightarrow> bytes" where
  "ones n = (replicate ((n + 7) div 8) 0xFF)
     [(n + 7) div 8 - 1 := drop_bit ((n + 7) div 8 * 8 - n) 0xFF]"

lemma length_ones [simp]: "length (ones n) = (n + 7) div 8"
  by (simp add: ones_def)

lemma bit_FF: "bit (0xFF :: byte) j \<longleftrightarrow> j < 8"
proof -
  have "bit (mask 8 :: byte) j \<longleftrightarrow> j < 8" by (simp only: bit_mask_iff) auto
  moreover have "(mask 8 :: byte) = 0xFF" by (simp add: mask_eq_exp_minus_1)
  ultimately show ?thesis by metis
qed

lemma bit_set_ones: "bit_set (ones n) i \<longleftrightarrow> i < n"
proof (cases "i div 8 < (n + 7) div 8")
  case True
  define k where "k = (n + 7) div 8"
  have k: "n \<le> 8 * k" "8 * k < n + 8" unfolding k_def by linarith+
  have byte: "ones n ! (i div 8) = (if i div 8 = k - 1 then drop_bit (k * 8 - n) 0xFF else 0xFF)"
    using True by (simp add: ones_def nth_list_update k_def)
  have "bit (ones n ! (i div 8)) (i mod 8) \<longleftrightarrow> (i div 8 = k - 1 \<longrightarrow> k * 8 - n + i mod 8 < 8)"
    unfolding byte
    by (cases "i div 8 = k - 1") (simp_all only: if_True if_False bit_drop_bit_eq comp_apply bit_FF
        HOL.simp_thms mod_less_divisor zero_less_numeral)
  moreover have "i = 8 * (i div 8) + i mod 8" by simp
  ultimately show ?thesis
    using k True unfolding bit_set_iff length_ones k_def [symmetric] by linarith
next
  case False
  then show ?thesis by (simp add: bit_set_iff)
qed

section \<open>The entry point\<close>

lemma bitset_body_result:
  assumes "fst (decode_structure_with_bitset_body (bs @ rest) d bits st) =
      Inr (DV_Structure vs, length bs)" "0 < length bits" "length bits < 2 ^ 32"
  shows "fst (decode_structure_with_bitset (encode_size (length bits) (d_is_be st) @ bits @ bs @ rest) d st) =
    Inr (DV_Structure vs, length (encode_size (length bits) (d_is_be st)) + length bits + length bs)"
  using assms
  by (simp add: decode_structure_with_bitset_def bind_dec_def decode_size_def decode_encode_size Let_def)
    (auto simp: ret_def split: prod.splits sum.splits)

lemma decode_body_wire:
  assumes idle: "idle st" and d: "wire_delta (d_is_be st) (d_limits st) bits h n (sd_fields d) 1 vs bs"
    and h: "h \<le> max_depth (d_limits st)" and n: "n \<le> MAX_DECODE_NODES" "n \<le> length bs"
    and bits: "0 < length bits" "has_field_bits bits \<or> \<not> bit_set bits 0"
  shows "fst (decode_structure_with_bitset_body (bs @ rest) d bits st) = Inr (DV_Structure vs, length bs)"
proof -
  let ?st = "open_scope (length (bs @ rest)) st"
  have "room (d_is_be st) (d_limits st) h n ?st"
    using assms by (intro room_open_scope) simp_all
  from walk_complete [OF d this, of "bs @ rest" "[]" rest "[]"]
  have "decode_bitset_walk (bs @ rest) d bits ?st = (Inr (DV_Structure vs, length bs), spend n ?st)"
    by (simp add: decode_bitset_walk_recounts bind_dec_def ret_def)
  moreover have "\<not> (\<not> has_field_bits bits \<and> bits \<noteq> [] \<and> (bits ! 0) AND 0x01 \<noteq> 0)"
    using bits and_exp_eq_0_iff_not_bit [of "bits ! 0" 0] by (auto simp: bit_set_iff)
  ultimately show ?thesis
    by (simp only: decode_structure_with_bitset_body_def with_scope_idle [OF idle] if_False) simp
qed

lemma decode_bitset_wire:
  assumes "idle st" "wire_delta (d_is_be st) (d_limits st) bits h n (sd_fields d) 1 vs bs"
    and "h \<le> max_depth (d_limits st)" "n \<le> MAX_DECODE_NODES" "n \<le> length bs"
    and bits: "0 < length bits" "length bits < 2 ^ 32" "has_field_bits bits \<or> \<not> bit_set bits 0"
  shows "fst (decode_structure_with_bitset (encode_size (length bits) (d_is_be st) @ bits @ bs @ rest) d st) =
    Inr (DV_Structure vs, length (encode_size (length bits) (d_is_be st)) + length bits + length bs)"
  by (rule bitset_body_result [OF decode_body_wire [OF assms(1-6,8)] bits(1,2)])

text \<open>When only the bit of the whole structure is set, all of it is sent.\<close>

lemma decode_bitset_whole:
  assumes idle: "idle st" and d: "wire_fields (d_is_be st) (d_limits st) h n (sd_fields d) vs bs"
    and h: "h \<le> max_depth (d_limits st)" and n: "n \<le> MAX_DECODE_NODES"
    and bits: "length bits < 2 ^ 32" "\<not> has_field_bits bits" "bit_set bits 0"
  shows "fst (decode_structure_with_bitset (encode_size (length bits) (d_is_be st) @ bits @ bs @ rest) d st) =
    Inr (DV_Structure vs, length (encode_size (length bits) (d_is_be st)) + length bits + length bs)"
proof -
  let ?st = "open_scope (length (bs @ rest)) st"
  have "room (d_is_be st) (d_limits st) h n ?st"
    using wire_cost(2) [OF d] h n by (intro room_open_scope idle) simp_all
  from fields_ok_structure [OF wire_complete(2) [OF d] this]
  have "decode_structure (bs @ rest) d ?st = (Inr (DV_Structure vs, length bs), spend n ?st)"
    by (simp add: decode_structure_def)
  moreover have "\<not> has_field_bits bits \<and> bits \<noteq> [] \<and> (bits ! 0) AND 0x01 \<noteq> 0"
    using bits and_exp_eq_0_iff_not_bit [of "bits ! 0" 0] by (auto simp: bit_set_iff)
  ultimately have "fst (decode_structure_with_bitset_body (bs @ rest) d bits st) =
      Inr (DV_Structure vs, length bs)"
    by (simp only: decode_structure_with_bitset_body_def with_scope_idle [OF idle] if_True HOL.simp_thms
        unless_hostile_def) simp
  from bitset_body_result [OF this _ bits(1)] bits(3) show ?thesis by (auto simp: bit_set_iff)
qed

section \<open>Full updates\<close>

inductive_cases wire_fields_ConsE: "wire_fields be L h n (f # fs) vs bs"
inductive_cases wire_structE: "wire_value be L h n (FT_Structure d) v bs"

lemma wire_fields_Nil_iff: "wire_fields be L h n [] vs bs \<longleftrightarrow> n = 0 \<and> vs = [] \<and> bs = []"
  by (auto elim: wire_fields.cases intro: f_nil)

lemma wire_fields_full:
  "wire_fields be L h n fs vs bs \<Longrightarrow> (\<And>i. i < length (bits_of fs) \<Longrightarrow> bit_set bits (bo + i)) \<Longrightarrow>
   wire_delta be L bits h n fs bo vs bs"
proof (induction fs arbitrary: h n vs bs bo rule: fields_induct)
  case Nil
  then show ?case by (auto simp: wire_fields_Nil_iff intro: d_nil)
next
  case (Cons f fs)
  from Cons.prems(1) obtain n1 v b1 m vs2 b2 where
      v: "wire_value be L h n1 (fd_type f) v b1" and fs: "wire_fields be L h m fs vs2 b2"
      and b: "b1 @ b2 \<noteq> []" and eq: "n = n1 + m" "vs = (fd_name f, v) # vs2" "bs = b1 @ b2"
    by (rule wire_fields_ConsE) auto
  have here: "bit_set bits bo" using Cons.prems(2) [of 0] by simp
  show ?case
  proof (cases "as_structure (fd_type f)")
    case None
    have "wire_delta be L bits h m fs (Suc bo) vs2 b2"
      using Cons.prems(2) [of "Suc _"] None
      by (intro Cons.IH(1) fs) (auto simp: as_structure_def split: field_type.splits)
    with None here v show ?thesis unfolding eq by (intro d_leaf)
  next
    case (Some d)
    then have ft: "fd_type f = FT_Structure d" by (simp add: as_structure_simps)
    let ?c = "count_structure_fields d"
    have below: "bit_set bits (Suc bo + i)" if "i < ?c + length (bits_of fs)" for i
      using Cons.prems(2) [of "Suc i"] that by (simp add: ft length_bits_of_nested)
    have onward: "wire_delta be L bits h m fs (Suc bo + ?c) vs2 b2"
      using below [of "?c + _"] by (intro Cons.IH(1) fs) (simp add: ac_simps)
    from v ft obtain ws where ws: "v = DV_Structure ws" "wire_fields be L (h - 1) n1 (sd_fields d) ws b1"
      by (auto elim: wire_structE)
    show ?thesis
    proof (cases "sd_fields d = []")
      case True
      then have "wire_fields be L h n1 (sd_fields d) ws b1" "\<not> any_bit bits (Suc bo) ?c"
        using ws(2) length_bits_of_nested [of d] by (simp_all add: wire_fields_Nil_iff any_bit_def)
      with here onward b Some show ?thesis unfolding eq ws(1) by (intro d_whole)
    next
      case False
      have "wire_delta be L bits (h - 1) n1 (sd_fields d) (Suc bo) ws b1"
        using below by (intro Cons.IH(2) [OF ft] ws(2)) (simp add: length_bits_of_nested)
      moreover have "ws \<noteq> []" using ws(2) False by (auto elim: wire_fields.cases)
      moreover have "any_bit bits (Suc bo) ?c"
        using below [of 0] False length_bits_of_nested [of d]
        by (auto simp: any_bit_def neq_Nil_conv intro!: exI [of _ 0])
      ultimately show ?thesis
        unfolding eq ws(1) using onward Some by (intro d_part [where ?h1.0 = "h - 1"]) simp_all
    qed
  qed
qed

lemma encode_all_ones_bitset_eq:
  assumes "0 < n"
  shows "encode_all_ones_bitset n be = encode_size (length (ones n)) be @ ones n"
proof -
  define k where "k = (n + 7) div 8"
  have k: "0 < k" using assms by (simp add: k_def)
  have "(replicate k (0xFF :: byte)) [k - 1 := drop_bit 0 0xFF] = replicate k 0xFF"
    using k by (simp add: list_update_same_conv)
  with k show ?thesis
    by (auto simp: encode_all_ones_bitset_def push_all_ones_bitset_def Let_def ones_def
        k_def [symmetric] list_update_append)
qed

text \<open>A full update: the all-ones bitset of a descriptor, then all of its fields.\<close>

lemma decode_full_update:
  assumes "idle st" "wire_fields (d_is_be st) (d_limits st) h n (sd_fields d) vs bs"
    and "h \<le> max_depth (d_limits st)" "n \<le> MAX_DECODE_NODES" "count_structure_fields d < 2 ^ 32"
  shows "fst (decode_structure_with_bitset
      (encode_structure_bitset d (d_is_be st) @ bs @ rest) d st) =
    Inr (DV_Structure vs, length (encode_structure_bitset d (d_is_be st)) + length bs)"
proof -
  let ?n = "1 + count_structure_fields d"
  have bits: "encode_structure_bitset d (d_is_be st) =
      encode_size (length (ones ?n)) (d_is_be st) @ ones ?n" "length (ones ?n) < 2 ^ 32"
    using assms(5) encode_all_ones_bitset_eq [of ?n] by (simp_all add: encode_structure_bitset_def)
  show ?thesis
  proof (cases "count_structure_fields d = 0")
    case True
    then have "\<not> has_field_bits (ones ?n)" "bit_set (ones ?n) 0"
      unfolding has_field_bits_iff bit_set_ones by auto
    from decode_bitset_whole [OF assms(1-4) bits(2) this] show ?thesis by (simp add: bits(1))
  next
    case False
    have "wire_delta (d_is_be st) (d_limits st) (ones ?n) h n (sd_fields d) 1 vs bs"
      using assms(2) by (rule wire_fields_full) (simp add: bit_set_ones length_bits_of_nested)
    moreover have "has_field_bits (ones ?n)"
      using False unfolding has_field_bits_iff bit_set_ones by auto
    ultimately show ?thesis
      using decode_bitset_wire [OF assms(1) _ assms(3,4) wire_cost(2) [OF assms(2)], of "ones ?n" d vs rest]
        bits by simp
  qed
qed

end
