(* ===== verification/Nt_Roundtrip.thy ===== *)
theory Nt_Roundtrip
  imports Nt_Decoded Bitset_Wire
begin

text \<open>
  Encoding a payload and decoding it with its own descriptor gives back its decoded tree, for
  all six payload kinds. Each encoder is shown to write a sentence of the wire grammar for its
  descriptor; the completeness of the decoder does the rest.
\<close>

section \<open>Encoders as sentences\<close>

lemma fold_append: "fold (\<lambda>x out. out @ f x) xs out = out @ concat (map f xs)"
  by (induction xs arbitrary: out) simp_all

lemma push_string_array_eq:
  "push_string_array out ss be =
     out @ encode_size (length ss) be @ concat (map (\<lambda>s. encode_string s be) ss)"
  by (simp add: push_string_array_def push_string_append push_size_append fold_append)

lemma push_fixed_width_eq:
  "push_fixed_width out ws be = out @ encode_size (length ws) be @ concat (map (to_bytes be) ws)"
  by (simp add: push_fixed_width_def push_size_append fold_append)

lemma push_scalar_array_append:
  "push_scalar_array_value_pvd out v be = out @ push_scalar_array_value_pvd [] v be"
  by (cases v) (simp_all add: push_string_array_eq push_fixed_width_eq push_size_append)

lemma to_bytes_not_Nil: "8 \<le> LENGTH('a) \<Longrightarrow> to_bytes be (w :: 'a::len word) \<noteq> []"
  by (metis div_greater_zero_iff length_greater_0_conv length_to_bytes zero_less_numeral)

lemma encode_not_Nil [simp]:
  "encode_i32 a be \<noteq> []" "encode_i64 b be \<noteq> []" "encode_f64 c be \<noteq> []" "encode_bool d \<noteq> []"
  "encode_string_array ss be \<noteq> []" "push_scalar_array_value_pvd [] v be \<noteq> []"
proof -
  show "encode_i32 a be \<noteq> []" "encode_i64 b be \<noteq> []" "encode_f64 c be \<noteq> []"
    by (simp_all add: encode_i32_def encode_i64_def encode_f64_def to_bytes_not_Nil)
  show "encode_bool d \<noteq> []" by (simp add: encode_bool_def)
  show "encode_string_array ss be \<noteq> []" by (simp add: encode_string_array_def push_string_array_eq)
  show "push_scalar_array_value_pvd [] v be \<noteq> []"
    by (cases v) (simp_all add: push_string_array_eq push_fixed_width_eq push_size_append)
qed

definition wf_sv :: "scalar_value \<Rightarrow> bool" where
  "wf_sv v = (case v of SV_Str s \<Rightarrow> wf_string s | _ \<Rightarrow> True)"

definition wf_strings :: "decode_limits \<Rightarrow> string list \<Rightarrow> bool" where
  "wf_strings L ss \<longleftrightarrow> list_all wf_string ss \<and> length ss \<le> max_string_array L \<and> length ss < 2 ^ 32"

definition wf_sav :: "decode_limits \<Rightarrow> scalar_array_value \<Rightarrow> bool" where
  "wf_sav L v = (case v of SA_Str ss \<Rightarrow> wf_strings L ss
     | _ \<Rightarrow> sav_len v \<le> max_scalar_array L \<and> sav_len v < 2 ^ 32)"

lemma wire_sv:
  "0 < h \<Longrightarrow> wf_sv v \<Longrightarrow>
   wire_value be L h 0 (nt_scalar_value_type v) (dv_scalar v) (encode_scalar_value v be)"
  by (cases v) (auto simp: wf_sv_def split del: if_split intro: w_scalar w_string scalar_wire.intros)

lemma wire_strings:
  "0 < h \<Longrightarrow> wf_strings L ss \<Longrightarrow>
   wire_value be L h 0 FT_StringArray (dv_string_array ss) (encode_string_array ss be)"
  unfolding dv_string_array_def encode_string_array_def push_string_array_eq wf_strings_def append_Nil
  by (intro w_strings) simp_all

lemma wire_scalars:
  assumes "0 < h" "\<And>x. scalar_wire be tc (dv x) (b x)"
    and "length xs \<le> max_scalar_array L" "length xs < 2 ^ 32"
  shows "wire_value be L h 0 (FT_ScalarArray tc) (DV_Array (map dv xs))
    (encode_size (length xs) be @ concat (map b xs))"
  using w_scalars [of h be tc "map dv xs" "map b xs" L] assms
  by (simp add: list.rel_map list.rel_refl)

lemma concat_singletons: "concat (map (\<lambda>x. [f x]) xs) = map f xs"
  by (induction xs) simp_all

lemma wire_sav:
  assumes "0 < h" "wf_sav L v"
  shows "wire_value be L h 0 (scalar_array_field_type v) (dv_scalar_array v)
    (push_scalar_array_value_pvd [] v be)"
proof (cases v)
  case (SA_Str ss)
  with assms wire_strings [of h L ss be] show ?thesis
    by (simp add: wf_sav_def dv_string_array_def encode_string_array_def)
next
  case (SA_Bool x)
  with assms wire_scalars [of h be TC_Boolean DV_Boolean "\<lambda>b. [if b then 1 else 0]" x L]
  show ?thesis by (simp add: wf_sav_def push_size_append concat_singletons sw_bool)
next
  case (SA_I8 x)
  with assms wire_scalars [of h be TC_Int8 DV_Int8 "\<lambda>b. [b]" x L]
  show ?thesis by (simp add: wf_sav_def push_size_append concat_singletons sw_i8)
next
  case (SA_U8 x)
  with assms wire_scalars [of h be TC_UInt8 DV_UInt8 "\<lambda>b. [b]" x L]
  show ?thesis by (simp add: wf_sav_def push_size_append concat_singletons sw_u8)
qed (use assms in \<open>auto simp: wf_sav_def push_fixed_width_eq intro!: wire_scalars scalar_wire.intros\<close>)

section \<open>Rules for records of fields\<close>

lemma f_one: "wire_value be L h n ft v b \<Longrightarrow> b \<noteq> [] \<Longrightarrow>
    wire_fields be L h n [FieldDesc name ft] [(name, v)] b"
  using f_cons [of be L h n "FieldDesc name ft" v b 0 "[]" "[]" "[]"] f_nil by simp

lemma f_zero: "wire_value be L h 0 ft v b1 \<Longrightarrow> wire_fields be L h m fs vs b2 \<Longrightarrow> b2 \<noteq> [] \<Longrightarrow>
    wire_fields be L h m (FieldDesc name ft # fs) ((name, v) # vs) (b1 @ b2)"
  using f_cons [of be L h 0 "FieldDesc name ft" v b1 m fs vs b2] by simp

lemma w_i32: "0 < h \<Longrightarrow> wire_value be L h 0 (FT_Scalar TC_Int32) (DV_Int32 x) (encode_i32 x be)"
  unfolding encode_i32_def by (intro w_scalar sw_i32)

lemma w_i64: "0 < h \<Longrightarrow> wire_value be L h 0 (FT_Scalar TC_Int64) (DV_Int64 y) (encode_i64 y be)"
  unfolding encode_i64_def by (intro w_scalar sw_i64)

lemma w_f64: "0 < h \<Longrightarrow> wire_value be L h 0 (FT_Scalar TC_Float64) (DV_Float64 z) (encode_f64 z be)"
  unfolding encode_f64_def by (intro w_scalar sw_f64)

lemma w_bool: "0 < h \<Longrightarrow> wire_value be L h 0 (FT_Scalar TC_Boolean) (DV_Boolean b) (encode_bool b)"
  unfolding encode_bool_def by (intro w_scalar sw_bool)

lemma w_u8: "0 < h \<Longrightarrow> wire_value be L h 0 (FT_Scalar TC_UInt8) (DV_UInt8 w) [w]"
  by (intro w_scalar sw_u8)

lemma w_record: "0 < h \<Longrightarrow> wire_fields be L (h - 1) n fs vs bs \<Longrightarrow>
    wire_value be L h n (FT_Structure (StructureDesc i fs)) (DV_Structure vs) bs"
  using w_struct [of h be L n "StructureDesc i fs" vs bs] by simp

lemmas record_intros = f_zero f_one w_i32 w_i64 w_f64 w_bool w_u8 w_string w_record

lemma wire_alarm:
  "1 < h \<Longrightarrow> wf_string m \<Longrightarrow>
   wire_value be L h 0 (FT_Structure alarm_desc) (dv_alarm s t m)
     (encode_i32 s be @ encode_i32 t be @ encode_string m be)"
  unfolding alarm_desc_def dv_alarm_def by (intro record_intros) simp_all

lemma wire_timestamp:
  "1 < h \<Longrightarrow> wire_value be L h 0 (FT_Structure timestamp_desc) (dv_timestamp s n u)
     (encode_i64 s be @ encode_i32 n be @ encode_i32 u be)"
  unfolding timestamp_desc_def dv_timestamp_def by (intro record_intros) simp_all

lemma wire_enum_t:
  "1 < h \<Longrightarrow> wf_strings L ss \<Longrightarrow>
   wire_value be L h 0 (FT_Structure enum_t_desc)
     (DV_Structure [(''index'', DV_Int32 i), (''choices'', dv_string_array ss)])
     (encode_enum i ss be)"
  unfolding enum_t_desc_def encode_enum_def by (intro record_intros wire_strings) simp_all

lemma wire_display:
  "2 < h \<Longrightarrow> wf_string d \<Longrightarrow> wf_string u \<Longrightarrow> wf_strings L ss \<Longrightarrow>
   wire_value be L h 0 (FT_Structure display_desc)
     (DV_Structure
       [(''limitLow'', DV_Float64 lo), (''limitHigh'', DV_Float64 hi), (''description'', DV_String d),
        (''units'', DV_String u), (''precision'', DV_Int32 p),
        (''form'', DV_Structure [(''index'', DV_Int32 i), (''choices'', dv_string_array ss)])])
     (encode_f64 lo be @ encode_f64 hi be @ encode_string d be @ encode_string u be
       @ encode_i32 p be @ encode_enum i ss be)"
  unfolding display_desc_def
  by (intro f_zero f_one w_i32 w_f64 w_string w_record wire_enum_t) (simp_all add: encode_enum_def)

lemma wire_control:
  "1 < h \<Longrightarrow> wire_value be L h 0 (FT_Structure control_desc)
     (DV_Structure [(''limitLow'', DV_Float64 lo), (''limitHigh'', DV_Float64 hi),
       (''minStep'', DV_Float64 st)])
     (encode_f64 lo be @ encode_f64 hi be @ encode_f64 st be)"
  unfolding control_desc_def by (intro record_intros) simp_all

lemma standard_choices_wf: "7 \<le> max_string_array L \<Longrightarrow> wf_strings L STANDARD_FORM_CHOICES"
  by (simp add: wf_strings_def STANDARD_FORM_CHOICES_def wf_string_def as_bytes_def)

lemma dv_form_choices_eq:
  "dv_form_choices ss = dv_string_array (if ss = [] then STANDARD_FORM_CHOICES else ss)"
  by (simp add: dv_form_choices_def dv_string_array_def)

section \<open>Lists of fields and of items\<close>

lemma wire_fields_map:
  assumes "\<And>x. x \<in> set xs \<Longrightarrow> wire_value be L h 0 (T x) (V x) (B x)"
    and "\<And>x. x \<in> set xs \<Longrightarrow> B x \<noteq> []"
  shows "wire_fields be L h 0 (map (\<lambda>x. FieldDesc (N x) (T x)) xs) (map (\<lambda>x. (N x, V x)) xs)
    (concat (map B xs))"
  using assms
proof (induction xs)
  case (Cons x xs)
  then show ?case
    using f_cons [of be L h 0 "FieldDesc (N x) (T x)" "V x" "B x" 0] by simp
qed (simp add: f_nil)

lemma wire_items_map:
  assumes "\<And>x. x \<in> set xs \<Longrightarrow> wire_fields be L h c (sd_fields d) (V x) (B x)"
  shows "wire_items be L h (c * length xs) d (map (\<lambda>x. DV_Structure (V x)) xs)
    (concat (map (\<lambda>x. 1 # B x) xs))"
  using assms
proof (induction xs)
  case (Cons x xs)
  then show ?case
    using i_cons [of be L h c d "V x" "B x" "c * length xs" _ _ 1] by simp
qed (simp add: i_nil)

lemma wire_structs:
  assumes "0 < h" "\<And>x. x \<in> set xs \<Longrightarrow> wire_fields be L (h - 1) c (sd_fields d) (V x) (B x)"
    and "length xs \<le> max_struct_array L" "length xs < 2 ^ 32"
  shows "wire_value be L h (c * length xs) (FT_StructureArray d)
    (DV_Array (map (\<lambda>x. DV_Structure (V x)) xs))
    (encode_size (length xs) be @ concat (map (\<lambda>x. 1 # B x) xs))"
  using w_structs [OF assms(1) wire_items_map [OF assms(2)]] assms(3,4) by simp

lemma f_some: "wire_value be L h n ft v b1 \<Longrightarrow> wire_fields be L h 0 fs vs b2 \<Longrightarrow> b2 \<noteq> [] \<Longrightarrow>
    wire_fields be L h n (FieldDesc name ft # fs) ((name, v) # vs) (b1 @ b2)"
  using f_cons [of be L h n "FieldDesc name ft" v b1 0 fs vs b2] by simp

section \<open>NTNDArray parts\<close>

lemma encode_attribute_variant_eq:
  "encode_attribute_variant a be =
     encode_type_desc (nt_scalar_value_type (at_value a)) be @ encode_scalar_value (at_value a) be"
  by (simp add: encode_i32_def encode_i64_def encode_f64_def split: scalar_value.split)

declare encode_attribute_variant.simps [simp del]

lemma encode_attribute_variant_not_Nil [simp]: "encode_attribute_variant a be \<noteq> []"
  by (simp add: encode_attribute_variant_eq)

lemma scalar_value_type_facts:
  "wf_field_type m (nt_scalar_value_type v)" "type_height (nt_scalar_value_type v) = 1"
  "type_nodes (nt_scalar_value_type v) = 1"
  by (cases v; simp add: wf_scalar_code_def)+

lemma wire_attribute_variant:
  assumes "1 < h" "wf_sv (at_value a)"
  shows "wire_value be L h 1 FT_Variant (dv_scalar (at_value a)) (encode_attribute_variant a be)"
  using w_variant [of h L "nt_scalar_value_type (at_value a)" be 0] assms
  by (simp add: encode_attribute_variant_eq scalar_value_type_facts wire_sv)

definition params_nodes :: "(string \<times> string) list \<Rightarrow> nat" where
  "params_nodes ps = (if ps = [] then 0 else Suc (length ps))"

definition wf_params :: "decode_limits \<Rightarrow> (string \<times> string) list \<Rightarrow> bool" where
  "wf_params L ps \<longleftrightarrow> distinct (map fst ps) \<and> list_all (\<lambda>(k, v). wf_string k \<and> wf_string v) ps \<and>
     length ps \<le> max_struct_fields L \<and> length ps < 2 ^ 32"

lemma map_of_in_wf:
  "list_all (\<lambda>(k, v). wf_string k \<and> wf_string v) ps \<Longrightarrow> k \<in> fst ` set ps \<Longrightarrow>
   wf_string k \<and> wf_string (the (map_of ps k))"
  by (induction ps) (auto split: if_splits)

lemma max_list_strings: "xs \<noteq> [] \<Longrightarrow> max_list (map (\<lambda>x. Suc 0) xs) = Suc 0"
proof (induction xs)
  case (Cons x xs)
  then show ?case by (cases xs) (simp_all add: max_list_def)
qed simp

lemma wire_params:
  assumes "3 < h" "wf_params L ps"
  shows "wire_value be L (h - 1) (params_nodes ps) FT_Variant (dv_codec_parameters ps)
    (encode_codec_parameters ps be)"
proof (cases "ps = []")
  case True
  with assms show ?thesis
    by (simp add: dv_codec_parameters_def encode_codec_parameters_def params_nodes_def w_null)
next
  case False
  define keys where "keys = sort (map fst ps)"
  have keys: "set keys = fst ` set ps" "length keys = length ps" "keys \<noteq> []"
    using False by (simp_all add: keys_def) (metis length_0_conv length_map length_sort)
  have wf: "wf_string k" "wf_string (the (map_of ps k))" if "k \<in> set keys" for k
    using map_of_in_wf [of ps k] that assms(2) by (auto simp: keys wf_params_def)
  let ?ft = "FT_Structure (parameters_desc keys)"
  have "wire_value be L (h - 2) 0 ?ft
      (DV_Structure (map (\<lambda>k. (k, DV_String (the (map_of ps k)))) keys))
      (concat (map (\<lambda>k. encode_string (the (map_of ps k)) be) keys))"
    using assms wf unfolding parameters_desc_def
    by (intro w_record wire_fields_map w_string) auto
  moreover have "wf_field_type (max_struct_fields L) ?ft"
    using assms(2) wf by (auto simp: parameters_desc_def keys wf_params_def list_all_iff)
  moreover have "type_height ?ft = 2" "type_nodes ?ft = Suc (length ps)"
    using keys by (simp_all add: parameters_desc_def comp_def max_list_strings fields_nodes_def sum_list_triv)
  ultimately show ?thesis
    using w_variant [of "h - 1" L ?ft be 0] assms(1) False
    by (simp add: dv_codec_parameters_def encode_codec_parameters_def params_nodes_def Let_def
        keys_def numeral_2_eq_2)
qed

lemma wire_codec:
  "3 < h \<Longrightarrow> wf_string n \<Longrightarrow> wf_params L ps \<Longrightarrow>
   wire_value be L h (params_nodes ps) (FT_Structure codec_desc)
     (DV_Structure [(''name'', DV_String n), (''parameters'', dv_codec_parameters ps)])
     (encode_string n be @ encode_codec_parameters ps be)"
  unfolding codec_desc_def
  by (intro w_record f_zero f_one w_string wire_params)
    (simp_all add: encode_codec_parameters_def Let_def)

lemma wire_union:
  assumes "1 < h" "wf_sav L v"
  shows "wire_value be L h 0 (FT_Union nt_ndarray_value_union_fields)
    (DV_Structure [(ndarray_union_field_name v, dv_scalar_array v)])
    (encode_size (ndarray_union_index v) be @ push_scalar_array_value_pvd [] v be)"
proof -
  let ?fs = nt_ndarray_value_union_fields and ?i = "ndarray_union_index v"
  have i: "?i < length ?fs" "?i < 2 ^ 32"
    "?fs ! ?i = FieldDesc (ndarray_union_field_name v) (scalar_array_field_type v)"
    by (cases v; simp add: nt_ndarray_value_union_fields_def)+
  show ?thesis
    using w_union [of h ?i ?fs be L 0] i wire_sav [of "h - 1" L v be] assms by simp
qed

lemma wire_dimensions:
  assumes "1 < h" "length ds \<le> max_struct_array L" "length ds < 2 ^ 32"
  shows "wire_value be L h 0 (FT_StructureArray dimension_desc) (dv_dimensions ds)
    (encode_size (length ds) be @ concat (map (\<lambda>d. encode_dimension d be) ds))"
proof -
  have "wire_fields be L (h - 1) 0 (sd_fields dimension_desc)
      [(''size'', DV_Int32 (nd_size d)), (''offset'', DV_Int32 (nd_offset d)),
       (''fullSize'', DV_Int32 (nd_full_size d)), (''binning'', DV_Int32 (nd_binning d)),
       (''reverse'', DV_Boolean (nd_reverse d))]
      (encode_i32 (nd_size d) be @ encode_i32 (nd_offset d) be @ encode_i32 (nd_full_size d) be
        @ encode_i32 (nd_binning d) be @ encode_bool (nd_reverse d))" for d
    using assms(1) unfolding dimension_desc_def structure_desc.sel by (intro record_intros) simp_all
  from wire_structs [OF _ this assms(2,3)] assms(1) show ?thesis
    by (simp add: dv_dimensions_def encode_dimension_def encode_bool_def)
qed

definition wf_attribute :: "nt_attribute \<Rightarrow> bool" where
  "wf_attribute a \<longleftrightarrow> wf_string (at_name a) \<and> wf_sv (at_value a) \<and> wf_string (at_descriptor a) \<and>
     wf_string (at_source a)"

lemma wire_attributes:
  assumes "2 < h" "length as \<le> max_struct_array L" "length as < 2 ^ 32" "list_all wf_attribute as"
  shows "wire_value be L h (length as) (FT_StructureArray attribute_desc) (dv_attributes as)
    (encode_size (length as) be @ concat (map (\<lambda>a. encode_attribute a be) as))"
proof -
  have "wire_fields be L (h - 1) 1 (sd_fields attribute_desc)
      [(''name'', DV_String (at_name a)), (''value'', dv_scalar (at_value a)),
       (''descriptor'', DV_String (at_descriptor a)),
       (''sourceType'', DV_Int32 (at_source_type a)), (''source'', DV_String (at_source a))]
      (encode_string (at_name a) be @ encode_attribute_variant a be
        @ encode_string (at_descriptor a) be @ encode_i32 (at_source_type a) be
        @ encode_string (at_source a) be)" if "a \<in> set as" for a
    using assms that unfolding attribute_desc_def structure_desc.sel
    by (intro f_zero f_some f_one w_string w_i32 wire_attribute_variant)
      (auto simp: wf_attribute_def list_all_iff)
  from wire_structs [OF _ this assms(2,3)] assms(1) show ?thesis
    by (simp add: dv_attributes_def encode_attribute_def)
qed

section \<open>Payloads\<close>

fun wf_pv :: "decode_limits \<Rightarrow> nat \<Rightarrow> pv_value \<Rightarrow> bool" where
  "wf_pv L h (PV_Scalar v) \<longleftrightarrow> 0 < h \<and> wf_sv v"
| "wf_pv L h (PV_ScalarArray v) \<longleftrightarrow> 0 < h \<and> wf_sav L v"
| "wf_pv L h (PV_Structure _ fs) \<longleftrightarrow> 0 < h \<and> fs \<noteq> [] \<and> (\<forall>f \<in> set fs. wf_pv L (h - 1) (snd f))"

definition wf_alarm :: "nt_alarm \<Rightarrow> bool" where
  "wf_alarm a \<longleftrightarrow> wf_string (al_message a)"

definition wf_display :: "nt_display \<Rightarrow> bool" where
  "wf_display d \<longleftrightarrow> wf_string (di_description d) \<and> wf_string (di_units d)"

text \<open>The payloads a decoder with the limits \<open>L\<close> accepts: strings are UTF-8 of less than 4 GiB,
  arrays stay within the limits, and a generic structure is not empty.\<close>

fun wf_payload :: "decode_limits \<Rightarrow> nt_payload \<Rightarrow> bool" where
  "wf_payload L (NT_Scalar nt) \<longleftrightarrow>
     wf_sv (ns_value nt) \<and> wf_string (ns_alarm_message nt) \<and> wf_string (ns_display_description nt) \<and>
     wf_string (ns_units nt) \<and> wf_strings L (ns_display_form_choices nt)"
| "wf_payload L (NT_ScalarArray nt) \<longleftrightarrow>
     wf_sav L (na_value nt) \<and> wf_alarm (na_alarm nt) \<and> wf_display (na_display nt)"
| "wf_payload L (NT_Table nt) \<longleftrightarrow>
     wf_strings L (tb_labels nt) \<and> list_all (\<lambda>c. wf_sav L (tc_values c)) (tb_columns nt) \<and>
     wf_string (or_default [] (tb_descriptor nt)) \<and>
     wf_alarm (or_default nt_alarm_default (tb_alarm nt))"
| "wf_payload L (NT_NdArray nt) \<longleftrightarrow>
     wf_sav L (nd_value nt) \<and> wf_string (cd_name (nd_codec nt)) \<and>
     wf_params L (cd_parameters (nd_codec nt)) \<and>
     length (nd_dims nt) \<le> max_struct_array L \<and> length (nd_dims nt) < 2 ^ 32 \<and>
     length (nd_attributes nt) \<le> max_struct_array L \<and> length (nd_attributes nt) < 2 ^ 32 \<and>
     list_all wf_attribute (nd_attributes nt) \<and>
     wf_string (or_default [] (nd_descriptor nt)) \<and>
     wf_alarm (or_default nt_alarm_default (nd_alarm nt)) \<and>
     wf_display (or_default nt_display_default (nd_display nt))"
| "wf_payload L (NT_Enum nt) \<longleftrightarrow> wf_strings L (en_choices nt) \<and> wf_alarm (en_alarm nt)"
| "wf_payload L (NT_Generic _ fs) \<longleftrightarrow> (\<forall>f \<in> set fs. wf_pv L (max_depth L) (snd f))"

fun payload_nodes :: "nt_payload \<Rightarrow> nat" where
  "payload_nodes (NT_NdArray nt) =
     params_nodes (cd_parameters (nd_codec nt)) + length (nd_attributes nt)"
| "payload_nodes _ = 0"

lemma wire_nt_alarm:
  "1 < h \<Longrightarrow> wf_alarm a \<Longrightarrow> wire_value be L h 0 (FT_Structure alarm_desc)
     (dv_alarm (al_severity a) (al_status a) (al_message a)) (encode_nt_alarm a be)"
  unfolding encode_nt_alarm_def wf_alarm_def by (rule wire_alarm)

lemma wire_nt_timestamp:
  "1 < h \<Longrightarrow> wire_value be L h 0 (FT_Structure timestamp_desc) (dv_nt_timestamp ts)
     (encode_nt_timestamp ts be)"
  unfolding encode_nt_timestamp_def dv_nt_timestamp_def by (rule wire_timestamp)

lemma wire_nt_display:
  "2 < h \<Longrightarrow> wf_display d \<Longrightarrow> 7 \<le> max_string_array L \<Longrightarrow>
   wire_value be L h 0 (FT_Structure display_desc) (dv_display d) (encode_nt_display d be)"
  unfolding encode_nt_display_def dv_display_def wf_display_def dv_form_choices_eq if_P [OF refl]
  by (intro wire_display standard_choices_wf) simp_all

lemma parts_not_Nil [simp]:
  "encode_nt_alarm a be \<noteq> []" "encode_nt_timestamp ts be \<noteq> []" "encode_nt_display d be \<noteq> []"
  "encode_enum i ss be \<noteq> []" "encode_scalar_value v be \<noteq> []"
  by (simp_all add: encode_nt_alarm_def encode_nt_timestamp_def encode_nt_display_def encode_enum_def)
    (cases v; simp add: to_bytes_not_Nil)

lemma wanted_None [simp]: "wanted None fs = fs"
  by (simp add: wanted_def wants_field_def)

lemma wire_scalar_alarm:
  "1 < h \<Longrightarrow> wf_string (ns_alarm_message nt) \<Longrightarrow> wire_value be L h 0 (FT_Structure alarm_desc)
     (dv_alarm (ns_alarm_severity nt) (ns_alarm_status nt) (ns_alarm_message nt)) (encode_alarm nt be)"
  unfolding encode_alarm_def by (rule wire_alarm)

lemma wire_scalar_timestamp:
  "1 < h \<Longrightarrow> wire_value be L h 0 (FT_Structure timestamp_desc) (dv_scalar_timestamp now nt)
     (encode_timestamp now nt be)"
  unfolding encode_timestamp_def dv_scalar_timestamp_def by (auto split: prod.split intro: wire_timestamp)

lemma wire_scalar_display:
  assumes "2 < h" "7 \<le> max_string_array L" "wf_payload L (NT_Scalar nt)"
  shows "wire_value be L h 0 (FT_Structure display_desc) (DV_Structure
        [(''limitLow'', DV_Float64 (ns_display_low nt)),
         (''limitHigh'', DV_Float64 (ns_display_high nt)),
         (''description'', DV_String (ns_display_description nt)),
         (''units'', DV_String (ns_units nt)),
         (''precision'', DV_Int32 (ns_display_precision nt)),
         (''form'', DV_Structure
           [(''index'', DV_Int32 (ns_display_form_index nt)),
            (''choices'', dv_form_choices (ns_display_form_choices nt))])]) (encode_display nt be)"
proof -
  let ?choices = "if ns_display_form_choices nt = [] then STANDARD_FORM_CHOICES
    else ns_display_form_choices nt"
  have "encode_display nt be =
     encode_f64 (ns_display_low nt) be @ encode_f64 (ns_display_high nt) be
     @ encode_string (ns_display_description nt) be @ encode_string (ns_units nt) be
     @ encode_i32 (ns_display_precision nt) be
     @ encode_enum (ns_display_form_index nt) ?choices be"
    by (simp add: encode_display_def)
  moreover have "wf_strings L ?choices" using assms by (simp add: standard_choices_wf)
  ultimately show ?thesis
    using assms by (simp only: dv_form_choices_eq wf_payload.simps) (intro wire_display; simp)
qed

lemma wire_scalar_control:
  "1 < h \<Longrightarrow> wire_value be L h 0 (FT_Structure control_desc)
     (DV_Structure [(''limitLow'', DV_Float64 (ns_control_low nt)),
       (''limitHigh'', DV_Float64 (ns_control_high nt)),
       (''minStep'', DV_Float64 (ns_control_min_step nt))]) (encode_control nt be)"
  unfolding encode_control_def by (rule wire_control)

lemma scalar_parts_not_Nil [simp]:
  "encode_alarm nt be \<noteq> []" "encode_timestamp now nt be \<noteq> []" "encode_display nt be \<noteq> []"
  "encode_control nt be \<noteq> []" "encode_value_alarm nt be \<noteq> []"
  by (simp_all add: encode_alarm_def encode_timestamp_def encode_display_def encode_control_def
      encode_value_alarm_def split: prod.split)

lemma wire_value_alarm:
  "1 < h \<Longrightarrow> wire_value be L h 0 (FT_Structure value_alarm_desc) (DV_Structure
        [(''active'', DV_Boolean (ns_va_active nt)),
         (''lowAlarmLimit'', DV_Float64 (ns_va_low_alarm_limit nt)),
         (''lowWarningLimit'', DV_Float64 (ns_va_low_warning_limit nt)),
         (''highWarningLimit'', DV_Float64 (ns_va_high_warning_limit nt)),
         (''highAlarmLimit'', DV_Float64 (ns_va_high_alarm_limit nt)),
         (''lowAlarmSeverity'', DV_Int32 (ns_va_low_alarm_severity nt)),
         (''lowWarningSeverity'', DV_Int32 (ns_va_low_warning_severity nt)),
         (''highWarningSeverity'', DV_Int32 (ns_va_high_warning_severity nt)),
         (''highAlarmSeverity'', DV_Int32 (ns_va_high_alarm_severity nt)),
         (''hysteresis'', DV_UInt8 (ns_va_hysteresis nt))]) (encode_value_alarm nt be)"
  unfolding value_alarm_desc_def encode_value_alarm_def by (intro record_intros) simp_all

lemma wire_nt_scalar:
  assumes "2 < h" "7 \<le> max_string_array L" "wf_payload L (NT_Scalar nt)"
  shows "wire_fields be L h 0 (sd_fields (nt_scalar_desc (ns_value nt)))
    (dv_nt_scalar_fields now nt None) (encode_nt_scalar_full now nt be)"
  unfolding nt_scalar_desc_def structure_desc.sel encode_nt_scalar_full_def push_nt_scalar_full_def
    append_Nil dv_nt_scalar_fields_def wanted_None
  using assms
  by (intro f_zero f_one wire_sv wire_scalar_alarm wire_scalar_timestamp wire_scalar_display
      wire_scalar_control wire_value_alarm) simp_all

lemma push_columns:
  "fold (\<lambda>c out. push_scalar_array_value_pvd out (tc_values c) be) cs out =
     out @ concat (map (\<lambda>c. push_scalar_array_value_pvd [] (tc_values c) be) cs)"
proof (induction cs arbitrary: out)
  case (Cons c cs)
  then show ?case using push_scalar_array_append [of out "tc_values c" be] by simp
qed simp

lemma wire_nt_scalar_array:
  assumes "2 < h" "7 \<le> max_string_array L" "wf_payload L (NT_ScalarArray nt)"
  shows "wire_fields be L h 0 (sd_fields (nt_scalar_array_desc (na_value nt)))
    (dv_nt_scalar_array_fields nt None) (encode_nt_scalar_array_full nt be)"
  using assms
  unfolding nt_scalar_array_desc_def structure_desc.sel encode_nt_scalar_array_full_def
    push_nt_scalar_array_full_def dv_nt_scalar_array_fields_def wanted_None
  by (intro f_zero f_one wire_sav wire_nt_alarm wire_nt_timestamp wire_nt_display wire_control)
    simp_all

lemma wire_nt_table:
  assumes "2 < h" "wf_payload L (NT_Table nt)"
  shows "wire_fields be L h 0 (sd_fields (nt_table_desc nt))
    (dv_nt_table_fields nt None) (encode_nt_table_full nt be)"
  using assms
  unfolding nt_table_desc_def structure_desc.sel encode_nt_table_full_def
    push_nt_table_full_def dv_nt_table_fields_def wanted_None dv_opt_alarm_def Let_def
    push_columns append_Nil append_assoc
  by (intro f_zero f_one w_record wire_fields_map wire_sav wire_strings w_string wire_nt_alarm
      wire_nt_timestamp) (simp_all add: list_all_iff)

lemma wire_nt_enum:
  assumes "2 < h" "wf_payload L (NT_Enum nt)"
  shows "wire_fields be L h 0 (sd_fields nt_enum_desc)
    (dv_nt_enum_fields nt None) (encode_nt_enum_full nt be)"
  using assms
  unfolding nt_enum_desc_def structure_desc.sel encode_nt_enum_full_def
    push_nt_enum_full_def dv_nt_enum_fields_def wanted_None append_Nil
  by (intro f_zero f_one wire_enum_t wire_nt_alarm wire_nt_timestamp) simp_all

lemma wire_nt_ndarray:
  assumes "3 < h" "7 \<le> max_string_array L" "wf_payload L (NT_NdArray nt)"
  shows "wire_fields be L h (payload_nodes (NT_NdArray nt)) (sd_fields nt_ndarray_desc)
    (dv_nt_ndarray_fields nt None) (encode_nt_ndarray_full nt be)"
proof -
  have bytes: "encode_nt_ndarray_full nt be =
      (encode_size (ndarray_union_index (nd_value nt)) be
        @ push_scalar_array_value_pvd [] (nd_value nt) be)
      @ (encode_string (cd_name (nd_codec nt)) be
        @ encode_codec_parameters (cd_parameters (nd_codec nt)) be)
      @ encode_i64 (nd_compressed_size nt) be @ encode_i64 (nd_uncompressed_size nt) be
      @ (encode_size (length (nd_dims nt)) be
        @ concat (map (\<lambda>d. encode_dimension d be) (nd_dims nt)))
      @ encode_i32 (nd_unique_id nt) be @ encode_nt_timestamp (nd_data_time_stamp nt) be
      @ (encode_size (length (nd_attributes nt)) be
        @ concat (map (\<lambda>a. encode_attribute a be) (nd_attributes nt)))
      @ encode_string (or_default [] (nd_descriptor nt)) be
      @ encode_nt_alarm (or_default nt_alarm_default (nd_alarm nt)) be
      @ encode_nt_timestamp (or_default nt_time_stamp_default (nd_time_stamp nt)) be
      @ encode_nt_display (or_default nt_display_default (nd_display nt)) be"
    using push_scalar_array_append [of "encode_size (ndarray_union_index (nd_value nt)) be"]
    by (simp add: encode_nt_ndarray_full_def push_nt_ndarray_full_def push_size_append)
  have codec: "wire_fields be L h (params_nodes ps + m) (FieldDesc nm ft # fs) ((nm, v) # vs) (b1 @ b2)"
    if "wire_value be L h (params_nodes ps) ft v b1" "wire_fields be L h m fs vs b2" "b2 \<noteq> []"
    for nm ft fs v vs b1 b2 m ps
    using f_cons [of be L h "params_nodes ps" "FieldDesc nm ft" v b1 m fs vs b2] that by simp
  show ?thesis
    unfolding bytes nt_ndarray_desc_def structure_desc.sel dv_nt_ndarray_fields_def wanted_None
      payload_nodes.simps dv_opt_alarm_def Let_def
    by (rule f_zero codec f_some f_one
        | rule wire_union wire_codec w_i64 w_i32 w_string wire_dimensions wire_attributes
            wire_nt_timestamp wire_nt_alarm wire_nt_display
        | use assms in simp; fail)+
qed

section \<open>Generic structures\<close>

lemma push_pv_value_append: "push_pv_value out v be = out @ push_pv_value [] v be"
proof (induction v arbitrary: out)
  case (PV_ScalarArray sa)
  then show ?case using push_scalar_array_append [of out sa be] by simp
next
  case (PV_Structure sid fs)
  have "fold (\<lambda>f out. push_pv_value out (snd f) be) gs out =
      out @ fold (\<lambda>f out. push_pv_value out (snd f) be) gs []" if "set gs \<subseteq> set fs" for gs out
    using that
  proof (induction gs arbitrary: out)
    case (Cons g gs)
    have g: "push_pv_value out (snd g) be = out @ push_pv_value [] (snd g) be"
      using Cons.prems by (intro PV_Structure.IH [of g]) (auto simp: snds.simps)
    have "fold (\<lambda>f out. push_pv_value out (snd f) be) gs out =
        out @ fold (\<lambda>f out. push_pv_value out (snd f) be) gs []" for out
      using Cons.prems by (intro Cons.IH) simp
    from this [of "push_pv_value out (snd g) be"] this [of "push_pv_value [] (snd g) be"]
    show ?case by (simp only: fold_Cons comp_apply g append_assoc)
  qed simp
  from this [OF subset_refl, of out] show ?case by (simp only: push_pv_value.simps)
qed simp

lemma push_pv_values:
  "fold (\<lambda>f out. push_pv_value out (snd f) be) fs out =
     out @ concat (map (\<lambda>f. push_pv_value [] (snd f) be) fs)"
proof (induction fs arbitrary: out)
  case (Cons f fs)
  then show ?case using push_pv_value_append [of out "snd f" be] by simp
qed simp

lemma pv_scalar_type: "pv_value_field_type (PV_Scalar v) = nt_scalar_value_type v"
  by (cases v) simp_all

lemma wire_pv:
  "wf_pv L h v \<Longrightarrow> wire_value be L h 0 (pv_value_field_type v) (dv_pv_value v) (push_pv_value [] v be) \<and>
     push_pv_value [] v be \<noteq> []"
proof (induction v arbitrary: h)
  case (PV_Scalar sv)
  then show ?case by (simp add: pv_scalar_type wire_sv del: pv_value_field_type.simps)
next
  case (PV_ScalarArray sa)
  then show ?case by (simp add: wire_sav)
next
  case (PV_Structure sid fs)
  have IH: "wire_value be L (h - 1) 0 (pv_value_field_type (snd f)) (dv_pv_value (snd f))
      (push_pv_value [] (snd f) be) \<and> push_pv_value [] (snd f) be \<noteq> []" if "f \<in> set fs" for f
    using PV_Structure that by (cases f) force
  then have "wire_value be L h 0 (pv_value_field_type (PV_Structure sid fs))
      (dv_pv_value (PV_Structure sid fs)) (push_pv_value [] (PV_Structure sid fs) be)"
    using PV_Structure.prems
    by (simp only: pv_value_field_type.simps pv_value_desc.simps dv_pv_value.simps push_pv_value.simps
        push_pv_values append_Nil case_prod_unfold)
      (intro w_record wire_fields_map; simp)
  moreover have "push_pv_value [] (PV_Structure sid fs) be \<noteq> []"
    using IH [of "hd fs"] PV_Structure.prems by (cases fs) (simp_all add: push_pv_values)
  ultimately show ?case by simp
qed

lemma wire_generic:
  assumes "\<forall>f \<in> set fs. wf_pv L h (snd f)"
  shows "wire_fields be L h 0 (sd_fields (pv_value_desc sid fs)) (dv_generic_fields fs None)
    (push_pv_value_fields [] fs be)"
  using assms wire_pv [of L h _ be]
  unfolding dv_generic_fields_def push_pv_value_fields_def wanted_None pv_value_desc.simps
    structure_desc.sel case_prod_unfold push_pv_values append_Nil
  by (intro wire_fields_map) auto

section \<open>The round trip\<close>

fun payload_fields :: "clock \<Rightarrow> nt_payload \<Rightarrow> (string \<times> decoded_value) list" where
  "payload_fields now (NT_Scalar nt) = dv_nt_scalar_fields now nt None"
| "payload_fields now (NT_ScalarArray nt) = dv_nt_scalar_array_fields nt None"
| "payload_fields now (NT_Table nt) = dv_nt_table_fields nt None"
| "payload_fields now (NT_NdArray nt) = dv_nt_ndarray_fields nt None"
| "payload_fields now (NT_Enum nt) = dv_nt_enum_fields nt None"
| "payload_fields now (NT_Generic sid fs) = dv_generic_fields fs None"

lemma payload_fields: "nt_payload_to_decoded now p = DV_Structure (payload_fields now p)"
  by (cases p) (simp_all add: nt_payload_to_decoded_def)

lemma wire_payload:
  assumes "4 \<le> max_depth L" "7 \<le> max_string_array L" "wf_payload L p"
  shows "wire_fields be L (max_depth L) (payload_nodes p) (sd_fields (nt_payload_desc p))
    (payload_fields now p) (encode_nt_payload_full now p be)"
proof -
  have h: "2 < max_depth L" "3 < max_depth L" using assms(1) by simp_all
  note parts = nt_payload_desc.simps payload_fields.simps encode_nt_payload_full_def
    push_nt_payload_full.simps
  show ?thesis
  proof (cases p)
    case (NT_Scalar nt)
    then show ?thesis using wire_nt_scalar [OF h(1) assms(2)] assms(3)
      by (simp only: parts payload_nodes.simps encode_nt_scalar_full_def)
  next
    case (NT_ScalarArray nt)
    then show ?thesis using wire_nt_scalar_array [OF h(1) assms(2)] assms(3)
      by (simp only: parts payload_nodes.simps encode_nt_scalar_array_full_def)
  next
    case (NT_Table nt)
    then show ?thesis using wire_nt_table [OF h(1)] assms(3)
      by (simp only: parts payload_nodes.simps encode_nt_table_full_def)
  next
    case (NT_NdArray nt)
    then show ?thesis using wire_nt_ndarray [OF h(2) assms(2)] assms(3)
      by (simp only: parts encode_nt_ndarray_full_def)
  next
    case (NT_Enum nt)
    then show ?thesis using wire_nt_enum [OF h(1)] assms(3)
      by (simp only: parts payload_nodes.simps encode_nt_enum_full_def)
  next
    case (NT_Generic sid fs)
    then show ?thesis using wire_generic [of fs L "max_depth L"] assms(3)
      by (simp only: parts payload_nodes.simps wf_payload.simps)
  qed
qed

text \<open>C18: encoding and decoding a payload are inverse. For each of the six payload kinds, in
  either byte order and whatever follows, decoding the full encoding of a payload with the
  payload's own descriptor gives exactly its decoded tree and consumes exactly its bytes. The
  hypotheses are that the decoder is between messages, that its limits admit the payload, and that
  its depth limit is at least four (the default is 32).\<close>

theorem payload_round_trip:
  assumes "idle st" "wf_payload (d_limits st) p"
    and "4 \<le> max_depth (d_limits st)" "7 \<le> max_string_array (d_limits st)"
    and "payload_nodes p \<le> MAX_DECODE_NODES"
  shows "fst (decode_structure (encode_nt_payload_full now p (d_is_be st) @ rest)
      (nt_payload_desc p) st) =
    Inr (nt_payload_to_decoded now p, length (encode_nt_payload_full now p (d_is_be st)))"
  using decode_structure_wire [OF assms(1) wire_payload [OF assms(3,4,2)] order_refl assms(5)]
  by (simp add: payload_fields)

text \<open>A payload every decoder accepts, for the witnesses.\<close>

definition sample_payload :: nt_payload where
  "sample_payload = NT_Generic ''demo''
     [(''x'', PV_Scalar (SV_I32 7)),
      (''inner'', PV_Structure [] [(''y'', PV_ScalarArray (SA_U8 [1, 2, 3]))])]"

lemma sample_payload_wf: "wf_payload (d_limits (pvd_new be)) sample_payload"
  by (simp add: sample_payload_def pvd_new_def pvd_with_limits_def default_limits_def wf_sv_def wf_sav_def)

lemma pvd_new_facts [simp]:
  "d_is_be (pvd_new be) = be" "max_depth (d_limits (pvd_new be)) = 32"
  "max_string_array (d_limits (pvd_new be)) = 65536"
  by (simp_all add: pvd_new_def pvd_with_limits_def default_limits_def)

lemma sample_payload_nodes [simp]: "payload_nodes sample_payload = 0"
  by (simp add: sample_payload_def)

theorem payload_round_trip_witness:
  "fst (decode_structure (encode_nt_payload_full (0, 0) sample_payload True @ [9, 9])
      (nt_payload_desc sample_payload) (pvd_new True)) =
   Inr (nt_payload_to_decoded (0, 0) sample_payload,
     length (encode_nt_payload_full (0, 0) sample_payload True))"
  using payload_round_trip [OF _ sample_payload_wf [of True], of "(0, 0)" "[9, 9]"] by simp

section \<open>Full updates with their bitset\<close>

lemma pv_field_count:
  "pv_value_field_count fs = count_structure_fields (pv_value_desc sid fs)"
proof (induction fs arbitrary: sid rule: pv_value_field_count.induct)
  case (1 fs)
  have "(\<lambda>(_, val). 1 + (case val of PV_Structure _ nested \<Rightarrow> pv_value_field_count nested | _ \<Rightarrow> 0)) f =
      Suc (field_bits ((\<lambda>(name, val). FieldDesc name (pv_value_field_type val)) f))"
    if "f \<in> set fs" for f
  proof (cases f)
    case (Pair name val)
    show ?thesis
    proof (cases val)
      case (PV_Structure i nested)
      then show ?thesis using 1 [OF that Pair [symmetric] PV_Structure, of i]
        by (simp add: Pair field_bits_def del: pv_value_desc.simps pv_value_field_count.simps)
    next
      case (PV_Scalar sv)
      then show ?thesis
        by (simp only: Pair prod.case pv_scalar_type) (cases sv; simp add: field_bits_def)
    next
      case (PV_ScalarArray sa)
      then show ?thesis by (cases sa) (simp_all add: Pair field_bits_def)
    qed
  qed
  then have "map (\<lambda>(_, val). 1 + (case val of PV_Structure _ nested \<Rightarrow> pv_value_field_count nested | _ \<Rightarrow> 0)) fs =
      map (\<lambda>f. Suc (field_bits ((\<lambda>(name, val). FieldDesc name (pv_value_field_type val)) f))) fs"
    by (rule map_cong [OF refl])
  then show ?case
    by (simp only: pv_value_field_count.simps [of fs] pv_value_desc.simps count_structure_fields_eq
        map_map comp_def)
qed

lemma push_payload_append: "push_nt_payload_full now out p be = out @ push_nt_payload_full now [] p be"
proof (cases p)
  case (NT_ScalarArray nt)
  then show ?thesis using push_scalar_array_append [of out "na_value nt" be]
    by (simp add: push_nt_scalar_array_full_def)
next
  case (NT_NdArray nt)
  then show ?thesis
    using push_scalar_array_append [of "push_size out (ndarray_union_index (nd_value nt)) be"]
      push_scalar_array_append [of "push_size [] (ndarray_union_index (nd_value nt)) be"]
    by (simp add: push_nt_ndarray_full_def push_size_append)
qed (simp_all add: push_nt_scalar_full_def push_nt_table_full_def push_nt_enum_full_def
    push_pv_value_fields_def push_columns push_pv_values case_prod_unfold)

lemma payload_count: "nt_payload_field_count p = count_structure_fields (nt_payload_desc p)"
proof (cases p)
  case (NT_Scalar nt)
  show ?thesis
    by (cases "ns_value nt") (simp_all add: NT_Scalar nt_scalar_field_count_def nt_scalar_desc_def field_bits_def)
next
  case (NT_ScalarArray nt)
  show ?thesis
    by (cases "na_value nt") (simp_all add: NT_ScalarArray nt_scalar_array_desc_def field_bits_def)
next
  case (NT_Table nt)
  have "field_bits (FieldDesc n (scalar_array_field_type v)) = 0" for n v
    by (cases v) (simp_all add: field_bits_def)
  then have "count_structure_fields (StructureDesc None
      (map (\<lambda>c. FieldDesc (tc_name c) (scalar_array_field_type (tc_values c))) cs)) = length cs" for cs :: "nt_table_column list"
    by (induction cs) simp_all
  then show ?thesis
    by (simp add: NT_Table nt_table_desc_def empty_table_def field_bits_def)
next
  case (NT_Generic sid fs)
  then show ?thesis using pv_field_count [of fs sid] by simp
qed simp_all

lemma sample_payload_count: "nt_payload_field_count sample_payload = 3"
  by (simp add: sample_payload_def)

text \<open>C20: the bit counts of the payloads. The number of bits each payload kind claims for its
  bitset, which the source counts without building the payload's own descriptor, is the number of
  fields of that descriptor.\<close>

theorem payload_field_count:
  "nt_payload_field_count p = count_structure_fields (nt_payload_desc p)"
  by (rule payload_count)

text \<open>C19: a full update is read back. Decoding the all-ones bitset and the full encoding of a
  payload, as the server sends them for a GET or the first monitor event, gives the payload's whole
  decoded tree and consumes exactly its bytes.\<close>

theorem full_update_round_trip:
  assumes "idle st" "wf_payload (d_limits st) p"
    and "4 \<le> max_depth (d_limits st)" "7 \<le> max_string_array (d_limits st)"
    and "payload_nodes p \<le> MAX_DECODE_NODES" "nt_payload_field_count p < 2 ^ 32"
  shows "fst (decode_structure_with_bitset (encode_nt_payload_bitset now p (d_is_be st) @ rest)
      (nt_payload_desc p) st) =
    Inr (nt_payload_to_decoded now p, length (encode_nt_payload_bitset now p (d_is_be st)))"
proof -
  have "push_all_ones_bitset [] (1 + nt_payload_field_count p) (d_is_be st) =
      encode_structure_bitset (nt_payload_desc p) (d_is_be st)"
    by (simp add: encode_structure_bitset_def encode_all_ones_bitset_def payload_count)
  then have "encode_nt_payload_bitset now p (d_is_be st) =
      encode_structure_bitset (nt_payload_desc p) (d_is_be st) @ encode_nt_payload_full now p (d_is_be st)"
    using push_payload_append [of now "encode_structure_bitset (nt_payload_desc p) (d_is_be st)"]
    by (simp add: encode_nt_payload_bitset_def push_nt_payload_bitset_def encode_nt_payload_full_def)
  then show ?thesis
    using decode_full_update [OF assms(1) wire_payload [OF assms(3,4,2)] order_refl assms(5)] assms(6)
    by (simp add: payload_fields payload_count)
qed

theorem full_update_round_trip_witness:
  "fst (decode_structure_with_bitset (encode_nt_payload_bitset (0, 0) sample_payload True @ [9])
      (nt_payload_desc sample_payload) (pvd_new True)) =
   Inr (nt_payload_to_decoded (0, 0) sample_payload,
     length (encode_nt_payload_bitset (0, 0) sample_payload True))"
  using full_update_round_trip [OF _ sample_payload_wf [of True], of "(0, 0)" "[9]"]
  by (simp add: sample_payload_count)

end
