(* ===== verification/Pva_Messages.thy ===== *)
theory Pva_Messages
  imports Pva_Encode Pva_Decode Nt_Roundtrip
begin

text \<open>
  The messages of the protocol end to end: every encoder of
  \<^verbatim>\<open>spvirit-codec/src/spvirit_encode.rs\<close> against the decoder of
  \<^verbatim>\<open>spvirit-codec/src/epics_decode.rs\<close>. A message is a value of the datatype \<open>pva_msg\<close>, whose
  constructors stand for calls of the encoders; \<open>decoded\<close> says what a receiver must get.
\<close>

section \<open>Frames\<close>

text \<open>What a receiver does with the bytes of a frame.\<close>

definition receive :: "bytes \<Rightarrow> pva_packet_command option" where
  "receive raw = (case pva_packet_from_vec raw of None \<Rightarrow> None | Some packet \<Rightarrow> decode_payload packet)"

lemma length_encode_header [simp]: "length (encode_header s be c v cmd n) = 8"
  by (simp add: encode_header_def push_header_def)

lemma header_round_trip:
  "\<exists>h. pva_header_try_new (encode_header s be c v cmd n @ rest) = Some h \<and> pva_header_is_valid h \<and>
     h_version h = v \<and> h_command h = cmd \<and> h_payload_length h = n \<and>
     cf_is_control (h_flags h) = c \<and> cf_is_server (h_flags h) = s \<and> cf_is_msb (h_flags h) = be"
  by (cases s; cases be; cases c)
    (simp_all add: pva_header_try_new_def encode_header_def push_header_def Let_def
      pva_control_flags_new_def pva_header_is_valid_def)

lemma receive_frame:
  assumes "length payload < 2 ^ 32"
  shows "receive (with_header s be v cmd payload @ rest) =
    Some (case decode_command cmd payload be s of Some c \<Rightarrow> c | None \<Rightarrow> PC_Unknown cmd False (length payload))"
proof -
  obtain h where h: "pva_header_try_new (with_header s be v cmd payload @ rest) = Some h"
      "h_command h = cmd" "h_payload_length h = of_nat (length payload)"
      "cf_is_control (h_flags h) = False" "cf_is_server (h_flags h) = s" "cf_is_msb (h_flags h) = be"
    using header_round_trip [of s be False v cmd "of_nat (length payload)" "payload @ rest"]
    by (auto simp: with_header_def)
  have "unat (of_nat (length payload) :: u32) = length payload"
    using assms by (simp add: unat_of_nat)
  with h show ?thesis
    by (simp add: receive_def pva_packet_from_vec_def decode_payload_def Let_def with_header_def
        split: option.splits)
qed

text \<open>The frames that are built in place are the frames built from parts.\<close>

lemma finish_begin:
  "finish_frame (fst (begin_frame [] be v cmd) @ payload) 0 be = with_header True be v cmd payload"
  by (simp add: finish_frame_def begin_frame_def push_header_def with_header_def encode_header_def Let_def)

section \<open>Reading what was written\<close>

lemma u32_at_to_bytes [simp]: "u32_at be (pre @ to_bytes be (w :: u32) @ rest) (length pre) = w"
  by (simp add: u32_at_def)

lemma u16_at_to_bytes [simp]: "u16_at be (pre @ to_bytes be (w :: u16) @ rest) (length pre) = w"
  by (simp add: u16_at_def)

lemma read_string [simp]:
  "wf_string s \<Longrightarrow> pva_decode_string (encode_string_pva s be @ rest) be = Some (s, length (encode_string_pva s be))"
  "wf_string s \<Longrightarrow> pva_decode_string (encode_string_pva s be) be = Some (s, length (encode_string_pva s be))"
  using decode_encode_string_any_policy [of s be rest Lossy] decode_encode_string_any_policy [of s be "[]" Lossy]
  by (simp_all add: pva_decode_string_def encode_string_pva_def ok_def)

lemma read_size [simp]:
  "n < 2 ^ 32 \<Longrightarrow> pva_decode_size (encode_size_pva n be @ rest) be = Some (n, length (encode_size_pva n be))"
  by (simp add: pva_decode_size_def encode_size_pva_def ok_def decode_encode_size)

lemma string_pva_not_Nil [simp]: "encode_string_pva s be \<noteq> []"
  by (simp add: encode_string_pva_def)

lemma read_cids_encoded:
  "read_cids (length cids) (pre @ concat (map (to_bytes be) cids) @ rest) be (length pre) = cids"
proof (induction cids arbitrary: pre)
  case (Cons c cids)
  show ?case
    using Cons.IH [of "pre @ to_bytes be c"] by (simp add: u32_at_def)
qed simp

lemma read_strings_encoded:
  assumes "list_all wf_string ss"
  shows "read_strings (length ss) (pre @ concat (map (\<lambda>s. encode_string_pva s be) ss) @ rest) be (length pre) =
    Some (ss, length pre + length (concat (map (\<lambda>s. encode_string_pva s be) ss)))"
  using assms
proof (induction ss arbitrary: pre)
  case (Cons s ss)
  then show ?case
    using Cons.IH [of "pre @ encode_string_pva s be"] by (simp add: add.assoc)
qed simp

abbreviation request_bytes :: "bool \<Rightarrow> u32 \<times> string \<Rightarrow> bytes" where
  "request_bytes be \<equiv> \<lambda>(cid, pv_name). to_bytes be cid @ encode_string_pva pv_name be"

lemma read_requests_encoded:
  assumes "list_all (wf_string \<circ> snd) rs"
  shows "read_requests (length rs) (pre @ concat (map (request_bytes be) rs) @ rest) be (length pre) = Some rs"
  using assms
proof (induction rs arbitrary: pre)
  case (Cons r rs)
  obtain cid name where r: "r = (cid, name)" by force
  show ?case
    using Cons.IH [of "pre @ request_bytes be r"] Cons.prems by (simp add: r u32_at_def add.assoc)
qed simp

lemma first_method_encoded:
  assumes "list_all wf_string ss"
  shows "first_method (length ss) (pre @ concat (map (\<lambda>s. encode_string_pva s be) ss) @ rest) be (length pre) found =
    (case found of Some s \<Rightarrow> Some s | None \<Rightarrow> find (\<lambda>s. s \<noteq> []) ss)"
  using assms
proof (induction ss arbitrary: pre found)
  case (Cons s ss)
  then show ?case
    using Cons.IH [of "pre @ encode_string_pva s be"] by (simp add: add.assoc split: option.splits)
qed (simp split: option.splits)

declare read_cids.simps [simp del] read_strings.simps [simp del] read_requests.simps [simp del]
  first_method.simps [simp del]

lemma read_status_error [simp]:
  assumes "wf_string m"
  shows "decode_status (code # encode_string_pva m be @ encode_string_pva [] be) be =
    (if code = 0xFF then (None, 1)
     else (Some \<lparr>st_code = code, st_message = Some m, st_stack = Some []\<rparr>,
       1 + length (encode_string_pva m be) + length (encode_string_pva [] be)))"
  using assms by (simp add: decode_status_def Let_def)

section \<open>Messages\<close>

datatype pva_msg =
    M_Search u32 u8 u16 bytes "(u32 \<times> string) list"
  | M_SearchResponse bytes u32 bytes u16 string bool "u32 list"
  | M_Beacon bytes u8 u16 bytes u16 string
  | M_Validation u32 u16 "string list"
  | M_ClientValidation u32 u16 u16 string string string
  | M_Validated bool
  | M_Control bool u8 u32
  | M_Create u32 string
  | M_Created u32 u32
  | M_CreateError u32 string
  | M_GetField u32 u32 "string option"
  | M_Field u32 structure_desc
  | M_FieldError u32 string
  | M_Op u8 u32 u32 u8 bytes
  | M_OpInit u8 u32 u8 structure_desc
  | M_OpStatus u8 u32 u8
  | M_OpError u8 u32 u8 string
  | M_DestroyRequest u32 u32
  | M_DestroyChannel u32 u32
  | M_MessageError string

fun encode_msg :: "pva_msg \<Rightarrow> u8 \<Rightarrow> bool \<Rightarrow> bytes" where
  "encode_msg (M_Search seq flags port addr reqs) v be = encode_search_request seq flags port addr reqs v be"
| "encode_msg (M_SearchResponse guid seq addr port proto found cids) v be =
     encode_search_response guid seq addr port proto found cids v be"
| "encode_msg (M_Beacon guid seq count addr port proto) v be = encode_beacon guid seq count addr port proto v be"
| "encode_msg (M_Validation bufsz reg methods) v be = encode_connection_validation bufsz reg methods v be"
| "encode_msg (M_ClientValidation bufsz reg qos authz user host) v be =
     encode_client_connection_validation bufsz reg qos authz user host v be"
| "encode_msg (M_Validated srv) v be = encode_connection_validated srv v be"
| "encode_msg (M_Control srv cmd data) v be = encode_control_message srv be v cmd data"
| "encode_msg (M_Create cid name) v be = encode_create_channel_request cid name v be"
| "encode_msg (M_Created cid sid) v be = encode_create_channel_response cid sid v be"
| "encode_msg (M_CreateError cid m) v be = encode_create_channel_error cid m v be"
| "encode_msg (M_GetField sid ioid sub) v be = encode_get_field_request sid ioid sub v be"
| "encode_msg (M_Field rid d) v be = encode_get_field_response rid d v be"
| "encode_msg (M_FieldError rid m) v be = encode_get_field_error rid m v be"
| "encode_msg (M_Op cmd sid ioid sub extra) v be = encode_op_request cmd sid ioid sub extra v be"
| "encode_msg (M_OpInit cmd ioid sub d) v be = encode_op_init_response_desc cmd ioid sub d v be"
| "encode_msg (M_OpStatus cmd ioid sub) v be = encode_op_status_response cmd ioid sub v be"
| "encode_msg (M_OpError cmd ioid sub m) v be = encode_op_status_error_response cmd ioid sub m v be"
| "encode_msg (M_DestroyRequest sid ioid) v be = encode_destroy_request sid ioid v be"
| "encode_msg (M_DestroyChannel sid cid) v be = encode_destroy_channel_response sid cid v be"
| "encode_msg (M_MessageError m) v be = encode_message_error m v be"

definition op_commands :: "u8 set" where
  "op_commands = {10, 11, 12, 13, 14, 16, 20}"

definition wf_desc :: "structure_desc \<Rightarrow> bool" where
  "wf_desc d \<longleftrightarrow> wf_structure_desc (max_struct_fields default_limits) d \<and>
     type_height (FT_Structure d) \<le> max_depth default_limits \<and> type_nodes (FT_Structure d) \<le> MAX_DECODE_NODES"

text \<open>The arguments the encoders can be given: strings are valid, the fixed-size arrays have their
  size, counts fit their field, and an operation that carries a status is one a receiver expects it
  of.\<close>

fun wf_msg :: "pva_msg \<Rightarrow> bool" where
  "wf_msg (M_Search _ _ _ addr reqs) \<longleftrightarrow> length addr = 16 \<and> length reqs < 2 ^ 16 \<and> list_all (wf_string \<circ> snd) reqs"
| "wf_msg (M_SearchResponse guid _ addr _ proto _ cids) \<longleftrightarrow>
     length guid = 12 \<and> length addr = 16 \<and> wf_string proto \<and> length cids < 2 ^ 16"
| "wf_msg (M_Beacon guid _ _ addr _ proto) \<longleftrightarrow> length guid = 12 \<and> length addr = 16 \<and> wf_string proto"
| "wf_msg (M_Validation _ _ methods) \<longleftrightarrow> list_all wf_string methods"
| "wf_msg (M_ClientValidation _ _ _ authz user host) \<longleftrightarrow> wf_string authz \<and> wf_string user \<and> wf_string host"
| "wf_msg (M_Create _ name) \<longleftrightarrow> wf_string name"
| "wf_msg (M_CreateError _ m) \<longleftrightarrow> wf_string m"
| "wf_msg (M_GetField _ _ sub) \<longleftrightarrow> (case sub of Some s \<Rightarrow> wf_string s | None \<Rightarrow> True)"
| "wf_msg (M_Field _ d) \<longleftrightarrow> wf_desc d"
| "wf_msg (M_FieldError _ m) \<longleftrightarrow> wf_string m"
| "wf_msg (M_Op cmd _ _ _ _) \<longleftrightarrow> cmd \<in> op_commands"
| "wf_msg (M_OpInit cmd _ sub d) \<longleftrightarrow> cmd \<in> op_commands \<and> sub AND 0x08 \<noteq> 0 \<and> wf_desc d"
| "wf_msg (M_OpStatus cmd _ sub) \<longleftrightarrow> cmd \<in> op_commands \<and> has_status True sub cmd"
| "wf_msg (M_OpError cmd _ sub m) \<longleftrightarrow> cmd \<in> op_commands \<and> has_status True sub cmd \<and> wf_string m"
| "wf_msg (M_MessageError m) \<longleftrightarrow> wf_string m"
| "wf_msg _ \<longleftrightarrow> True"

definition status_of :: "u8 \<Rightarrow> string \<Rightarrow> pva_status" where
  "status_of code m = \<lparr>st_code = code, st_message = Some m, st_stack = Some []\<rparr>"

fun decoded :: "pva_msg \<Rightarrow> bool \<Rightarrow> pva_packet_command" where
  "decoded (M_Search seq flags port addr reqs) be = PC_Search \<lparr>se_seq = seq, se_mask = flags, se_addr = addr,
     se_port = port, se_protocols = [''tcp''], se_pv_requests = reqs, se_pv_names = map snd reqs\<rparr>"
| "decoded (M_SearchResponse guid seq addr port proto found cids) be = PC_SearchResponse
     \<lparr>sr_guid = guid, sr_seq = seq, sr_addr = addr, sr_port = port, sr_protocol = proto, sr_found = found,
      sr_cids = cids\<rparr>"
| "decoded (M_Beacon guid seq count addr port proto) be = PC_Beacon \<lparr>be_guid = guid, be_flags = 0,
     be_sequence_id = seq, be_change_count = count, be_server_address = addr, be_server_port = port,
     be_protocol = proto, be_server_status_if = []\<rparr>"
| "decoded (M_Validation bufsz reg methods) be = PC_ConnectionValidation \<lparr>cv_is_server = True,
     cv_buffer_size = bufsz, cv_introspection_registry_size = reg, cv_qos = 0,
     cv_authz = find (\<lambda>s. s \<noteq> []) methods, cv_user = None, cv_host = None\<rparr>"
| "decoded (M_ClientValidation bufsz reg qos authz user host) be = PC_ConnectionValidation
     \<lparr>cv_is_server = False, cv_buffer_size = bufsz, cv_introspection_registry_size = reg, cv_qos = qos,
      cv_authz = Some authz, cv_user = Some user, cv_host = Some host\<rparr>"
| "decoded (M_Validated srv) be = PC_ConnectionValidated None"
| "decoded (M_Control srv cmd data) be = PC_Control cmd data"
| "decoded (M_Create cid name) be = PC_CreateChannel \<lparr>cc_is_server = False, cc_channels = [(cid, name)],
     cc_cid = 0, cc_sid = 0, cc_status = None\<rparr>"
| "decoded (M_Created cid sid) be = PC_CreateChannel \<lparr>cc_is_server = True, cc_channels = [], cc_cid = cid,
     cc_sid = sid, cc_status = None\<rparr>"
| "decoded (M_CreateError cid m) be = PC_CreateChannel \<lparr>cc_is_server = True, cc_channels = [], cc_cid = cid,
     cc_sid = 0, cc_status = Some (status_of 1 m)\<rparr>"
| "decoded (M_GetField sid ioid sub) be = PC_GetField \<lparr>gf_is_server = False, gf_cid = sid, gf_sid = Some sid,
     gf_ioid = Some ioid, gf_field_name = Some (case sub of Some s \<Rightarrow> s | None \<Rightarrow> []), gf_status = None,
     gf_introspection = None, gf_raw = []\<rparr>"
| "decoded (M_Field rid d) be = PC_GetField \<lparr>gf_is_server = True, gf_cid = rid, gf_sid = None, gf_ioid = None,
     gf_field_name = None, gf_status = None, gf_introspection = Some d,
     gf_raw = 0x80 # encode_structure_desc d be\<rparr>"
| "decoded (M_FieldError rid m) be = PC_GetField \<lparr>gf_is_server = True, gf_cid = rid, gf_sid = None, gf_ioid = None,
     gf_field_name = None, gf_status = Some (status_of 2 m), gf_introspection = None, gf_raw = []\<rparr>"
| "decoded (M_Op cmd sid ioid sub extra) be = PC_Op \<lparr>op_sid_or_cid = sid, op_ioid = ioid, op_subcmd = sub,
     op_body = extra, op_command = cmd, op_is_server = False, op_status = None, op_introspection = None,
     op_decoded_value = None\<rparr>"
| "decoded (M_OpInit cmd ioid sub d) be = PC_Op \<lparr>op_sid_or_cid = 0, op_ioid = ioid, op_subcmd = sub,
     op_body = 0x80 # encode_structure_desc d be, op_command = cmd, op_is_server = True, op_status = None,
     op_introspection = Some d, op_decoded_value = None\<rparr>"
| "decoded (M_OpStatus cmd ioid sub) be = PC_Op \<lparr>op_sid_or_cid = 0, op_ioid = ioid, op_subcmd = sub,
     op_body = [], op_command = cmd, op_is_server = True, op_status = None,
     op_introspection = None, op_decoded_value = None\<rparr>"
| "decoded (M_OpError cmd ioid sub m) be = PC_Op \<lparr>op_sid_or_cid = 0, op_ioid = ioid, op_subcmd = sub,
     op_body = [], op_command = cmd, op_is_server = True, op_status = Some (status_of 2 m),
     op_introspection = None, op_decoded_value = None\<rparr>"
| "decoded (M_DestroyRequest sid ioid) be = PC_DestroyRequest \<lparr>dr_sid = sid, dr_request_id = ioid\<rparr>"
| "decoded (M_DestroyChannel sid cid) be = PC_DestroyChannel \<lparr>dc_sid = sid, dc_cid = cid\<rparr>"
| "decoded (M_MessageError m) be = PC_Message \<lparr>me_ioid = 0, me_message_type = 2, me_message = Some m,
     me_status = Some \<lparr>st_code = 2, st_message = Some m, st_stack = None\<rparr>,
     me_raw = to_bytes be (0 :: u32) @ [2] @ encode_string_pva m be\<rparr>"

section \<open>One lemma per message\<close>

lemma search_read:
  assumes "wf_msg (M_Search seq flags port addr reqs)"
  shows "pva_search_new (to_bytes be seq @ [flags] @ [0, 0, 0] @ addr @ to_bytes be port
      @ encode_size_pva 1 be @ encode_string_pva ''tcp'' be @ to_bytes be (of_nat (length reqs) :: u16)
      @ concat (map (request_bytes be) reqs)) be =
    Some \<lparr>se_seq = seq, se_mask = flags, se_addr = addr, se_port = port, se_protocols = [''tcp''],
      se_pv_requests = reqs, se_pv_names = map snd reqs\<rparr>"
proof -
  define H where "H = to_bytes be seq @ [flags] @ [0, 0, 0] @ addr @ to_bytes be port"
  define count where "count = to_bytes be (of_nat (length reqs) :: u16)"
  define raw where "raw = H @ encode_size_pva 1 be @ encode_string_pva ''tcp'' be @ count
    @ concat (map (request_bytes be) reqs)"
  have len: "length H = 26" "length count = 2" using assms by (simp_all add: H_def count_def)
  have head: "u32_at be (H @ X) 0 = seq" "(H @ X) ! 4 = flags" "take 16 (drop 8 (H @ X)) = addr"
    "u16_at be (H @ X) 24 = port" for X
    using assms by (simp_all add: H_def u32_at_def u16_at_def nth_append)
  have tcp: "wf_string ''tcp''" by (simp add: wf_string_def as_bytes_def)
  have "read_strings 1 raw be (26 + length (encode_size_pva 1 be)) =
      Some ([''tcp''], 26 + length (encode_size_pva 1 be) + length (encode_string_pva ''tcp'' be))"
    using read_strings_encoded [of "[''tcp'']" "H @ encode_size_pva 1 be" be "count @ concat (map (request_bytes be) reqs)"]
      tcp len by (simp add: raw_def)
  moreover have "read_requests (length reqs) raw be
      (26 + length (encode_size_pva 1 be) + length (encode_string_pva ''tcp'' be) + 2) = Some reqs"
    using read_requests_encoded [of reqs "H @ encode_size_pva 1 be @ encode_string_pva ''tcp'' be @ count" be "[]"]
      assms len by (simp add: raw_def add.assoc)
  moreover have "unat (u16_at be raw (26 + length (encode_size_pva 1 be) + length (encode_string_pva ''tcp'' be))) =
      length reqs"
    using u16_at_to_bytes [of be "H @ encode_size_pva 1 be @ encode_string_pva ''tcp'' be"
        "of_nat (length reqs)" "concat (map (request_bytes be) reqs)"] assms len
    by (simp add: raw_def count_def unat_of_nat add.assoc)
  moreover have "pva_decode_size (drop 26 raw) be = Some (1, length (encode_size_pva 1 be))"
    using len by (simp add: raw_def)
  moreover have "26 \<le> length raw" "raw \<noteq> []"
      "26 + length (encode_size_pva 1 be) + length (encode_string_pva ''tcp'' be) + 2 \<le> length raw"
    using len by (auto simp: raw_def)
  ultimately have "pva_search_new raw be = Some \<lparr>se_seq = u32_at be raw 0, se_mask = raw ! 4,
      se_addr = take 16 (drop 8 raw), se_port = u16_at be raw 24, se_protocols = [''tcp''],
      se_pv_requests = reqs, se_pv_names = map snd reqs\<rparr>"
    by (simp add: pva_search_new_def)
  then show ?thesis
    unfolding raw_def head by (simp add: H_def count_def)
qed

lemma search_response_read:
  assumes "wf_msg (M_SearchResponse guid seq addr port proto found cids)"
  shows "pva_search_response_new (guid @ to_bytes be seq @ addr @ to_bytes be port @ encode_string_pva proto be
      @ [if found then 1 else 0] @ to_bytes be (of_nat (length cids) :: u16) @ concat (map (to_bytes be) cids)) be =
    Some \<lparr>sr_guid = guid, sr_seq = seq, sr_addr = addr, sr_port = port, sr_protocol = proto, sr_found = found,
      sr_cids = cids\<rparr>"
proof -
  define H where "H = guid @ to_bytes be seq @ addr @ to_bytes be port"
  define P where "P = encode_string_pva proto be"
  define T where "T = to_bytes be (of_nat (length cids) :: u16) @ concat (map (to_bytes be) cids)"
  define raw where "raw = H @ P @ [if found then 1 else 0] @ T"
  have len: "length H = 34" using assms by (simp add: H_def)
  have head: "take 12 (H @ X) = guid" "u32_at be (H @ X) 12 = seq" "take 16 (drop 16 (H @ X)) = addr"
    "u16_at be (H @ X) 32 = port" for X
    using assms by (simp_all add: H_def u32_at_def u16_at_def)
  have "pva_decode_string (drop 34 raw) be = Some (proto, length P)"
    using len assms by (simp add: raw_def P_def)
  moreover have "raw ! (34 + length P) = (if found then 1 else 0)"
    using len by (simp add: raw_def nth_append)
  moreover have "34 + length P + 1 + 2 \<le> length raw"
    using len by (simp add: raw_def T_def)
  moreover have "unat (u16_at be raw (34 + length P + 1)) = length cids"
    using u16_at_to_bytes [of be "H @ P @ [if found then 1 else 0]" "of_nat (length cids)"] assms len
    by (simp add: raw_def T_def unat_of_nat)
  moreover have "read_cids (length cids) raw be (34 + length P + 1 + 2) = cids"
    using read_cids_encoded [of cids "H @ P @ [if found then 1 else 0] @ to_bytes be (of_nat (length cids) :: u16)" be "[]"]
      len by (simp add: raw_def T_def)
  ultimately have "pva_search_response_new raw be = Some \<lparr>sr_guid = take 12 raw, sr_seq = u32_at be raw 12,
      sr_addr = take 16 (drop 16 raw), sr_port = u16_at be raw 32, sr_protocol = proto, sr_found = found,
      sr_cids = cids\<rparr>"
    by (simp add: pva_search_response_new_def Let_def)
  then show ?thesis
    unfolding raw_def head by (simp add: H_def T_def P_def)
qed

lemma null_string: "pva_decode_string [0xFF] be = Some ([], 1)"
  by (simp add: pva_decode_string_def decode_string_prefixed_def decode_size_prefixed_def ok_def)

lemma beacon_read:
  assumes "wf_msg (M_Beacon guid seq count addr port proto)"
  shows "pva_beacon_new (guid @ [0x00] @ [seq] @ to_bytes be count @ addr @ to_bytes be port
      @ encode_string_pva proto be @ [0xFF]) be =
    Some \<lparr>be_guid = guid, be_flags = 0, be_sequence_id = seq, be_change_count = count,
      be_server_address = addr, be_server_port = port, be_protocol = proto, be_server_status_if = []\<rparr>"
proof -
  define H where "H = guid @ [0x00] @ [seq] @ to_bytes be count @ addr @ to_bytes be port"
  define raw where "raw = H @ encode_string_pva proto be @ [0xFF]"
  have len: "length H = 34" using assms by (simp add: H_def)
  have head: "take 12 (H @ X) = guid" "(H @ X) ! 12 = 0" "(H @ X) ! 13 = seq" "u16_at be (H @ X) 14 = count"
    "take 16 (drop 16 (H @ X)) = addr" "u16_at be (H @ X) 32 = port" for X
    using assms by (simp_all add: H_def u32_at_def u16_at_def nth_append)
  have "pva_decode_string (drop 34 raw) be = Some (proto, length (encode_string_pva proto be))"
    using len assms by (simp add: raw_def)
  moreover have "drop (34 + length (encode_string_pva proto be)) raw = [0xFF]"
    using len by (simp add: raw_def)
  ultimately have "pva_beacon_new raw be = Some \<lparr>be_guid = take 12 raw, be_flags = raw ! 12,
      be_sequence_id = raw ! 13, be_change_count = u16_at be raw 14, be_server_address = take 16 (drop 16 raw),
      be_server_port = u16_at be raw 32, be_protocol = proto, be_server_status_if = []\<rparr>"
    using len by (simp add: pva_beacon_new_def null_string raw_def)
  then show ?thesis
    unfolding raw_def head by (simp add: H_def)
qed

lemma validation_read:
  assumes "list_all wf_string methods" "length methods < 2 ^ 32"
  shows "pva_connection_validation_new (to_bytes be bufsz @ to_bytes be reg
      @ encode_size_pva (length methods) be @ concat (map (\<lambda>m. encode_string_pva m be) methods)) be True =
    Some \<lparr>cv_is_server = True, cv_buffer_size = bufsz, cv_introspection_registry_size = reg, cv_qos = 0,
      cv_authz = find (\<lambda>s. s \<noteq> []) methods, cv_user = None, cv_host = None\<rparr>"
proof -
  define H where "H = to_bytes be bufsz @ to_bytes be reg"
  define M where "M = concat (map (\<lambda>m. encode_string_pva m be) methods)"
  define raw where "raw = H @ encode_size_pva (length methods) be @ M"
  have len: "length H = 6" by (simp add: H_def)
  have head: "u32_at be (H @ X) 0 = bufsz" "u16_at be (H @ X) 4 = reg" for X
    by (simp_all add: H_def u32_at_def u16_at_def)
  have "first_method (length methods) raw be (6 + length (encode_size_pva (length methods) be)) None =
      find (\<lambda>s. s \<noteq> []) methods"
    using first_method_encoded [OF assms(1), of "H @ encode_size_pva (length methods) be" be "[]" None] len
    by (simp add: raw_def M_def)
  moreover have "pva_decode_size (drop 6 raw) be = Some (length methods, length (encode_size_pva (length methods) be))"
    using assms(2) len by (simp add: raw_def)
  moreover have "6 < length raw" using len by (simp add: raw_def encode_size_pva_def)
  ultimately have "pva_connection_validation_new raw be True = Some \<lparr>cv_is_server = True,
      cv_buffer_size = u32_at be raw 0, cv_introspection_registry_size = u16_at be raw 4, cv_qos = 0,
      cv_authz = find (\<lambda>s. s \<noteq> []) methods, cv_user = None, cv_host = None\<rparr>"
    by (simp add: pva_connection_validation_new_def Let_def)
  then show ?thesis
    unfolding raw_def head by (simp add: H_def M_def)
qed

text \<open>The credentials of a client: a structure of two strings, sent with the full-ID tag.\<close>

definition cred_desc :: structure_desc where
  "cred_desc = StructureDesc None [FieldDesc ''user'' FT_String, FieldDesc ''host'' FT_String]"

lemma authnz_bytes:
  "\<exists>a b. encode_authnz_user_host user host be =
     0xFD # a # b # encode_type_desc (FT_Structure cred_desc) be @ encode_string_pva user be @ encode_string_pva host be"
proof -
  obtain a b where "to_bytes be (1 :: u16) = [a, b]" using key_bytes by blast
  then show ?thesis
    by (simp add: encode_authnz_user_host_def cred_desc_def encode_string_def push_string_def
        push_size_def encode_size_def as_bytes_def)
qed

lemma credentials_read:
  assumes "wf_string user" "wf_string host"
  shows "decode_ca_credentials (encode_authnz_user_host user host be) be = (Some user, Some host)"
proof -
  obtain a b where bs: "encode_authnz_user_host user host be = 0xFD # a # b #
      encode_type_desc (FT_Structure cred_desc) be @ encode_string_pva user be @ encode_string_pva host be"
    using authnz_bytes by blast
  let ?enc = "encode_type_desc (FT_Structure cred_desc) be"
  let ?vals = "encode_string_pva user be @ encode_string_pva host be"
  have new: "idle (pvd_new be)" "d_is_be (pvd_new be) = be" "d_limits (pvd_new be) = default_limits"
    by (simp_all add: pvd_new_def pvd_with_limits_def idle_def reg_ok_def default_limits_def usize_max_def)
  have "fst (parse_introspection_with_len (0xFD # a # b # ?enc @ ?vals) (pvd_new be)) = Inr (cred_desc, 3 + length ?enc)"
    by (rule introspection_encode_full_id [OF new(1,2)])
      (simp_all add: new cred_desc_def default_limits_def wf_string_def as_bytes_def MAX_DECODE_NODES_def)
  then obtain st where st: "parse_introspection_with_len (0xFD # a # b # ?enc @ ?vals) (pvd_new be) =
      (Inr (cred_desc, 3 + length ?enc), st)"
    by (cases "parse_introspection_with_len (0xFD # a # b # ?enc @ ?vals) (pvd_new be)") simp
  have frame: "frame (pvd_new be) st" by (rule keeps_frameD [OF ip.intro_frame st])
  then have idle: "idle st" "d_is_be st = be" "d_limits st = default_limits"
    using idle_frame [OF new(1) frame] new by (simp_all add: frame_def)
  have "wire_fields be default_limits 2 0 (sd_fields cred_desc)
      [(''user'', DV_String user), (''host'', DV_String host)] ?vals"
    unfolding cred_desc_def structure_desc.sel encode_string_pva_def using assms
    by (intro record_intros) simp_all
  then have "fst (decode_structure ?vals cred_desc st) =
      Inr (DV_Structure [(''user'', DV_String user), (''host'', DV_String host)], length ?vals)"
    using decode_structure_wire [of st 2 0 cred_desc _ ?vals "[]"] idle
    by (simp add: default_limits_def MAX_DECODE_NODES_def)
  moreover have "drop (3 + length ?enc) (0xFD # a # b # ?enc @ ?vals) = ?vals" by (simp add: eval_nat_numeral)
  ultimately show ?thesis
    unfolding bs decode_ca_credentials_def st by (simp add: decoded_string_field_def)
qed

lemma client_validation_read:
  assumes "wf_string authz" "wf_string user" "wf_string host"
  shows "pva_connection_validation_new (to_bytes be bufsz @ to_bytes be reg @ to_bytes be qos
      @ encode_string_pva authz be @ encode_authnz_user_host user host be) be False =
    Some \<lparr>cv_is_server = False, cv_buffer_size = bufsz, cv_introspection_registry_size = reg, cv_qos = qos,
      cv_authz = Some authz, cv_user = Some user, cv_host = Some host\<rparr>"
proof -
  define H where "H = to_bytes be bufsz @ to_bytes be reg @ to_bytes be qos"
  define A where "A = encode_authnz_user_host user host be"
  define raw where "raw = H @ encode_string_pva authz be @ A"
  have len: "length H = 8" by (simp add: H_def)
  have head: "u32_at be (H @ X) 0 = bufsz" "u16_at be (H @ X) 4 = reg" "u16_at be (H @ X) 6 = qos" for X
    by (simp_all add: H_def u32_at_def u16_at_def)
  have A: "A \<noteq> []" "decode_ca_credentials A be = (Some user, Some host)"
    using credentials_read [OF assms(2,3)] by (simp_all add: A_def encode_authnz_user_host_def)
  have "pva_connection_validation_new raw be False = Some \<lparr>cv_is_server = False,
      cv_buffer_size = u32_at be raw 0, cv_introspection_registry_size = u16_at be raw 4,
      cv_qos = u16_at be raw 6, cv_authz = Some authz, cv_user = Some user, cv_host = Some host\<rparr>"
    using len A assms by (simp add: pva_connection_validation_new_def Let_def raw_def)
  then show ?thesis
    unfolding raw_def head by (simp add: H_def A_def)
qed

lemma new_idle: "idle (pvd_new be)" "d_is_be (pvd_new be) = be" "d_limits (pvd_new be) = default_limits"
  by (simp_all add: pvd_new_def pvd_with_limits_def idle_def reg_ok_def default_limits_def usize_max_def)

lemma desc_read:
  assumes "wf_desc d"
  shows "ok (fst (parse_introspection (0x80 # encode_structure_desc d be @ rest) (pvd_new be))) = Some d"
proof -
  let ?run = "parse_introspection_with_len (0x80 # encode_structure_desc d be @ rest) (pvd_new be)"
  have "fst ?run = Inr (d, 1 + length (encode_structure_desc d be))"
    using introspection_encode [OF new_idle(1,2) _ _ _ refl, where d = d and rest = rest] assms
    by (simp add: wf_desc_def new_idle del: type_nodes_node type_height_node)
  then show ?thesis
    by (cases ?run) (simp add: parse_introspection_def bind_dec_def ret_def ok_def)
qed

lemma create_read:
  assumes "wf_string name"
  shows "pva_create_channel_new (to_bytes be (1 :: u16) @ to_bytes be cid @ encode_string_pva name be) be False =
    Some \<lparr>cc_is_server = False, cc_channels = [(cid, name)], cc_cid = 0, cc_sid = 0, cc_status = None\<rparr>"
  using assms by (simp add: pva_create_channel_new_def u16_at_def u32_at_def)

lemma created_read:
  "pva_create_channel_new (to_bytes be cid @ to_bytes be sid @ encode_status_ok) be True =
    Some \<lparr>cc_is_server = True, cc_channels = [], cc_cid = cid, cc_sid = sid, cc_status = None\<rparr>"
  by (simp add: pva_create_channel_new_def u32_at_def create_status_def encode_status_ok_def nth_append)

lemma create_error_read:
  assumes "wf_string m"
  shows "pva_create_channel_new (to_bytes be cid @ to_bytes be (0 :: u32) @ [0x01] @ encode_string_pva m be
      @ encode_string_pva [] be) be True =
    Some \<lparr>cc_is_server = True, cc_channels = [], cc_cid = cid, cc_sid = 0, cc_status = Some (status_of 1 m)\<rparr>"
proof -
  define H where "H = to_bytes be cid @ to_bytes be (0 :: u32)"
  have len: "length H = 8" by (simp add: H_def)
  have head: "u32_at be (H @ X) 0 = cid" "u32_at be (H @ X) 4 = 0" for X
    by (simp_all add: H_def u32_at_def)
  have "create_status (H @ [0x01] @ encode_string_pva m be @ encode_string_pva [] be) be = Some (status_of 1 m)"
    using len assms by (simp add: create_status_def nth_append status_of_def)
  then have "pva_create_channel_new (H @ [0x01] @ encode_string_pva m be @ encode_string_pva [] be) be True =
    Some \<lparr>cc_is_server = True, cc_channels = [], cc_cid = cid, cc_sid = 0, cc_status = Some (status_of 1 m)\<rparr>"
    using len by (simp add: pva_create_channel_new_def head)
  then show ?thesis by (simp add: H_def)
qed

lemma get_field_read:
  assumes "wf_string f"
  shows "pva_get_field_new (to_bytes be sid @ to_bytes be ioid @ encode_string_pva f be) be False =
    Some \<lparr>gf_is_server = False, gf_cid = sid, gf_sid = Some sid, gf_ioid = Some ioid, gf_field_name = Some f,
      gf_status = None, gf_introspection = None, gf_raw = []\<rparr>"
proof -
  have pos: "0 < length (encode_string_pva f be)" by simp
  have "last_string (to_bytes be sid @ to_bytes be ioid @ encode_string_pva f be) be 8 = Some f"
    using assms by (simp add: last_string_def)
  then show ?thesis
    using pos by (simp add: pva_get_field_new_def u32_at_def Let_def Suc_le_eq del: string_pva_not_Nil)
qed

lemma field_read:
  assumes "wf_desc d"
  shows "pva_get_field_new (to_bytes be rid @ encode_status_ok @ [0x80] @ encode_structure_desc d be) be True =
    Some \<lparr>gf_is_server = True, gf_cid = rid, gf_sid = None, gf_ioid = None, gf_field_name = None,
      gf_status = None, gf_introspection = Some d, gf_raw = 0x80 # encode_structure_desc d be\<rparr>"
  using desc_read [OF assms, of be "[]"]
  by (simp add: pva_get_field_new_def u32_at_def parse_status_then_intro_def decode_status_def
      encode_status_ok_def Let_def)

lemma field_error_read:
  assumes "wf_string m"
  shows "pva_get_field_new (to_bytes be rid @ encode_status_error m be) be True =
    Some \<lparr>gf_is_server = True, gf_cid = rid, gf_sid = None, gf_ioid = None, gf_field_name = None,
      gf_status = Some (status_of 2 m), gf_introspection = None, gf_raw = []\<rparr>"
  using assms by (simp add: pva_get_field_new_def u32_at_def parse_status_then_intro_def
      encode_status_error_def status_of_def)

lemma op_request_read:
  "pva_op_new (to_bytes be sid @ to_bytes be ioid @ [sub] @ extra) be False cmd =
    Some \<lparr>op_sid_or_cid = sid, op_ioid = ioid, op_subcmd = sub, op_body = extra, op_command = cmd,
      op_is_server = False, op_status = None, op_introspection = None, op_decoded_value = None\<rparr>"
  by (simp add: pva_op_new_def u32_at_def nth_append has_status_def Let_def)

text \<open>A response of the server, by what the status block leaves.\<close>

lemma op_response_read:
  assumes "has_status True sub cmd" "decode_status body be = (status, n)" "body \<noteq> []"
  shows "pva_op_new (to_bytes be ioid @ [sub] @ body) be True cmd =
    Some \<lparr>op_sid_or_cid = 0, op_ioid = ioid, op_subcmd = sub, op_body = drop n body, op_command = cmd,
      op_is_server = True, op_status = status,
      op_introspection = (if sub AND 0x08 \<noteq> 0 \<and> drop n body \<noteq> []
        then ok (fst (parse_introspection (drop n body) (pvd_new be))) else None),
      op_decoded_value = None\<rparr>"
  using assms by (cases "length body > n") (auto simp: pva_op_new_def u32_at_def nth_append Let_def)

lemma status_ok_read: "decode_status (encode_status_ok @ rest) be = (None, 1)"
  by (simp add: decode_status_def encode_status_ok_def)

lemma op_status_read:
  assumes "has_status True sub cmd"
  shows "pva_op_new (to_bytes be ioid @ [sub] @ encode_status_ok) be True cmd =
    Some \<lparr>op_sid_or_cid = 0, op_ioid = ioid, op_subcmd = sub, op_body = [], op_command = cmd,
      op_is_server = True, op_status = None, op_introspection = None, op_decoded_value = None\<rparr>"
  using op_response_read [OF assms status_ok_read [of "[]"], of be ioid] by (simp add: encode_status_ok_def)

lemma op_error_read:
  assumes "has_status True sub cmd" "wf_string m"
  shows "pva_op_new (to_bytes be ioid @ [sub] @ encode_status_error m be) be True cmd =
    Some \<lparr>op_sid_or_cid = 0, op_ioid = ioid, op_subcmd = sub, op_body = [], op_command = cmd,
      op_is_server = True, op_status = Some (status_of 2 m), op_introspection = None, op_decoded_value = None\<rparr>"
  using op_response_read [OF assms(1), of "encode_status_error m be" be] assms(2)
  by (simp add: encode_status_error_def status_of_def)

lemma op_init_read:
  assumes "sub AND 0x08 \<noteq> 0" "wf_desc d"
  shows "pva_op_new (to_bytes be ioid @ [sub] @ encode_status_ok @ [0x80] @ encode_structure_desc d be) be True cmd =
    Some \<lparr>op_sid_or_cid = 0, op_ioid = ioid, op_subcmd = sub, op_body = 0x80 # encode_structure_desc d be,
      op_command = cmd, op_is_server = True, op_status = None, op_introspection = Some d,
      op_decoded_value = None\<rparr>"
  using op_response_read [OF _ status_ok_read, of sub cmd "[0x80] @ encode_structure_desc d be" be ioid] assms(1)
    desc_read [OF assms(2), of be "[]"]
  by (simp add: has_status_def encode_status_ok_def)

lemma message_read:
  assumes "wf_string m"
  shows "pva_message_new (to_bytes be (0 :: u32) @ [2] @ encode_string_pva m be) be =
    Some \<lparr>me_ioid = 0, me_message_type = 2, me_message = Some m,
      me_status = Some \<lparr>st_code = 2, st_message = Some m, st_stack = None\<rparr>,
      me_raw = to_bytes be (0 :: u32) @ [2] @ encode_string_pva m be\<rparr>"
  using assms by (simp add: pva_message_new_def u32_at_def nth_append Let_def)

section \<open>All messages\<close>

lemma receive_read:
  assumes "decode_command cmd payload be s = Some c" "length (with_header s be v cmd payload) < 2 ^ 32"
  shows "receive (with_header s be v cmd payload @ rest) = Some c"
proof -
  have "length payload < 2 ^ 32" using assms(2) by (simp add: with_header_def)
  then show ?thesis using receive_frame assms(1) by simp
qed

lemma control_read: "receive (encode_control_message s be v cmd data @ rest) = Some (PC_Control cmd data)"
proof -
  obtain h where "pva_header_try_new (encode_header s be True v cmd data @ rest) = Some h"
      "h_command h = cmd" "h_payload_length h = data" "cf_is_control (h_flags h)"
    using header_round_trip [of s be True v cmd data rest] by auto
  then show ?thesis
    by (simp add: receive_def pva_packet_from_vec_def decode_payload_def Let_def encode_control_message_def)
qed

lemma methods_bound:
  "length methods \<le> length (concat (map (\<lambda>m. encode_string_pva m be) methods))"
  by (rule length_concat_ge) simp

lemma dispatch:
  "decode_command 0 payload be s = map_option PC_Beacon (pva_beacon_new payload be)"
  "decode_command 1 payload be s = map_option PC_ConnectionValidation (pva_connection_validation_new payload be s)"
  "decode_command 3 payload be s = map_option PC_Search (pva_search_new payload be)"
  "decode_command 4 payload be s = map_option PC_SearchResponse (pva_search_response_new payload be)"
  "decode_command 7 payload be s = map_option PC_CreateChannel (pva_create_channel_new payload be s)"
  "decode_command 8 payload be s = map_option PC_DestroyChannel (pva_destroy_channel_new payload be)"
  "decode_command 9 payload be s = map_option PC_ConnectionValidated (pva_connection_validated_new payload be)"
  "decode_command 15 payload be s = map_option PC_DestroyRequest (pva_destroy_request_new payload be)"
  "decode_command 17 payload be s = map_option PC_GetField (pva_get_field_new payload be s)"
  "decode_command 18 payload be s = map_option PC_Message (pva_message_new payload be)"
  by (simp_all add: decode_command_def)

lemma op_command_dispatch:
  "cmd \<in> op_commands \<Longrightarrow> decode_command cmd payload be s = map_option PC_Op (pva_op_new payload be s cmd)"
  by (auto simp: decode_command_def op_commands_def)

lemma ids_read:
  "pva_destroy_request_new (to_bytes be sid @ to_bytes be ioid) be = Some \<lparr>dr_sid = sid, dr_request_id = ioid\<rparr>"
  "pva_destroy_channel_new (to_bytes be sid @ to_bytes be cid) be = Some \<lparr>dc_sid = sid, dc_cid = cid\<rparr>"
  by (simp_all add: pva_destroy_request_new_def pva_destroy_channel_new_def u32_at_def)

lemma validated_read: "pva_connection_validated_new encode_status_ok be = Some None"
  by (simp add: pva_connection_validated_new_def decode_status_def encode_status_ok_def)

lemmas message_reads = create_read created_read create_error_read get_field_read field_read field_error_read
  op_request_read op_status_read op_error_read op_init_read message_read search_read search_response_read
  beacon_read client_validation_read ids_read validated_read dispatch op_command_dispatch option.map

lemmas message_encoders = encode_search_request_def encode_search_response_def
  encode_beacon_def encode_client_connection_validation_def encode_connection_validated_def
  encode_create_channel_request_def encode_create_channel_response_def encode_create_channel_error_def
  encode_get_field_request_def encode_get_field_response_def encode_get_field_error_def encode_op_request_def
  encode_op_init_response_desc_def encode_op_status_response_def encode_op_status_error_response_def
  encode_destroy_request_def encode_destroy_channel_response_def encode_message_error_def
  encode_connection_validation_def Let_def encode_msg.simps



end
