(* ===== verification/Payload_Walk.thy ===== *)
theory Payload_Walk
  imports Payload_View Nt_Roundtrip
begin

text \<open>
  The direct walk over payloads is the walk over their decoded trees: views compare, encode,
  project and differ exactly as the trees they stand for.
\<close>

section \<open>Kinds\<close>

fun dv_kind :: "decoded_value \<Rightarrow> kind option" where
  "dv_kind DV_Null = Some K_Null"
| "dv_kind (DV_Boolean _) = Some K_Boolean"
| "dv_kind (DV_Int8 _) = Some K_Int8"
| "dv_kind (DV_Int16 _) = Some K_Int16"
| "dv_kind (DV_Int32 _) = Some K_Int32"
| "dv_kind (DV_Int64 _) = Some K_Int64"
| "dv_kind (DV_UInt8 _) = Some K_UInt8"
| "dv_kind (DV_UInt16 _) = Some K_UInt16"
| "dv_kind (DV_UInt32 _) = Some K_UInt32"
| "dv_kind (DV_UInt64 _) = Some K_UInt64"
| "dv_kind (DV_Float32 _) = Some K_Float32"
| "dv_kind (DV_Float64 _) = Some K_Float64"
| "dv_kind (DV_String _) = Some K_String"
| "dv_kind (DV_Array _) = Some K_Array"
| "dv_kind (DV_Structure _) = Some K_Structure"
| "dv_kind (DV_Raw _) = None"

lemma decoded_values_equal_simps [simp]:
  "decoded_values_equal DV_Null DV_Null"
  "decoded_values_equal (DV_Boolean b1) (DV_Boolean b2) = (b1 = b2)"
  "decoded_values_equal (DV_Int8 v1) (DV_Int8 v2) = (v1 = v2)"
  "decoded_values_equal (DV_Int16 w1) (DV_Int16 w2) = (w1 = w2)"
  "decoded_values_equal (DV_Int32 x1) (DV_Int32 x2) = (x1 = x2)"
  "decoded_values_equal (DV_Int64 y1) (DV_Int64 y2) = (y1 = y2)"
  "decoded_values_equal (DV_UInt8 v1) (DV_UInt8 v2) = (v1 = v2)"
  "decoded_values_equal (DV_UInt16 w1) (DV_UInt16 w2) = (w1 = w2)"
  "decoded_values_equal (DV_UInt32 x1) (DV_UInt32 x2) = (x1 = x2)"
  "decoded_values_equal (DV_UInt64 y1) (DV_UInt64 y2) = (y1 = y2)"
  "decoded_values_equal (DV_Float32 x1) (DV_Float32 x2) = f32_same x1 x2"
  "decoded_values_equal (DV_Float64 y1) (DV_Float64 y2) = f64_same y1 y2"
  "decoded_values_equal (DV_String s1) (DV_String s2) = (s1 = s2)"
  "decoded_values_equal (DV_Array a1) (DV_Array a2) = list_all2 decoded_values_equal a1 a2"
  "decoded_values_equal (DV_Structure f1) (DV_Structure f2) =
     list_all2 (\<lambda>(n, v) (m, w). n = m \<and> decoded_values_equal v w) f1 f2"
  by (auto simp: decoded_values_equal.simps [of DV_Null] decoded_values_equal.simps [of "DV_Boolean _"]
      decoded_values_equal.simps [of "DV_Int8 _"] decoded_values_equal.simps [of "DV_Int16 _"]
      decoded_values_equal.simps [of "DV_Int32 _"] decoded_values_equal.simps [of "DV_Int64 _"]
      decoded_values_equal.simps [of "DV_UInt8 _"] decoded_values_equal.simps [of "DV_UInt16 _"]
      decoded_values_equal.simps [of "DV_UInt32 _"] decoded_values_equal.simps [of "DV_UInt64 _"]
      decoded_values_equal.simps [of "DV_Float32 _"] decoded_values_equal.simps [of "DV_Float64 _"]
      decoded_values_equal.simps [of "DV_String _"] decoded_values_equal.simps [of "DV_Array _"]
      decoded_values_equal.simps [of "DV_Structure _"] list_all2_iff list_all_iff case_prod_beta)

lemma decoded_equal_kind: "decoded_values_equal a b \<Longrightarrow> dv_kind a = dv_kind b"
  by (cases a; cases b) (simp_all add: decoded_values_equal.simps)

lemma to_decoded_simps [simp]:
  "to_decoded (V_Bool b) = DV_Boolean b"
  "to_decoded (V_I8 v) = DV_Int8 v" "to_decoded (V_I16 w) = DV_Int16 w"
  "to_decoded (V_I32 x) = DV_Int32 x" "to_decoded (V_I64 y) = DV_Int64 y"
  "to_decoded (V_U8 v) = DV_UInt8 v" "to_decoded (V_U16 w) = DV_UInt16 w"
  "to_decoded (V_U32 x) = DV_UInt32 x" "to_decoded (V_U64 y) = DV_UInt64 y"
  "to_decoded (V_F32 x) = DV_Float32 x" "to_decoded (V_F64 y) = DV_Float64 y"
  "to_decoded (V_Str s) = DV_String s"
  "to_decoded (V_Array a) = dv_scalar_array a"
  "to_decoded (V_Strings ss) = dv_string_array ss"
  "to_decoded V_StandardChoices = dv_form_choices []"
  "to_decoded (V_Dimensions ds) = dv_dimensions ds"
  "to_decoded (V_Attributes as) = dv_attributes as"
  "to_decoded (V_CodecParameters ps) = dv_codec_parameters ps"
  "to_decoded (V_Struct n) =
     DV_Structure (map (\<lambda>i. (node_name n i, to_decoded (node_field n i))) [0..<node_len n])"
  by (simp_all add: to_decoded.simps [of "V_Bool _"] to_decoded.simps [of "V_I8 _"]
      to_decoded.simps [of "V_I16 _"] to_decoded.simps [of "V_I32 _"] to_decoded.simps [of "V_I64 _"]
      to_decoded.simps [of "V_U8 _"] to_decoded.simps [of "V_U16 _"] to_decoded.simps [of "V_U32 _"]
      to_decoded.simps [of "V_U64 _"] to_decoded.simps [of "V_F32 _"] to_decoded.simps [of "V_F64 _"]
      to_decoded.simps [of "V_Str _"] to_decoded.simps [of "V_Array _"] to_decoded.simps [of "V_Strings _"]
      to_decoded.simps [of V_StandardChoices] to_decoded.simps [of "V_Dimensions _"]
      to_decoded.simps [of "V_Attributes _"] to_decoded.simps [of "V_CodecParameters _"]
      to_decoded.simps [of "V_Struct _"])

text \<open>The elements of an array view, with their kind and number.\<close>

lemma array_elements:
  assumes "view_kind v = K_Array"
  shows "\<exists>es. to_decoded v = DV_Array es \<and> length es = array_len v \<and>
    list_all (\<lambda>e. dv_kind e = Some (element_kind v)) es"
  using assms
proof (cases v)
  case (V_Array a)
  then show ?thesis by (cases a) (simp_all add: array_len_def element_kind_def list_all_iff)
qed (simp_all add: array_len_def element_kind_def list_all_iff dv_string_array_def dv_form_choices_def
    dv_dimensions_def dv_attributes_def split: if_splits)

lemma kind_to_decoded: "dv_kind (to_decoded v) = Some (view_kind v)"
proof (cases v)
  case (V_Array a)
  then show ?thesis by (cases a) simp_all
qed (simp_all add: dv_string_array_def dv_form_choices_def dv_dimensions_def dv_attributes_def
    dv_codec_parameters_def)

section \<open>Comparison\<close>

lemma views_fallback_correct:
  "views_fallback a b \<longleftrightarrow> decoded_values_equal (to_decoded a) (to_decoded b)"
proof (cases "view_kind a = view_kind b")
  case False
  then show ?thesis using decoded_equal_kind [of "to_decoded a" "to_decoded b"]
    by (auto simp: views_fallback_def kind_to_decoded)
next
  case kind: True
  show ?thesis
  proof (cases "view_kind a = K_Array")
    case True
    from array_elements [OF True] obtain es where es: "to_decoded a = DV_Array es"
        "length es = array_len a" "list_all (\<lambda>e. dv_kind e = Some (element_kind a)) es" by blast
    from array_elements [of b] True kind obtain fs where fs: "to_decoded b = DV_Array fs"
        "length fs = array_len b" "list_all (\<lambda>e. dv_kind e = Some (element_kind b)) fs" by auto
    have eq: "decoded_values_equal (to_decoded a) (to_decoded b) = list_all2 decoded_values_equal es fs"
      by (simp add: es(1) fs(1))
    have len: "array_len a = array_len b" if "list_all2 decoded_values_equal es fs"
      using list_all2_lengthD [OF that] es(2) fs(2) by simp
    have elem: "element_kind a = element_kind b" if "list_all2 decoded_values_equal es fs" "array_len a \<noteq> 0"
    proof -
      have "0 < length es" "0 < length fs" using that len es(2) fs(2) by simp_all
      then have "dv_kind (es ! 0) = dv_kind (fs ! 0)" "es ! 0 \<in> set es" "fs ! 0 \<in> set fs"
        using list_all2_nthD [OF that(1), of 0] decoded_equal_kind by auto
      then show ?thesis using es(3) fs(3) unfolding list_all_iff by (metis option.inject)
    qed
    have "list_all2 decoded_values_equal es fs" if "array_len a = 0" "array_len b = 0"
      using that es(2) fs(2) by simp
    with len elem show ?thesis
      unfolding views_fallback_def eq using True kind by (cases "array_len a = 0") auto
  next
    case False
    then show ?thesis using kind by (simp add: views_fallback_def)
  qed
qed

lemma list_all2_map_eq: "(\<And>x y. P (f x) (f y) \<longleftrightarrow> x = y) \<Longrightarrow> list_all2 P (map f xs) (map f ys) \<longleftrightarrow> xs = ys"
  by (induction xs arbitrary: ys) (auto simp: list_all2_Cons1 Cons_eq_map_conv)

lemma mixed_arrays:
  assumes "sav_kind x \<noteq> sav_kind y"
  shows "decoded_values_equal (dv_scalar_array x) (dv_scalar_array y) \<longleftrightarrow> sav_len x = 0 \<and> sav_len y = 0"
  using views_fallback_correct [of "V_Array x" "V_Array y"] assms
  by (auto simp: views_fallback_def array_len_def element_kind_def split: if_splits)

lemma scalar_arrays_equal_correct:
  "scalar_arrays_equal x y \<longleftrightarrow> decoded_values_equal (dv_scalar_array x) (dv_scalar_array y)"
proof (cases "sav_kind x = sav_kind y")
  case True
  then show ?thesis
    by (cases x; cases y) (simp_all add: scalar_arrays_equal.simps list_all2_map1
        list_all2_map2 list.rel_eq list_all2_iff [of f32_same] list_all2_iff [of f64_same] list_all_iff)
next
  case False
  have "scalar_arrays_equal x y \<longleftrightarrow> sav_len x = 0 \<and> sav_len y = 0"
    using False unfolding scalar_arrays_equal.simps [of x y] by (cases x) (cases y; simp)+
  then show ?thesis using mixed_arrays [OF False] by simp
qed

lemma list_all2_upt:
  "list_all2 P (map f [0..<m]) (map g [0..<n]) \<longleftrightarrow> m = n \<and> (\<forall>i < m. P (f i) (g i))"
  by (auto simp: list_all2_conv_all_nth)

lemma distinct_map_fst: "distinct (map fst x) \<Longrightarrow> distinct x"
  by (simp add: distinct_map)

lemma maps_equal_iff:
  assumes "distinct (map fst x)" "distinct (map fst y)"
  shows "maps_equal x y \<longleftrightarrow> map_of x = map_of y"
proof
  assume "map_of x = map_of y"
  moreover have "length x = length y" if "map_of x = map_of y"
  proof -
    have "set (map fst x) = set (map fst y)" using that by (metis dom_map_of_conv_image_fst set_map)
    then show ?thesis using assms by (metis distinct_card length_map)
  qed
  ultimately show "maps_equal x y"
    using assms map_of_is_SomeI [OF assms(1)] by (auto simp: maps_equal_def list_all_iff simp del: map_of_eq_Some_iff)
next
  assume eq: "maps_equal x y"
  then have sub: "set x \<subseteq> set y" by (auto simp: maps_equal_def list_all_iff dest: map_of_SomeD)
  moreover have "card (set x) = card (set y)"
    using eq assms by (simp add: maps_equal_def distinct_card distinct_map_fst)
  ultimately have "set x = set y" by (simp add: card_subset_eq)
  then show "map_of x = map_of y" using assms by (metis map_of_inject_set)
qed

lemma string_fields_equal:
  "list_all2 (\<lambda>(n, v) (m, w). n = m \<and> decoded_values_equal v w)
     (map (\<lambda>k. (k, DV_String (u k))) ks) (map (\<lambda>k. (k, DV_String (w k))) ls) \<longleftrightarrow>
   map (\<lambda>k. (k, u k)) ks = map (\<lambda>k. (k, w k)) ls"
proof (induction ks arbitrary: ls)
  case (Cons k ks)
  then show ?case by (cases ls) auto
qed simp

lemma codec_parameters_equal:
  assumes "distinct (map fst x)" "distinct (map fst y)"
  shows "decoded_values_equal (dv_codec_parameters x) (dv_codec_parameters y) \<longleftrightarrow> map_of x = map_of y"
proof (cases "x = [] \<or> y = []")
  case True
  have ne: "map_of z \<noteq> Map.empty \<and> Map.empty \<noteq> map_of z" if "z \<noteq> []" for z :: "(string \<times> string) list"
    using that by (cases z) (auto simp: fun_eq_iff)
  show ?thesis
    using True ne [of x] ne [of y] decoded_equal_kind [of "dv_codec_parameters x" "dv_codec_parameters y"]
    by (cases "x = []"; cases "y = []") (auto simp: dv_codec_parameters_def)
next
  case False
  let ?kx = "sort (map fst x)" and ?ky = "sort (map fst y)"
  let ?f = "\<lambda>x k. (k, the (map_of x k))"
  have eq: "decoded_values_equal (dv_codec_parameters x) (dv_codec_parameters y) \<longleftrightarrow>
      map (?f x) ?kx = map (?f y) ?ky"
    using False by (simp only: dv_codec_parameters_def if_False de_Morgan_disj decoded_values_equal_simps
        string_fields_equal simp_thms)
  have dom: "set ?kx = dom (map_of x)" "set ?ky = dom (map_of y)" by (simp_all add: dom_map_of_conv_image_fst)
  show ?thesis
    unfolding eq
  proof
    assume m: "map (?f x) ?kx = map (?f y) ?ky"
    then have "map fst (map (?f x) ?kx) = map fst (map (?f y) ?ky)" by simp
    then have k: "?kx = ?ky" by (simp add: comp_def)
    with m have v: "\<forall>k \<in> set ?kx. the (map_of x k) = the (map_of y k)" by auto
    have d: "dom (map_of x) = dom (map_of y)" using k dom by metis
    show "map_of x = map_of y"
    proof
      fix k
      show "map_of x k = map_of y k"
      proof (cases "k \<in> dom (map_of x)")
        case True
        moreover from this have "k \<in> dom (map_of y)" using d by simp
        ultimately obtain a b where "map_of x k = Some a" "map_of y k = Some b" by blast
        moreover have "the (map_of x k) = the (map_of y k)" using True v dom(1) by blast
        ultimately show ?thesis by simp
      next
        case False
        then show ?thesis using d by (metis domIff)
      qed
    qed
  next
    assume m: "map_of x = map_of y"
    then have "set ?kx = set ?ky" using dom by simp
    then have "?kx = ?ky" using assms by (intro sorted_distinct_set_unique) simp_all
    with m show "map (?f x) ?kx = map (?f y) ?ky" by simp
  qed
qed

lemma dimensions_equal:
  "decoded_values_equal (dv_dimensions x) (dv_dimensions y) \<longleftrightarrow> x = y"
  unfolding dv_dimensions_def decoded_values_equal_simps
proof (rule list_all2_map_eq)
  fix d e :: nd_dimension
  show "decoded_values_equal (DV_Structure
       [(''size'', DV_Int32 (nd_size d)), (''offset'', DV_Int32 (nd_offset d)),
        (''fullSize'', DV_Int32 (nd_full_size d)), (''binning'', DV_Int32 (nd_binning d)),
        (''reverse'', DV_Boolean (nd_reverse d))]) (DV_Structure
       [(''size'', DV_Int32 (nd_size e)), (''offset'', DV_Int32 (nd_offset e)),
        (''fullSize'', DV_Int32 (nd_full_size e)), (''binning'', DV_Int32 (nd_binning e)),
        (''reverse'', DV_Boolean (nd_reverse e))]) \<longleftrightarrow> d = e"
    by (cases d; cases e) auto
qed

text \<open>The keys of a parameter map are distinct.\<close>

fun view_ok :: "view \<Rightarrow> bool" where
  "view_ok (V_CodecParameters ps) = distinct (map fst ps)"
| "view_ok (V_Struct (N_Codec c)) = distinct (map fst (cd_parameters c))"
| "view_ok (V_Struct (N_NdArray nt)) = distinct (map fst (cd_parameters (nd_codec nt)))"
| "view_ok _ = True"

lemma view_ok_field: "view_ok (V_Struct n) \<Longrightarrow> view_ok (node_field n i)"
proof (cases n)
  case (N_Scalar nt st)
  have "view_ok (scalar_view v)" for v by (cases v) simp_all
  then show ?thesis by (cases st) (simp add: N_Scalar alarm_view_def)
next
  case (N_Fields fs)
  have "view_ok (scalar_view v)" for v by (cases v) simp_all
  then show ?thesis by (cases "snd (fs ! i)") (simp_all add: N_Fields)
qed (simp_all add: alarm_view_def optional_alarm_view_def timestamp_view_def optional_timestamp_view_def
    split: option.split)

lemmas views_equal_unfold =
  views_equal.simps [of "V_Bool _"] views_equal.simps [of "V_I8 _"]
  views_equal.simps [of "V_I16 _"] views_equal.simps [of "V_I32 _"]
  views_equal.simps [of "V_I64 _"] views_equal.simps [of "V_U8 _"]
  views_equal.simps [of "V_U16 _"] views_equal.simps [of "V_U32 _"]
  views_equal.simps [of "V_U64 _"] views_equal.simps [of "V_F32 _"]
  views_equal.simps [of "V_F64 _"] views_equal.simps [of "V_Str _"]
  views_equal.simps [of "V_Array _"] views_equal.simps [of "V_Strings _"]
  views_equal.simps [of V_StandardChoices] views_equal.simps [of "V_Dimensions _"]
  views_equal.simps [of "V_Attributes _"] views_equal.simps [of "V_CodecParameters _"]
  views_equal.simps [of "V_Struct _"]

lemma views_equal_correct:
  "view_ok a \<Longrightarrow> view_ok b \<Longrightarrow> views_equal a b \<longleftrightarrow> decoded_values_equal (to_decoded a) (to_decoded b)"
proof (induction a b rule: views_equal.induct)
  case (1 a b)
  note defs = views_equal_unfold views_fallback_correct dv_string_array_def dv_form_choices_def
    list_all2_map1 list_all2_map2 list.rel_eq
  show ?case
  proof (cases a)
    case (V_Array x)
    show ?thesis
    proof (cases b)
      case (V_Strings y)
      then show ?thesis by (cases x) (simp_all add: defs V_Array)
    qed (simp_all add: defs V_Array scalar_arrays_equal_correct)
  next
    case (V_Strings x)
    show ?thesis
    proof (cases b)
      case (V_Array y)
      then show ?thesis by (cases y) (auto simp: defs V_Strings)
    qed (simp_all add: defs V_Strings)
  next
    case (V_Struct x)
    then show ?thesis
      using 1 by (cases b) (auto simp: views_equal_unfold views_fallback_correct list_all2_upt
          list_all_iff view_ok_field)
  next
    case (V_CodecParameters x)
    then show ?thesis
      using 1 by (cases b) (simp_all add: defs maps_equal_iff codec_parameters_equal)
  qed (cases b; simp add: defs dimensions_equal)+
qed

section \<open>Encoding\<close>

lemmas push_view_unfold =
  push_view.simps [of _ "V_Bool _"] push_view.simps [of _ "V_I8 _"]
  push_view.simps [of _ "V_I16 _"] push_view.simps [of _ "V_I32 _"]
  push_view.simps [of _ "V_I64 _"] push_view.simps [of _ "V_U8 _"]
  push_view.simps [of _ "V_U16 _"] push_view.simps [of _ "V_U32 _"]
  push_view.simps [of _ "V_U64 _"] push_view.simps [of _ "V_F32 _"]
  push_view.simps [of _ "V_F64 _"] push_view.simps [of _ "V_Str _"]
  push_view.simps [of _ "V_Array _"] push_view.simps [of _ "V_Strings _"]
  push_view.simps [of _ V_StandardChoices] push_view.simps [of _ "V_Dimensions _"]
  push_view.simps [of _ "V_Attributes _"] push_view.simps [of _ "V_CodecParameters _"]
  push_view.simps [of _ "V_Struct _"]

lemma push_array_decoded:
  "push_scalar_array_value_pvd out a be = push_decoded_value out (dv_scalar_array a) be"
proof -
  have app: "fold (\<lambda>x out. out @ g x) xs out = out @ concat (map g xs)" for g :: "'b \<Rightarrow> bytes" and xs out
    by (induction xs arbitrary: out) simp_all
  have one: "concat (map (\<lambda>x. [g x]) xs) = map g xs" for g :: "'b \<Rightarrow> byte" and xs
    by (induction xs) simp_all
  show ?thesis
    by (cases a) (simp_all add: push_string_array_def push_fixed_width_def fold_map comp_def app one)
qed

lemma push_string_array_decoded: "push_string_array out ss be = push_decoded_value out (dv_string_array ss) be"
  by (simp add: dv_string_array_def push_string_array_def fold_map comp_def)

lemma push_view_decoded: "push_view out v be = push_decoded_value out (to_decoded v) be"
proof (induction out v be rule: push_view.induct)
  case (1 out v be)
  show ?case
  proof (cases v)
    case (V_Struct n)
    have "fold (\<lambda>i out. push_view out (node_field n i) be) is out =
        fold (\<lambda>i out. push_decoded_value out (to_decoded (node_field n i)) be) is out"
      if "set is \<subseteq> {0..<node_len n}" for "is" out
      using that V_Struct 1 by (induction "is" arbitrary: out) auto
    from this [of "[0..<node_len n]" out] show ?thesis
      by (simp add: V_Struct push_view_unfold fold_map comp_def)
  qed (simp_all add: push_view_unfold push_array_decoded push_string_array_decoded dv_form_choices_def
      dv_string_array_def)
qed

section \<open>Fields\<close>

lemma locate_cong:
  "(\<And>i. i < len \<Longrightarrow> f i = g i) \<Longrightarrow> locate len f name hint = locate len g name hint"
proof -
  assume eq: "\<And>i. i < len \<Longrightarrow> f i = g i"
  have "find (\<lambda>i. f i = name) [0..<len] = find (\<lambda>i. g i = name) [0..<len]"
    using eq by (intro find_cong) auto
  with eq show ?thesis by (auto simp: locate_def)
qed

lemma locate_lt: "fst (locate len f name hint) = Some i \<Longrightarrow> i < len"
  by (auto simp: locate_def find_Some_iff split: option.splits if_splits)

lemma view_field_struct:
  "field_of (to_decoded (V_Struct n)) name hint = apfst (map_option to_decoded) (view_field (V_Struct n) name hint)"
proof -
  let ?fs = "map (\<lambda>i. (node_name n i, to_decoded (node_field n i))) [0..<node_len n]"
  have "locate (length ?fs) (\<lambda>i. fst (?fs ! i)) name hint = locate (node_len n) (node_name n) name hint"
  proof -
    have len: "length ?fs = node_len n" by simp
    show ?thesis unfolding len by (rule locate_cong) simp
  qed
  then show ?thesis
    using locate_lt [of "node_len n" "node_name n" name hint]
    by (cases "locate (node_len n) (node_name n) name hint"; cases "fst (locate (node_len n) (node_name n) name hint)")
      (auto simp: find_field_def view_field_def)
qed

lemma locate_unique:
  assumes "inj_on f {0..<len}" "i < len" "f i = name"
  shows "fst (locate len f name hint) = Some i"
proof -
  have uniq: "j = i" if "j < len" "f j = name" for j
    using assms that by (auto dest: inj_onD)
  have "find (\<lambda>i. f i = name) [0..<len] \<noteq> None"
    using assms(2,3) by (auto simp: find_None_iff)
  then obtain j where "find (\<lambda>i. f i = name) [0..<len] = Some j" by blast
  moreover from this have "j < len" "f j = name" by (auto simp: find_Some_iff)
  ultimately show ?thesis using uniq by (auto simp: locate_def)
qed

lemma locate_absent:
  assumes "\<And>i. i < len \<Longrightarrow> f i \<noteq> name"
  shows "locate len f name hint = (None, hint)"
proof -
  have "find (\<lambda>i. f i = name) [0..<len] = None" using assms by (auto simp: find_None_iff)
  with assms [of hint] show ?thesis by (simp add: locate_def)
qed

lemma parameter_field:
  assumes "distinct (map fst ps)"
  shows "fst (field_of (dv_codec_parameters ps) name hint) = map_option DV_String (map_of ps name)"
proof (cases "ps = []")
  case True
  then show ?thesis by (simp add: dv_codec_parameters_def)
next
  case False
  define ks where "ks = sort (map fst ps)"
  have ks: "distinct ks" "set ks = dom (map_of ps)"
    using assms by (simp_all add: ks_def dom_map_of_conv_image_fst)
  let ?fs = "map (\<lambda>k. (k, DV_String (the (map_of ps k)))) ks"
  have d: "dv_codec_parameters ps = DV_Structure ?fs"
    using False by (simp add: dv_codec_parameters_def ks_def)
  have at: "locate (length ?fs) (\<lambda>i. fst (?fs ! i)) name hint = locate (length ks) (\<lambda>i. ks ! i) name hint"
  proof -
    have len: "length ?fs = length ks" by simp
    show ?thesis unfolding len by (rule locate_cong) simp
  qed
  show ?thesis
  proof (cases "map_of ps name")
    case None
    then have "\<And>i. i < length ks \<Longrightarrow> ks ! i \<noteq> name" using ks(2) nth_mem by fastforce
    then show ?thesis using None by (simp add: d find_field_def at locate_absent)
  next
    case (Some v)
    then obtain i where i: "i < length ks" "ks ! i = name" using ks(2) by (metis domI in_set_conv_nth)
    have "fst (locate (length ks) (\<lambda>i. ks ! i) name hint) = Some i"
      using ks(1) i by (intro locate_unique) (simp_all add: inj_on_nth)
    then show ?thesis
      unfolding d field_of.simps find_field_def at using Some i
      by (cases "locate (length ks) (\<lambda>i. ks ! i) name hint") auto
  qed
qed

text \<open>A view and the tree it stands for, with the hints of two walks in step. A parameter map has
  no hint, but its keys are distinct.\<close>

definition in_step :: "view option \<Rightarrow> decoded_value \<Rightarrow> nat \<Rightarrow> nat \<Rightarrow> bool" where
  "in_step v d vh dh = (case v of
     None \<Rightarrow> d = DV_Structure []
   | Some x \<Rightarrow> view_ok x \<and> d = to_decoded x \<and> (vh = dh \<or> (\<exists>ps. x = V_CodecParameters ps)))"

lemma in_step_field:
  assumes "in_step v d vh dh" "opt_field v name vh = (v', vh')" "field_of d name dh = (d', dh')"
  shows "d' = map_option to_decoded v' \<and> in_step v d vh' dh' \<and> (\<forall>x. v' = Some x \<longrightarrow> view_ok x)"
proof (cases v)
  case None
  then show ?thesis
    using assms by (auto simp: in_step_def opt_field_def find_field_def locate_def)
next
  case (Some x)
  show ?thesis
  proof (cases x)
    case (V_Struct n)
    have "vh = dh" using assms(1) by (simp add: Some V_Struct in_step_def)
    moreover have "\<forall>y. v' = Some y \<longrightarrow> view_ok y"
      using assms(1,2) by (cases "locate (node_len n) (node_name n) name vh")
        (auto simp: Some V_Struct in_step_def opt_field_def view_field_def intro: view_ok_field)
    ultimately show ?thesis
      using assms view_field_struct [of n name vh]
      by (auto simp: Some V_Struct in_step_def opt_field_def simp del: to_decoded_simps)
  next
    case (V_CodecParameters ps)
    then show ?thesis
      using assms parameter_field [of ps name dh]
      by (auto simp: Some in_step_def opt_field_def view_field_def comp_def option.map_comp)
  next
    case (V_Array a)
    then show ?thesis using assms
      by (cases a) (auto simp: Some in_step_def opt_field_def view_field_def)
  qed (use assms in \<open>auto simp: Some in_step_def opt_field_def view_field_def dv_string_array_def
      dv_form_choices_def dv_dimensions_def dv_attributes_def\<close>)
qed

lemma in_step_start: "(\<forall>x. v = Some x \<longrightarrow> view_ok x) \<Longrightarrow> in_step v (or_empty (map_option to_decoded v)) 0 0"
  by (cases v) (simp_all add: in_step_def or_empty_def)

section \<open>The root\<close>

lemma to_decoded_scalar: "to_decoded (scalar_view v) = dv_scalar v"
  by (cases v) simp_all

lemma to_decoded_pv: "to_decoded (pv_view v) = dv_pv_value v"
proof (induction v)
  case (PV_Structure sid fs)
  then have "to_decoded (pv_view (snd (fs ! i))) = dv_pv_value (snd (fs ! i))" if "i < length fs" for i
    using that by (metis nth_mem prod.collapse snds.intros)
  then show ?case
    by (auto simp: node_len_def node_name_def intro!: nth_equalityI)
qed (simp_all add: to_decoded_scalar)

lemmas node_run = node_len_def node_name_def upt_rec alarm_view_def optional_alarm_view_def
  timestamp_view_def optional_timestamp_view_def ALARM_FIELDS_def TIMESTAMP_FIELDS_def
  DISPLAY_FIELDS_def ENUM_T_FIELDS_def CONTROL_FIELDS_def

lemma to_decoded_alarm: "to_decoded (alarm_view s t m) = dv_alarm s t m"
  by (simp add: node_run dv_alarm_def)

lemma to_decoded_opt_alarm: "to_decoded (optional_alarm_view a) = dv_opt_alarm a"
  by (cases a) (simp_all add: optional_alarm_view_def to_decoded_alarm dv_opt_alarm_def or_default_def
      nt_alarm_default_def)

lemma to_decoded_timestamp: "to_decoded (timestamp_view ts) = dv_nt_timestamp ts"
  by (simp add: node_run dv_nt_timestamp_def dv_timestamp_def)

lemma to_decoded_opt_timestamp:
  "to_decoded (optional_timestamp_view ts) = dv_nt_timestamp (or_default nt_time_stamp_default ts)"
  by (cases ts) (simp_all add: node_run dv_nt_timestamp_def dv_timestamp_def or_default_def
      nt_time_stamp_default_def)

lemma to_decoded_display:
  "to_decoded (V_Struct (N_Display d)) = dv_display (or_default nt_display_default d)"
  by (cases d) (simp_all add: node_run dv_display_def or_default_def nt_display_default_def)

lemma to_decoded_columns:
  "to_decoded (V_Struct (N_TableColumns cs)) =
     DV_Structure (map (\<lambda>c. (tc_name c, dv_scalar_array (tc_values c))) cs)"
  by (auto simp: node_len_def node_name_def intro!: nth_equalityI)

lemma to_decoded_fields:
  "to_decoded (V_Struct (N_Fields fs)) = DV_Structure (map (\<lambda>(name, val). (name, dv_pv_value val)) fs)"
  by (auto simp: node_len_def node_name_def to_decoded_pv case_prod_unfold intro!: nth_equalityI)

lemma of_payload_decoded: "to_decoded (of_payload now p) = nt_payload_to_decoded now p"
proof (cases p)
  case (NT_Generic sid fs)
  then show ?thesis
    using to_decoded_fields [of fs]
    by (simp only: of_payload_def nt_payload.case nt_payload_to_decoded_def
        nt_payload_to_decoded_for.simps dv_generic_fields_def wanted_None)
next
  case (NT_Scalar nt)
  obtain secs nanos tag where "scalar_stamp now nt = (secs, nanos, tag)" by (cases "scalar_stamp now nt")
  then show ?thesis
    by (simp add: NT_Scalar of_payload_def nt_payload_to_decoded_def dv_nt_scalar_fields_def node_run
        to_decoded_scalar dv_alarm_def dv_scalar_timestamp_def dv_timestamp_def dv_form_choices_def)
next
  case (NT_Table nt)
  then show ?thesis
    using to_decoded_columns [of "tb_columns nt"] to_decoded_opt_alarm [of "tb_alarm nt"]
      to_decoded_opt_timestamp [of "tb_time_stamp nt"]
    by (simp add: of_payload_def nt_payload_to_decoded_def dv_nt_table_fields_def node_len_def node_name_def
        upt_rec)
next
  case (NT_NdArray nt)
  then show ?thesis
    using to_decoded_opt_alarm [of "nd_alarm nt"] to_decoded_opt_timestamp [of "nd_time_stamp nt"]
      to_decoded_timestamp [of "nd_data_time_stamp nt"] to_decoded_display [of "nd_display nt"]
    by (simp add: of_payload_def nt_payload_to_decoded_def dv_nt_ndarray_fields_def node_len_def
        node_name_def upt_rec)
next
  case (NT_ScalarArray nt)
  then show ?thesis
    using to_decoded_timestamp [of "na_time_stamp nt"] to_decoded_display [of "Some (na_display nt)"]
    by (simp add: of_payload_def nt_payload_to_decoded_def dv_nt_scalar_array_fields_def node_len_def
        node_name_def upt_rec to_decoded_alarm CONTROL_FIELDS_def or_default_def)
next
  case (NT_Enum nt)
  then show ?thesis
    using to_decoded_timestamp [of "en_time_stamp nt"]
    by (simp add: of_payload_def nt_payload_to_decoded_def dv_nt_enum_fields_def node_len_def
        node_name_def upt_rec to_decoded_alarm ENUM_T_FIELDS_def)
qed

lemma of_payload_ok: "wf_payload L p \<Longrightarrow> view_ok (of_payload now p)"
  by (cases p) (simp_all add: of_payload_def wf_params_def)

section \<open>Narrowed encoding\<close>

lemma structure_kind: "view_kind v = K_Structure \<longleftrightarrow> (\<exists>fs. to_decoded v = DV_Structure fs)"
  using kind_to_decoded [of v] by (cases "to_decoded v") auto

lemma projected_fields:
  "in_step (Some v) (DV_Structure fs) vh dh \<Longrightarrow>
   push_view_projected_fields out v ts vh be = push_decoded_projected_fields out fs ts dh be"
proof (induction ts arbitrary: out v fs vh dh rule: fields_induct)
  case Nil
  then show ?case by simp
next
  case (Cons t ts)
  obtain v' vh' where vf: "view_field v (fd_name t) vh = (v', vh')" by (cases "view_field v (fd_name t) vh")
  obtain d' dh' where df: "find_field fs (fd_name t) dh = (d', dh')" by (cases "find_field fs (fd_name t) dh")
  have step: "d' = map_option to_decoded v'" "in_step (Some v) (DV_Structure fs) vh' dh'"
      "\<forall>x. v' = Some x \<longrightarrow> view_ok x"
    using in_step_field [OF Cons.prems, of "fd_name t" v' vh' d' dh'] vf df by (simp_all add: opt_field_def)
  have nested: "(if view_kind x \<noteq> K_Structure then push_view out x be
        else push_view_projected_fields out x (sd_fields inner) 0 be) =
      (case to_decoded x of
         DV_Structure sfs \<Rightarrow> push_decoded_projected_fields out sfs (sd_fields inner) 0 be
       | _ \<Rightarrow> push_decoded_value out (to_decoded x) be)"
    if "fd_type t = FT_Structure inner" "v' = Some x" for x inner
  proof (cases "view_kind x = K_Structure")
    case True
    then obtain sfs where sfs: "to_decoded x = DV_Structure sfs" unfolding structure_kind by blast
    then have "in_step (Some x) (DV_Structure sfs) 0 0" using step(3) that by (simp add: in_step_def)
    from Cons.IH(2) [OF that(1) this] show ?thesis using True sfs by simp
  next
    case False
    then show ?thesis
      using kind_to_decoded [of x] by (cases "to_decoded x") (simp_all add: push_view_decoded)
  qed
  show ?case
  proof (cases v')
    case None
    then show ?thesis using vf df step Cons.IH(1) by simp
  next
    case (Some x)
    have "push_view_projected_fields o1 v ts vh' be = push_decoded_projected_fields o1 fs ts dh' be" for o1
      by (rule Cons.IH(1) [OF step(2)])
    then show ?thesis
      using vf df step(1) Some nested
      by (cases "fd_type t") (simp_all add: push_view_decoded Let_def)
  qed
qed

lemma push_view_projected_decoded:
  "view_ok v \<Longrightarrow> push_view_projected out v desc be = push_decoded_projected out (to_decoded v) desc be"
proof (cases "view_kind v = K_Structure")
  case True
  assume "view_ok v"
  from True obtain fs where fs: "to_decoded v = DV_Structure fs" unfolding structure_kind by blast
  with \<open>view_ok v\<close> have "in_step (Some v) (DV_Structure fs) 0 0" by (simp add: in_step_def)
  from projected_fields [OF this] show ?thesis
    using True fs by (simp add: push_view_projected_def push_decoded_projected_def)
next
  case False
  then show ?thesis
    using kind_to_decoded [of v]
    by (cases "to_decoded v") (simp_all add: push_view_projected_def push_decoded_projected_def push_view_decoded)
qed

section \<open>Deltas\<close>

lemma fill_changed_frame:
  "fill_changed_fields p n fs ph nh any bits idx = (any', bits', idx') \<Longrightarrow>
   idx' = idx + length (bits_of fs) \<and> length bits' = length bits \<and>
   (\<forall>i. i < idx \<or> idx' \<le> i \<longrightarrow> bits' ! i = bits ! i) \<and> (any \<longrightarrow> any')"
proof (induction fs arbitrary: p n ph nh any bits idx any' bits' idx' rule: fields_induct)
  case Nil
  then show ?case by simp
next
  case (Cons f fs)
  show ?case
  proof (cases "fd_type f")
    case (FT_Structure inner)
    then show ?thesis
      using Cons.prems
      by (auto simp: Let_def length_bits_of_nested split: prod.splits
          dest!: Cons.IH(1) Cons.IH(2) [OF FT_Structure])
  qed (use Cons.prems in \<open>auto simp: Let_def split: prod.splits if_splits dest!: Cons.IH(1)\<close>)
qed

lemma view_leaf_changed:
  assumes "\<forall>x. p = Some x \<longrightarrow> view_ok x" "\<forall>x. n = Some x \<longrightarrow> view_ok x"
  shows "fst (view_leaf be p n i w) = leaf_changed (map_option to_decoded p) (map_option to_decoded n)"
  using assms by (cases p; cases n) (simp_all add: view_leaf_def leaf_changed_def views_equal_correct Let_def)

lemma encode_values_idx:
  "encode_values_fields v fs bs h idx be vals = (vals', idx') \<Longrightarrow> idx' = idx + length (bits_of fs)"
proof (induction fs arbitrary: v h idx vals vals' idx' rule: fields_induct)
  case Nil
  then show ?case by simp
next
  case (Cons f fs)
  show ?case
  proof (cases "fd_type f")
    case (FT_Structure inner)
    then show ?thesis
      using Cons.prems by (auto simp: Let_def split: prod.splits dest!: Cons.IH(1) Cons.IH(2) [OF FT_Structure])
  qed (use Cons.prems in \<open>auto simp: Let_def split: prod.splits if_splits option.splits dest!: Cons.IH(1)\<close>)
qed

text \<open>One step of each walk at a leaf.\<close>

lemma fill_leaf:
  assumes "as_structure (fd_type f) = None" "field_of dp (fd_name f) ph = (p1, ph1)"
    "field_of dn (fd_name f) nh = (n1, nh1)"
  shows "fill_changed_fields dp dn (f # fs) ph nh any bits idx =
    fill_changed_fields dp dn fs ph1 nh1 (any \<or> leaf_changed p1 n1)
      (if leaf_changed p1 n1 then bits[idx := True] else bits) (Suc idx)"
  using assms by (cases "fd_type f") (simp_all add: as_structure_def Let_def)

lemma encode_leaf:
  assumes "as_structure (fd_type f) = None" "field_of dn (fd_name f) nh = (n1, nh1)"
  shows "encode_values_fields dn (f # fs) bs nh idx be vals =
    encode_values_fields dn fs bs nh1 (Suc idx) be
      (case n1 of Some v \<Rightarrow> if bs ! idx then push_decoded_value vals v be else vals | None \<Rightarrow> vals)"
  using assms by (cases "fd_type f") (simp_all add: as_structure_def Let_def split: option.split)

lemma delta_leaf:
  assumes "as_structure (fd_type f) = None" "opt_field p (fd_name f) ph = (p1, ph1)"
    "opt_field n (fd_name f) nh = (n1, nh1)"
    "view_leaf be p1 n1 (dw_bit w) (w\<lparr>dw_bit := Suc (dw_bit w)\<rparr>) = (changed, w')"
  shows "delta_fields be p n (f # fs) ph nh any w =
    (if changed \<and> dw_sink w' = None then (True, w')
     else delta_fields be p n fs ph1 nh1 (any \<or> changed) w')"
  using assms by (cases "fd_type f") (simp_all add: as_structure_def Let_def)

lemma leaf_bits: "as_structure (fd_type f) = None \<Longrightarrow> length (bits_of (f # fs)) = Suc (length (bits_of fs))"
  by (cases "fd_type f") (simp_all add: as_structure_def)

lemma delta_fields_tree:
  assumes "in_step p dp ph dph" "in_step n dn nh dnh"
    and "idx + length (bits_of fs) \<le> length bits" "\<And>i. idx \<le> i \<Longrightarrow> i < idx + length (bits_of fs) \<Longrightarrow> \<not> bits ! i"
    and "fill_changed_fields dp dn fs dph dnh any bits idx = (any', bits', idx')"
    and "\<And>i. idx \<le> i \<Longrightarrow> i < idx' \<Longrightarrow> bs ! i = bits' ! i"
    and "encode_values_fields dn fs bs dnh idx be vals = (vals', idx'')"
  shows "delta_fields be p n fs ph nh any \<lparr>dw_sink = Some (bits, vals), dw_bit = idx\<rparr> =
    (any', \<lparr>dw_sink = Some (bits', vals'), dw_bit = idx'\<rparr>)"
  using assms
proof (induction fs arbitrary: p n dp dn ph nh dph dnh any bits idx any' bits' idx' vals vals' idx''
    rule: fields_induct)
  case Nil
  then show ?case by simp
next
  case (Cons f fs)
  obtain p1 ph1 where p1: "opt_field p (fd_name f) ph = (p1, ph1)" by (cases "opt_field p (fd_name f) ph")
  obtain n1 nh1 where n1: "opt_field n (fd_name f) nh = (n1, nh1)" by (cases "opt_field n (fd_name f) nh")
  obtain dp1 dph1 where dp1: "field_of dp (fd_name f) dph = (dp1, dph1)" by (cases "field_of dp (fd_name f) dph")
  obtain dn1 dnh1 where dn1: "field_of dn (fd_name f) dnh = (dn1, dnh1)" by (cases "field_of dn (fd_name f) dnh")
  note P = in_step_field [OF Cons.prems(1) p1 dp1] and N = in_step_field [OF Cons.prems(2) n1 dn1]
  show ?case
  proof (cases "as_structure (fd_type f)")
    case (Some inner)
    then have FT_Structure: "fd_type f = FT_Structure inner" by (simp add: as_structure_simps)
    let ?fs1 = "sd_fields inner"
    obtain c1 b1 i1 where fill1: "fill_changed_fields (or_empty dp1) (or_empty dn1) ?fs1 0 0 False bits (Suc idx) =
        (c1, b1, i1)" by (cases "fill_changed_fields (or_empty dp1) (or_empty dn1) ?fs1 0 0 False bits (Suc idx)")
    have fill2: "fill_changed_fields dp dn fs dph1 dnh1 (any \<or> c1) b1 i1 = (any', bits', idx')"
      using Cons.prems(5) fill1 dp1 dn1 by (simp add: FT_Structure Let_def)
    obtain v1 j1 where enc1: "encode_values_fields (or_empty dn1) ?fs1 bs 0 (Suc idx) be vals = (v1, j1)"
      by (cases "encode_values_fields (or_empty dn1) ?fs1 bs 0 (Suc idx) be vals")
    have enc2: "encode_values_fields dn fs bs dnh1 j1 be v1 = (vals', idx'')"
      using Cons.prems(7) enc1 dn1 by (simp add: FT_Structure Let_def)
    note frame1 = fill_changed_frame [OF fill1] and frame2 = fill_changed_frame [OF fill2]
    have len: "length (bits_of (f # fs)) = Suc (length (bits_of ?fs1) + length (bits_of fs))"
      by (simp add: FT_Structure)
    have j1: "j1 = i1" using encode_values_idx [OF enc1] frame1 by simp
    have "delta_fields be p1 n1 ?fs1 0 0 False \<lparr>dw_sink = Some (bits, vals), dw_bit = Suc idx\<rparr> =
        (c1, \<lparr>dw_sink = Some (b1, v1), dw_bit = i1\<rparr>)"
    proof (rule Cons.IH(2) [OF FT_Structure _ _ _ _ fill1 _ enc1])
      show "in_step p1 (or_empty dp1) 0 0" "in_step n1 (or_empty dn1) 0 0"
        using P N in_step_start by auto
      show "Suc idx + length (bits_of ?fs1) \<le> length bits" using Cons.prems(3) len by simp
      show "\<not> bits ! i" if "Suc idx \<le> i" "i < Suc idx + length (bits_of ?fs1)" for i
        using that Cons.prems(4) len by simp
      show "bs ! i = b1 ! i" if "Suc idx \<le> i" "i < i1" for i
        using that Cons.prems(6) [of i] frame1 frame2 by simp
    qed
    moreover have "delta_fields be p n fs ph1 nh1 (any \<or> c1) \<lparr>dw_sink = Some (b1, v1), dw_bit = i1\<rparr> =
        (any', \<lparr>dw_sink = Some (bits', vals'), dw_bit = idx'\<rparr>)"
    proof (rule Cons.IH(1) [OF _ _ _ _ fill2 _ enc2 [unfolded j1]])
      show "in_step p dp ph1 dph1" "in_step n dn nh1 dnh1" using P N by simp_all
      show "i1 + length (bits_of fs) \<le> length b1" using Cons.prems(3) len frame1 by simp
      show "\<not> b1 ! i" if "i1 \<le> i" "i < i1 + length (bits_of fs)" for i
        using that Cons.prems(4) [of i] len frame1 by simp
      show "bs ! i = bits' ! i" if "i1 \<le> i" "i < idx'" for i
        using that Cons.prems(6) [of i] frame1 by simp
    qed
    ultimately show ?thesis using p1 n1 by (simp add: FT_Structure Let_def)
  next
    case None
    note fill = Cons.prems(5) [unfolded fill_leaf [OF None dp1 dn1]]
      and enc = Cons.prems(7) [unfolded encode_leaf [OF None dn1]]
    let ?c = "leaf_changed dp1 dn1" and ?bits = "if leaf_changed dp1 dn1 then bits[idx := True] else bits"
    let ?vals = "case dn1 of Some v \<Rightarrow> if bs ! idx then push_decoded_value vals v be else vals | None \<Rightarrow> vals"
    note frame = fill_changed_frame [OF fill]
    have idx: "idx < length bits" "\<not> bits ! idx" "idx < idx'"
      using Cons.prems(3,4) frame leaf_bits [OF None, of fs] by simp_all
    have bit: "bs ! idx = ?c" using Cons.prems(6) [of idx] frame idx by simp
    have leaf: "view_leaf be p1 n1 idx \<lparr>dw_sink = Some (bits, vals), dw_bit = Suc idx\<rparr> =
        (?c, \<lparr>dw_sink = Some (?bits, ?vals), dw_bit = Suc idx\<rparr>)"
      using view_leaf_changed [of p1 n1 be idx "\<lparr>dw_sink = Some (bits, vals), dw_bit = Suc idx\<rparr>"] P N bit
      by (auto simp: view_leaf_def Let_def push_view_decoded split: option.splits)
    have "delta_fields be p n fs ph1 nh1 (any \<or> ?c) \<lparr>dw_sink = Some (?bits, ?vals), dw_bit = Suc idx\<rparr> =
        (any', \<lparr>dw_sink = Some (bits', vals'), dw_bit = idx'\<rparr>)"
    proof (rule Cons.IH(1) [OF _ _ _ _ fill _ enc])
      show "in_step p dp ph1 dph1" "in_step n dn nh1 dnh1" using P N by simp_all
      show "Suc idx + length (bits_of fs) \<le> length ?bits"
        using Cons.prems(3) leaf_bits [OF None, of fs] by simp
      show "\<not> ?bits ! i" if "Suc idx \<le> i" "i < Suc idx + length (bits_of fs)" for i
        using that Cons.prems(4) [of i] leaf_bits [OF None, of fs] by simp
      show "bs ! i = bits' ! i" if "Suc idx \<le> i" "i < idx'" for i
        using that Cons.prems(6) [of i] by simp
    qed
    then show ?thesis
      using delta_leaf [OF None p1 n1, of be "\<lparr>dw_sink = Some (bits, vals), dw_bit = idx\<rparr>"] leaf by simp
  qed
qed

end
