(* ===== verification/Payload_Delta.thy ===== *)
theory Payload_Delta
  imports Payload_Walk
begin

text \<open>
  The direct delta encoder against its definition on trees. The encoder walks two payloads through
  their views and writes the changed bits and the changed values in one pass; the definition builds
  both decoded trees, compares them for the changed bits and encodes the values these select.
\<close>

section \<open>Walks without a sink\<close>

lemma sink_kept:
  "dw_sink w \<noteq> None \<Longrightarrow>
   dw_sink (snd (delta_fields be p n fs ph nh any w)) \<noteq> None \<and>
   (any \<longrightarrow> fst (delta_fields be p n fs ph nh any w))"
proof (induction fs arbitrary: p n ph nh any w rule: fields_induct)
  case (Cons f fs)
  obtain p1 ph1 where p1: "opt_field p (fd_name f) ph = (p1, ph1)" by (cases "opt_field p (fd_name f) ph")
  obtain n1 nh1 where n1: "opt_field n (fd_name f) nh = (n1, nh1)" by (cases "opt_field n (fd_name f) nh")
  let ?w = "w\<lparr>dw_bit := Suc (dw_bit w)\<rparr>"
  show ?case
  proof (cases "as_structure (fd_type f)")
    case (Some inner)
    then have ft: "fd_type f = FT_Structure inner" by (simp add: as_structure_simps)
    obtain c w1 where walk: "delta_fields be p1 n1 (sd_fields inner) 0 0 False ?w = (c, w1)"
      by (cases "delta_fields be p1 n1 (sd_fields inner) 0 0 False ?w")
    have "dw_sink w1 \<noteq> None" using Cons.IH(2) [OF ft, of ?w p1 n1 0 0 False] Cons.prems walk by simp
    then show ?thesis using Cons.IH(1) [of w1 p n ph1 nh1 "any \<or> c"] p1 n1 walk
      by (auto simp: ft Let_def)
  next
    case None
    obtain c w1 where leaf: "view_leaf be p1 n1 (dw_bit w) ?w = (c, w1)"
      by (cases "view_leaf be p1 n1 (dw_bit w) ?w")
    then have "dw_sink w1 \<noteq> None" using Cons.prems by (auto simp: view_leaf_def Let_def split: if_splits)
    then show ?thesis using Cons.IH(1) [of w1 p n ph1 nh1 "any \<or> c"] delta_leaf [OF None p1 n1 leaf]
      by auto
  qed
qed simp

text \<open>Without a sink the walk stops at the first change; its answer is that of the whole walk.\<close>

lemma quiet_walk:
  "dw_sink w = None \<Longrightarrow> dw_sink w' \<noteq> None \<Longrightarrow>
   dw_sink (snd (delta_fields be p n fs ph nh any w)) = None \<and>
   fst (delta_fields be p n fs ph nh any w) = fst (delta_fields be p n fs ph nh any w')"
proof (induction fs arbitrary: p n ph nh any w w' rule: fields_induct)
  case (Cons f fs)
  obtain p1 ph1 where p1: "opt_field p (fd_name f) ph = (p1, ph1)" by (cases "opt_field p (fd_name f) ph")
  obtain n1 nh1 where n1: "opt_field n (fd_name f) nh = (n1, nh1)" by (cases "opt_field n (fd_name f) nh")
  let ?w = "w\<lparr>dw_bit := Suc (dw_bit w)\<rparr>" and ?w' = "w'\<lparr>dw_bit := Suc (dw_bit w')\<rparr>"
  show ?case
  proof (cases "as_structure (fd_type f)")
    case (Some inner)
    then have ft: "fd_type f = FT_Structure inner" by (simp add: as_structure_simps)
    let ?go = "delta_fields be p1 n1 (sd_fields inner) 0 0 False"
    obtain c w1 where walk: "?go ?w = (c, w1)" by (cases "?go ?w")
    obtain c' w1' where walk': "?go ?w' = (c', w1')" by (cases "?go ?w'")
    have "dw_sink w1 = None" "c = c'"
      using Cons.IH(2) [OF ft, of ?w ?w' p1 n1 0 0 False] Cons.prems walk walk' by simp_all
    moreover have "dw_sink w1' \<noteq> None"
      using sink_kept [of ?w' be p1 n1 "sd_fields inner" 0 0 False] Cons.prems walk' by simp
    ultimately show ?thesis
      using Cons.IH(1) [of w1 w1' p n ph1 nh1 "any \<or> c"] sink_kept [of w1' be p n fs ph1 nh1 True]
        p1 n1 walk walk' by (auto simp: ft Let_def)
  next
    case None
    obtain c w1 where leaf: "view_leaf be p1 n1 (dw_bit w) ?w = (c, w1)"
      by (cases "view_leaf be p1 n1 (dw_bit w) ?w")
    obtain c' w1' where leaf': "view_leaf be p1 n1 (dw_bit w') ?w' = (c', w1')"
      by (cases "view_leaf be p1 n1 (dw_bit w') ?w'")
    have "c = c'" "dw_sink w1 = None" "dw_sink w1' \<noteq> None"
      using leaf leaf' Cons.prems by (auto simp: view_leaf_def Let_def split: if_splits)
    then show ?thesis
      using Cons.IH(1) [of w1 w1' p n ph1 nh1 "any \<or> c"] sink_kept [of w1' be p n fs ph1 nh1 True]
        delta_leaf [OF None p1 n1 leaf] delta_leaf [OF None p1 n1 leaf'] by auto
  qed
qed simp

section \<open>The direct encoder\<close>

definition tree_delta :: "decoded_value \<Rightarrow> decoded_value \<Rightarrow> structure_desc \<Rightarrow> bool \<Rightarrow> (bytes \<times> bytes) option" where
  "tree_delta prev nxt desc be = (case compute_changed_bits prev nxt desc of
     None \<Rightarrow> None
   | Some bits \<Rightarrow> Some (encode_bitset_from_flags bits be, encode_values_for_bits nxt desc bits be))"

lemma delta_direct:
  assumes "view_ok (of_payload t1 prev)" "view_ok (of_payload t2 nxt)"
  shows "encode_nt_payload_delta t1 t2 prev nxt desc be =
    tree_delta (nt_payload_to_decoded t1 prev) (nt_payload_to_decoded t2 nxt) desc be"
proof -
  let ?p = "of_payload t1 prev" and ?n = "of_payload t2 nxt" and ?fs = "sd_fields desc"
  let ?dp = "nt_payload_to_decoded t1 prev" and ?dn = "nt_payload_to_decoded t2 nxt"
  let ?bits = "replicate (1 + count_structure_fields desc) False"
  obtain any bits idx where fill: "fill_changed_fields ?dp ?dn ?fs 0 0 False ?bits 1 = (any, bits, idx)"
    by (cases "fill_changed_fields ?dp ?dn ?fs 0 0 False ?bits 1")
  obtain vals j where enc: "encode_values_fields ?dn ?fs bits 0 1 be [] = (vals, j)"
    by (cases "encode_values_fields ?dn ?fs bits 0 1 be []")
  have "delta_fields be (Some ?p) (Some ?n) ?fs 0 0 False \<lparr>dw_sink = Some (?bits, []), dw_bit = 1\<rparr> =
      (any, \<lparr>dw_sink = Some (bits, vals), dw_bit = idx\<rparr>)"
  proof (rule delta_fields_tree [OF _ _ _ _ fill _ enc])
    show "in_step (Some ?p) ?dp 0 0" "in_step (Some ?n) ?dn 0 0"
      using assms by (simp_all add: in_step_def of_payload_decoded)
    show "1 + length (bits_of ?fs) \<le> length ?bits" by (simp add: length_bits_of_nested)
    show "\<not> ?bits ! i" if "1 \<le> i" "i < 1 + length (bits_of ?fs)" for i
      using that by (simp add: length_bits_of_nested del: replicate_Suc)
  qed simp
  then show ?thesis
    using fill enc
    by (simp add: encode_nt_payload_delta_def delta_level_def tree_delta_def compute_changed_bits_def
        fill_changed_bits_def encode_values_for_bits_def Let_def del: replicate_Suc)
qed

lemma changed_direct:
  "nt_payload_changed_on_desc t1 t2 prev nxt desc be \<longleftrightarrow>
   encode_nt_payload_delta t1 t2 prev nxt desc be \<noteq> None"
proof -
  let ?go = "delta_fields be (Some (of_payload t1 prev)) (Some (of_payload t2 nxt)) (sd_fields desc) 0 0 False"
  let ?w = "\<lparr>dw_sink = Some (replicate (1 + count_structure_fields desc) False, [] :: bytes), dw_bit = 1\<rparr>"
  have "fst (?go \<lparr>dw_sink = None, dw_bit = 1\<rparr>) = fst (?go ?w)" "dw_sink (snd (?go ?w)) \<noteq> None"
    using quiet_walk [of "\<lparr>dw_sink = None, dw_bit = 1\<rparr>" ?w] sink_kept [of ?w] by simp_all
  then show ?thesis
    by (auto simp: nt_payload_changed_on_desc_def encode_nt_payload_delta_def delta_level_def
        split: prod.splits option.splits)
qed

text \<open>C28: the direct delta encoder is the encoder on trees. For every pair of payloads and every
  descriptor, the bitset and the values that one pass over the payloads writes are the bitset of the
  fields in which the two decoded trees differ, and the values of the second tree that it selects;
  nothing is sent exactly when no field of the descriptor differs, and that is also the answer of the
  change test, which stops at the first difference. The hypotheses say that the codec parameters of an
  NTNDArray, a hash map, have distinct keys.\<close>

theorem delta_equals_tree_delta:
  assumes "view_ok (of_payload t1 prev)" "view_ok (of_payload t2 nxt)"
  shows "encode_nt_payload_delta t1 t2 prev nxt desc be =
      (case compute_changed_bits (nt_payload_to_decoded t1 prev) (nt_payload_to_decoded t2 nxt) desc of
         None \<Rightarrow> None
       | Some bits \<Rightarrow> Some (encode_bitset_from_flags bits be,
           encode_values_for_bits (nt_payload_to_decoded t2 nxt) desc bits be)) \<and>
    (nt_payload_changed_on_desc t1 t2 prev nxt desc be \<longleftrightarrow>
      compute_changed_bits (nt_payload_to_decoded t1 prev) (nt_payload_to_decoded t2 nxt) desc \<noteq> None)"
  using delta_direct [OF assms] changed_direct [of t1 t2 prev nxt desc be]
  by (auto simp: tree_delta_def split: option.split)

theorem delta_equals_tree_delta_witness:
  "nt_payload_changed_on_desc (0, 0) (0, 0) sample_payload (NT_Generic ''demo'' [])
     (nt_payload_desc sample_payload) True \<longleftrightarrow>
   compute_changed_bits (nt_payload_to_decoded (0, 0) sample_payload)
     (nt_payload_to_decoded (0, 0) (NT_Generic ''demo'' [])) (nt_payload_desc sample_payload) \<noteq> None"
  using delta_equals_tree_delta [of "(0, 0)" sample_payload "(0, 0)" "NT_Generic ''demo'' []"
      "nt_payload_desc sample_payload" True]
  by (simp add: of_payload_def sample_payload_def)

end
