(* ===== verification/Projection.thy ===== *)
theory Projection
  imports Payload_Delta Bridge_Merge
begin

text \<open>
  Values narrowed to a descriptor. A client that asks for some fields of a payload gets a
  descriptor narrowed to them and the values of these fields; what it decodes is the projection of
  the payload's tree on that descriptor. The lemmas are for descriptors whose leaves are scalars,
  strings and arrays of these, which all payloads but NTNDArray have.
\<close>

section \<open>Projection\<close>

function project_fields :: "(string \<times> decoded_value) list \<Rightarrow> field_desc list \<Rightarrow> (string \<times> decoded_value) list" where
  "project_fields fs [] = []"
| "project_fields fs (target # targets) =
     (case find (\<lambda>(n, _). n = fd_name target) fs of
        None \<Rightarrow> project_fields fs targets
      | Some (_, v) \<Rightarrow>
          (fd_name target,
           case fd_type target of
             FT_Structure inner \<Rightarrow>
               (case v of DV_Structure gs \<Rightarrow> DV_Structure (project_fields gs (sd_fields inner)) | _ \<Rightarrow> v)
           | _ \<Rightarrow> v) # project_fields fs targets)"
  by pat_completeness auto
termination
  by (relation "measure (\<lambda>(_, ts). size_list size ts)") (auto dest: size_nested_fields)

definition project_decoded :: "decoded_value \<Rightarrow> structure_desc \<Rightarrow> decoded_value" where
  "project_decoded value desc = (case value of
     DV_Structure fs \<Rightarrow> DV_Structure (project_fields fs (sd_fields desc)) | _ \<Rightarrow> value)"

section \<open>Narrowed descriptors\<close>

definition is_leaf :: "field_desc \<Rightarrow> bool" where
  "is_leaf f \<longleftrightarrow> as_structure (fd_type f) = None"

definition plain_leaf :: "field_type \<Rightarrow> bool" where
  "plain_leaf ft = (case ft of
     FT_Scalar _ \<Rightarrow> True | FT_ScalarArray _ \<Rightarrow> True | FT_String \<Rightarrow> True | FT_StringArray \<Rightarrow> True
   | _ \<Rightarrow> False)"

text \<open>Leaves are plain, and no structure is empty.\<close>

function plain_fields :: "field_desc list \<Rightarrow> bool" where
  "plain_fields [] = True"
| "plain_fields (f # fs) \<longleftrightarrow>
     (if is_leaf f then plain_leaf (fd_type f) else inner_fields f \<noteq> []) \<and>
     plain_fields (inner_fields f) \<and> plain_fields fs"
  by pat_completeness auto
termination
  by (relation "measure (size_list size)")
    (auto dest: size_nested_fields simp: inner_fields_def split: field_type.split)

definition field_named :: "string \<Rightarrow> field_desc list \<Rightarrow> field_desc option" where
  "field_named n fs = find (\<lambda>f. fd_name f = n) fs"

text \<open>Every field of the first list is a field of the second, or a structure narrowed from one.\<close>

function narrows :: "field_desc list \<Rightarrow> field_desc list \<Rightarrow> bool" where
  "narrows [] gs = True"
| "narrows (f # fs) gs \<longleftrightarrow>
     (case field_named (fd_name f) gs of
        None \<Rightarrow> False
      | Some g \<Rightarrow> (if is_leaf f then fd_type g = fd_type f else \<not> is_leaf g) \<and>
          narrows (inner_fields f) (inner_fields g)) \<and>
     narrows fs gs"
  by pat_completeness auto
termination
  by (relation "measure (size_list size \<circ> fst)")
    (auto dest: size_nested_fields simp: inner_fields_def split: field_type.split)

lemma leaf_inner [simp]: "is_leaf f \<Longrightarrow> inner_fields f = []"
  by (simp add: is_leaf_def as_structure_def inner_fields_def split: field_type.splits)

lemma not_leaf: "\<not> is_leaf f \<longleftrightarrow> (\<exists>d. fd_type f = FT_Structure d \<and> sd_fields d = inner_fields f)"
  by (auto simp: is_leaf_def as_structure_def inner_fields_def split: field_type.splits)

definition fields_of :: "decoded_value \<Rightarrow> (string \<times> decoded_value) list" where
  "fields_of v = (case v of DV_Structure fs \<Rightarrow> fs | _ \<Rightarrow> [])"

lemma fields_of_simps [simp]: "fields_of (DV_Structure fs) = fs"
  by (simp add: fields_of_def)

section \<open>Values by name\<close>

lemma field_by_name:
  assumes "distinct (map fst vs)"
  shows "fst (find_field vs n hint) = map_of vs n"
proof (cases "n \<in> fst ` set vs")
  case True
  then obtain i where i: "i < length vs" "fst (vs ! i) = n" by (auto simp: in_set_conv_nth)
  have "inj_on (\<lambda>i. fst (vs ! i)) {0..<length vs}"
    using assms by (auto simp: inj_on_def distinct_conv_nth) metis
  from locate_unique [OF this i] have "fst (find_field vs n hint) = Some (snd (vs ! i))"
    by (simp add: find_field_def)
  moreover have "map_of vs n = Some (snd (vs ! i))"
    using assms i by (auto intro!: map_of_is_SomeI simp flip: i(2))
  ultimately show ?thesis by simp
next
  case False
  then have "map_of vs n = None" by (simp add: map_of_eq_None_iff)
  moreover have "locate (length vs) (\<lambda>i. fst (vs ! i)) n hint = (None, hint)"
    using False by (intro locate_absent) force
  ultimately show ?thesis by (simp add: find_field_def)
qed

lemma wire_fields_names: "wire_fields be L h n fs vs bs \<Longrightarrow> map fst vs = map fd_name fs"
proof (induction fs arbitrary: n vs bs)
  case (Cons f fs)
  then show ?case by (auto elim!: wire_fields_ConsE)
qed (simp add: wire_fields_Nil_iff)

lemma names_ok_distinct: "names_ok fs \<Longrightarrow> distinct (map fd_name fs)"
  by (induction fs) auto

lemma names_ok_inner: "names_ok fs \<Longrightarrow> f \<in> set fs \<Longrightarrow> names_ok (inner_fields f)"
  by (induction fs) auto

lemma field_named_in: "field_named n fs = Some f \<Longrightarrow> f \<in> set fs \<and> fd_name f = n"
  by (auto simp: field_named_def find_Some_iff)

lemma wire_field_named:
  "wire_fields be L h n fs vs bs \<Longrightarrow> field_named m fs = Some f \<Longrightarrow>
   \<exists>k v b. map_of vs m = Some v \<and> wire_value be L h k (fd_type f) v b"
proof (induction fs arbitrary: n vs bs)
  case (Cons g fs)
  from Cons.prems(1) obtain n1 v b1 m1 ws b2 where
      "wire_value be L h n1 (fd_type g) v b1" "wire_fields be L h m1 fs ws b2" "vs = (fd_name g, v) # ws"
    by (rule wire_fields_ConsE) auto
  then show ?case
    using Cons.prems(2) Cons.IH by (auto simp: field_named_def split: if_splits)
qed (simp add: field_named_def)

inductive_cases wire_scalarE: "wire_value be L h n (FT_Scalar tc) v bs"
inductive_cases wire_scalarsE: "wire_value be L h n (FT_ScalarArray tc) v bs"
inductive_cases wire_stringE: "wire_value be L h n FT_String v bs"
inductive_cases wire_stringsE: "wire_value be L h n FT_StringArray v bs"

lemma scalar_wire_push: "scalar_wire be tc v bs \<Longrightarrow> push_decoded_value out v be = out @ bs"
  by (induction rule: scalar_wire.induct) simp_all

lemma scalars_wire_push:
  "list_all2 (scalar_wire be tc) vs bss \<Longrightarrow>
   fold (\<lambda>v out. push_decoded_value out v be) vs out = out @ concat bss"
  by (induction vs bss arbitrary: out rule: list_all2_induct) (simp_all add: scalar_wire_push)

text \<open>The bytes of a plain value are those the encoder of decoded values writes.\<close>

lemma plain_wire:
  assumes "plain_leaf ft" "wire_value be L h n ft v b"
  shows "n = 0 \<and> b \<noteq> [] \<and> push_decoded_value out v be = out @ b"
proof (cases ft)
  case (FT_Scalar tc)
  then show ?thesis using assms(2)
    by (auto elim!: wire_scalarE simp: scalar_wire_push dest: scalar_wire_not_Nil)
next
  case (FT_ScalarArray tc)
  then show ?thesis using assms(2)
    by (auto elim!: wire_scalarsE simp: scalars_wire_push push_size_append)
next
  case FT_String
  then show ?thesis using assms(2) by (auto elim!: wire_stringE simp: push_string_append)
next
  case FT_StringArray
  have "fold (\<lambda>v out. push_decoded_value out v be) (map DV_String ss) out =
      out @ concat (map (\<lambda>s. encode_string s be) ss)" for ss out
    by (induction ss arbitrary: out) (simp_all add: push_string_append)
  then show ?thesis using assms(2) FT_StringArray by (auto elim!: wire_stringsE simp: push_size_append)
qed (use assms(1) in \<open>simp_all add: plain_leaf_def\<close>)

section \<open>Projections on the wire\<close>

lemma project_fields_found:
  assumes "map_of vs (fd_name f) = Some v" "\<not> is_leaf f \<Longrightarrow> v = DV_Structure ws"
  shows "project_fields vs (f # fs) =
    (fd_name f, if is_leaf f then v else DV_Structure (project_fields ws (inner_fields f)))
    # project_fields vs fs"
proof (cases "is_leaf f")
  case True
  then show ?thesis using assms(1)
    by (auto simp: find_map_of is_leaf_def as_structure_def split: field_type.splits)
next
  case False
  moreover then obtain d where "fd_type f = FT_Structure d" "sd_fields d = inner_fields f" using not_leaf by blast
  moreover have "v = DV_Structure ws" using False assms(2) by simp
  ultimately show ?thesis using assms(1) by (simp add: find_map_of)
qed

text \<open>The field of a narrowed descriptor, seen in a value of the whole one.\<close>

lemma narrow_field:
  assumes "wire_fields be L h n gs vs bs" "narrows (f # fs) gs" "names_ok gs"
  obtains g v k b ws where "map_of vs (fd_name f) = Some v" "field_named (fd_name f) gs = Some g"
    "is_leaf f \<longrightarrow> wire_value be L h k (fd_type f) v b"
    "\<not> is_leaf f \<longrightarrow> 0 < h \<and> v = DV_Structure ws \<and>
      wire_fields be L (h - 1) k (inner_fields g) ws b \<and>
      narrows (inner_fields f) (inner_fields g) \<and> names_ok (inner_fields g)"
proof -
  from assms(2) obtain g where g: "field_named (fd_name f) gs = Some g"
      "if is_leaf f then fd_type g = fd_type f else \<not> is_leaf g" "narrows (inner_fields f) (inner_fields g)"
    by (auto split: option.splits)
  from wire_field_named [OF assms(1) g(1)] obtain k v b where
    v: "map_of vs (fd_name f) = Some v" "wire_value be L h k (fd_type g) v b" by blast
  have "\<exists>ws. \<not> is_leaf g \<longrightarrow> 0 < h \<and> v = DV_Structure ws \<and> wire_fields be L (h - 1) k (inner_fields g) ws b"
  proof (cases "is_leaf g")
    case False
    then obtain d where "fd_type g = FT_Structure d" "sd_fields d = inner_fields g" using not_leaf by blast
    with v(2) show ?thesis by (auto elim: wire_structE)
  qed simp
  then obtain ws where "\<not> is_leaf g \<longrightarrow> 0 < h \<and> v = DV_Structure ws \<and>
      wire_fields be L (h - 1) k (inner_fields g) ws b" by blast
  then show thesis
    using g v names_ok_inner [OF assms(3), of g] field_named_in [OF g(1)]
    by (intro that [of v g k b ws]) (auto split: if_splits)
qed

lemma plain_fields_not_Nil:
  "plain_fields fs \<Longrightarrow> fs \<noteq> [] \<Longrightarrow> wire_fields be L h n fs vs bs \<Longrightarrow> bs \<noteq> []"
  by (cases fs) (auto elim!: wire_fields_ConsE)

lemma push_projected_field:
  assumes "find_field vs (fd_name f) hint = (Some v, hint')"
  shows "push_decoded_projected_fields out vs (f # fs) hint be =
    push_decoded_projected_fields
      (if is_leaf f then push_decoded_value out v be
       else case v of DV_Structure ws \<Rightarrow> push_decoded_projected_fields out ws (inner_fields f) 0 be
          | _ \<Rightarrow> push_decoded_value out v be) vs fs hint' be"
proof (cases "is_leaf f")
  case True
  then show ?thesis using assms
    by (auto simp: is_leaf_def as_structure_def split: field_type.splits)
next
  case False
  then obtain d where "fd_type f = FT_Structure d" "sd_fields d = inner_fields f" using not_leaf by blast
  with False assms show ?thesis by (auto split: decoded_value.splits)
qed

definition writes :: "bool \<Rightarrow> (string \<times> decoded_value) list \<Rightarrow> field_desc list \<Rightarrow> bytes \<Rightarrow> bool" where
  "writes be vs fs b \<longleftrightarrow> (\<forall>out hint. push_decoded_projected_fields out vs fs hint be = out @ b)"

lemma writes_Cons:
  assumes "distinct (map fst vs)" "map_of vs (fd_name f) = Some v" "writes be vs fs b2"
    and "is_leaf f \<Longrightarrow> \<forall>out. push_decoded_value out v be = out @ b1"
    and "\<not> is_leaf f \<Longrightarrow> v = DV_Structure ws \<and> writes be ws (inner_fields f) b1"
  shows "writes be vs (f # fs) (b1 @ b2)"
  unfolding writes_def
proof (intro allI)
  fix out hint
  obtain hint' where "find_field vs (fd_name f) hint = (Some v, hint')"
    using field_by_name [OF assms(1), of "fd_name f" hint] assms(2) by (metis prod.collapse)
  from push_projected_field [OF this, of out fs be] assms(3-5)
  show "push_decoded_projected_fields out vs (f # fs) hint be = out @ b1 @ b2"
    by (cases "is_leaf f") (simp_all add: writes_def)
qed

lemma project_wire:
  "wire_fields be L h n gs vs bs \<Longrightarrow> narrows fs gs \<Longrightarrow> names_ok gs \<Longrightarrow> plain_fields fs \<Longrightarrow>
   \<exists>b. wire_fields be L h 0 fs (project_fields vs fs) b \<and> writes be vs fs b"
proof (induction fs arbitrary: h n gs vs bs rule: inner_induct)
  case Nil
  have "writes be vs [] []" by (simp add: writes_def)
  then show ?case by (auto intro: f_nil)
next
  case (Cons f fs)
  from Cons.IH(1) [OF Cons.prems(1)] Cons.prems(2-4) obtain b2 where
    b2: "wire_fields be L h 0 fs (project_fields vs fs) b2" "writes be vs fs b2" by auto
  have dist: "distinct (map fst vs)"
    using wire_fields_names [OF Cons.prems(1)] names_ok_distinct [OF Cons.prems(3)] by simp
  from narrow_field [OF Cons.prems(1,2,3)] obtain g v k b ws where
    v: "map_of vs (fd_name f) = Some v" and leaf: "is_leaf f \<longrightarrow> wire_value be L h k (fd_type f) v b"
    and struct: "\<not> is_leaf f \<longrightarrow> 0 < h \<and> v = DV_Structure ws \<and>
      wire_fields be L (h - 1) k (inner_fields g) ws b \<and>
      narrows (inner_fields f) (inner_fields g) \<and> names_ok (inner_fields g)" .
  let ?v = "if is_leaf f then v else DV_Structure (project_fields ws (inner_fields f))"
  have "\<exists>b1. wire_value be L h 0 (fd_type f) ?v b1 \<and> b1 \<noteq> [] \<and> writes be vs (f # fs) (b1 @ b2)"
  proof (cases "is_leaf f")
    case True
    with Cons.prems(4) have "plain_leaf (fd_type f)" by simp
    note p = plain_wire [OF this leaf [rule_format, OF True]]
    then have "writes be vs (f # fs) (b @ b2)" using True by (intro writes_Cons [OF dist v b2(2)]) simp_all
    with p leaf [rule_format, OF True] True show ?thesis by auto
  next
    case False
    note s = struct [rule_format, OF False]
    from Cons.IH(2) [of "h - 1" k "inner_fields g" ws b] s Cons.prems(4) obtain b1 where
      b1: "wire_fields be L (h - 1) 0 (inner_fields f) (project_fields ws (inner_fields f)) b1"
        "writes be ws (inner_fields f) b1" by auto
    obtain d where d: "fd_type f = FT_Structure d" "sd_fields d = inner_fields f" using False not_leaf by blast
    have "wire_value be L h 0 (fd_type f) (DV_Structure (project_fields ws (inner_fields f))) b1"
      unfolding d(1) using s b1(1) by (intro w_struct) (simp_all add: d(2))
    moreover have "b1 \<noteq> []"
      using plain_fields_not_Nil [OF _ _ b1(1)] Cons.prems(4) False by simp
    moreover have "writes be vs (f # fs) (b1 @ b2)"
      using False s b1(2) by (intro writes_Cons [OF dist v b2(2)]) simp_all
    ultimately show ?thesis using False by auto
  qed
  then obtain b1 where b1: "wire_value be L h 0 (fd_type f) ?v b1" "b1 \<noteq> []" "writes be vs (f # fs) (b1 @ b2)"
    by blast
  have "wire_fields be L h (0 + 0) (f # fs) ((fd_name f, ?v) # project_fields vs fs) (b1 @ b2)"
    using b1(1,2) b2(1) by (intro f_cons) simp_all
  moreover have "project_fields vs (f # fs) = (fd_name f, ?v) # project_fields vs fs"
    using struct by (intro project_fields_found v) simp
  ultimately show ?case using b1(3) by (metis add_0)
qed

end
