(* ===== verification/Delta_Wire.thy ===== *)
theory Delta_Wire
  imports Projection
begin

text \<open>
  Deltas on the wire. For two values of a descriptor, and a descriptor narrowed from it: the bits
  of the changed leaves (\<open>delta_bits\<close>), the part of the second value they select (\<open>delta_vals\<close>)
  and the first value with these leaves replaced (\<open>patched\<close>). The changed-bits computation yields
  the first, the value encoder a wire form of the second, and the gateway's merge the third.
\<close>

section \<open>Changes between two values\<close>

definition value_at :: "(string \<times> decoded_value) list \<Rightarrow> field_desc \<Rightarrow> decoded_value" where
  "value_at vs f = the (map_of vs (fd_name f))"

function delta_bits :: "field_desc list \<Rightarrow> (string \<times> decoded_value) list \<Rightarrow> (string \<times> decoded_value) list
    \<Rightarrow> bool list" where
  "delta_bits [] ps ns = []"
| "delta_bits (f # fs) ps ns =
     (is_leaf f \<and> \<not> decoded_values_equal (value_at ps f) (value_at ns f))
     # delta_bits (inner_fields f) (fields_of (value_at ps f)) (fields_of (value_at ns f))
     @ delta_bits fs ps ns"
  by pat_completeness auto
termination
  by (relation "measure (size_list size \<circ> fst)")
    (auto dest: size_nested_fields simp: inner_fields_def split: field_type.split)

function delta_vals :: "field_desc list \<Rightarrow> (string \<times> decoded_value) list \<Rightarrow> (string \<times> decoded_value) list
    \<Rightarrow> (string \<times> decoded_value) list" where
  "delta_vals [] ps ns = []"
| "delta_vals (f # fs) ps ns =
     (let p = value_at ps f; n = value_at ns f;
          ws = delta_vals (inner_fields f) (fields_of p) (fields_of n)
      in if is_leaf f then (if decoded_values_equal p n then [] else [(fd_name f, n)])
         else if ws = [] then [] else [(fd_name f, DV_Structure ws)])
     @ delta_vals fs ps ns"
  by pat_completeness auto
termination
  by (relation "measure (size_list size \<circ> fst)")
    (auto dest: size_nested_fields simp: inner_fields_def split: field_type.split)

function patched :: "field_desc list \<Rightarrow> (string \<times> decoded_value) list \<Rightarrow> (string \<times> decoded_value) list
    \<Rightarrow> (string \<times> decoded_value) list" where
  "patched [] ps ns = []"
| "patched (f # fs) ps ns =
     (fd_name f,
      let p = value_at ps f; n = value_at ns f in
      if is_leaf f then (if decoded_values_equal p n then p else n)
      else DV_Structure (patched (inner_fields f) (fields_of p) (fields_of n)))
     # patched fs ps ns"
  by pat_completeness auto
termination
  by (relation "measure (size_list size \<circ> fst)")
    (auto dest: size_nested_fields simp: inner_fields_def split: field_type.split)

lemma length_delta_bits [simp]: "length (delta_bits fs ps ns) = length (bits_of fs)"
  by (induction fs arbitrary: ps ns rule: inner_induct) (simp_all add: bits_of_inner del: bits_of_simps(2))

lemma delta_vals_Nil: "delta_vals fs ps ns = [] \<longleftrightarrow> True \<notin> set (delta_bits fs ps ns)"
proof (induction fs arbitrary: ps ns rule: inner_induct)
  case (Cons f fs)
  then show ?case by (cases "is_leaf f") (auto simp: Let_def)
qed simp

lemma delta_vals_names: "fst ` set (delta_vals fs ps ns) \<subseteq> fd_name ` set fs"
  by (induction fs arbitrary: ps ns) (auto simp: Let_def split: if_splits)

section \<open>Changed bits\<close>

text \<open>Two values of the same descriptor.\<close>

definition values_of :: "bool \<Rightarrow> decode_limits \<Rightarrow> nat \<Rightarrow> field_desc list \<Rightarrow> (string \<times> decoded_value) list \<Rightarrow> bool" where
  "values_of be L h gs vs \<longleftrightarrow> names_ok gs \<and> (\<exists>n bs. wire_fields be L h n gs vs bs)"

lemma values_of_distinct: "values_of be L h gs vs \<Longrightarrow> distinct (map fst vs)"
  using wire_fields_names names_ok_distinct by (fastforce simp: values_of_def)

lemma values_of_field:
  assumes "values_of be L h gs vs" "narrows (f # fs) gs"
  shows "map_of vs (fd_name f) = Some (value_at vs f)"
    and "is_leaf f \<Longrightarrow> \<exists>k b. wire_value be L h k (fd_type f) (value_at vs f) b"
    and "\<not> is_leaf f \<Longrightarrow> 0 < h \<and> value_at vs f = DV_Structure (fields_of (value_at vs f)) \<and>
      values_of be L (h - 1) (inner_fields (the (field_named (fd_name f) gs))) (fields_of (value_at vs f)) \<and>
      narrows (inner_fields f) (inner_fields (the (field_named (fd_name f) gs)))"
proof -
  from assms(1) obtain n bs where wf: "names_ok gs" "wire_fields be L h n gs vs bs"
    by (auto simp: values_of_def)
  from narrow_field [OF wf(2) assms(2) wf(1)] obtain g v k b ws where
    v: "map_of vs (fd_name f) = Some v" "field_named (fd_name f) gs = Some g"
      "is_leaf f \<longrightarrow> wire_value be L h k (fd_type f) v b"
      "\<not> is_leaf f \<longrightarrow> 0 < h \<and> v = DV_Structure ws \<and> wire_fields be L (h - 1) k (inner_fields g) ws b \<and>
        narrows (inner_fields f) (inner_fields g) \<and> names_ok (inner_fields g)" .
  have at: "value_at vs f = v" using v(1) by (simp add: value_at_def)
  show "map_of vs (fd_name f) = Some (value_at vs f)" using v(1) at by simp
  show "\<exists>k b. wire_value be L h k (fd_type f) (value_at vs f) b" if "is_leaf f" using v(3) that at by auto
  show "0 < h \<and> value_at vs f = DV_Structure (fields_of (value_at vs f)) \<and>
      values_of be L (h - 1) (inner_fields (the (field_named (fd_name f) gs))) (fields_of (value_at vs f)) \<and>
      narrows (inner_fields f) (inner_fields (the (field_named (fd_name f) gs)))" if "\<not> is_leaf f"
    using v(2,4) that at by (auto simp: values_of_def)
qed

lemma values_of_lookup:
  assumes "values_of be L h gs vs" "narrows (f # fs) gs"
  obtains hint' where "field_of (DV_Structure vs) (fd_name f) hint = (Some (value_at vs f), hint')"
  using field_by_name [OF values_of_distinct [OF assms(1)], of "fd_name f" hint] values_of_field(1) [OF assms]
  by (metis field_of.simps(1) prod.collapse)

lemma fill_structure:
  assumes "\<not> is_leaf f" "field_of dp (fd_name f) ph = (Some p, ph1)" "field_of dn (fd_name f) nh = (Some n, nh1)"
  shows "fill_changed_fields dp dn (f # fs) ph nh any bits idx =
    (case fill_changed_fields p n (inner_fields f) 0 0 False bits (Suc idx) of
       (changed, bits, idx) \<Rightarrow> fill_changed_fields dp dn fs ph1 nh1 (any \<or> changed) bits idx)"
proof -
  obtain d where "fd_type f = FT_Structure d" "sd_fields d = inner_fields f" using assms(1) not_leaf by blast
  with assms show ?thesis by (simp add: or_empty_def Let_def)
qed

lemma fill_delta_bits:
  "values_of be L h gs ps \<Longrightarrow> values_of be L h gs ns \<Longrightarrow> narrows fs gs \<Longrightarrow>
   fill_changed_fields (DV_Structure ps) (DV_Structure ns) fs ph nh any
     (done @ replicate (length (bits_of fs)) False @ rest) (length done) =
   (any \<or> True \<in> set (delta_bits fs ps ns), done @ delta_bits fs ps ns @ rest,
    length done + length (bits_of fs))"
proof (induction fs arbitrary: h gs ps ns ph nh any "done" rest rule: inner_induct)
  case Nil
  then show ?case by simp
next
  case (Cons f fs)
  let ?p = "value_at ps f" and ?n = "value_at ns f"
  obtain ph1 where ph1: "field_of (DV_Structure ps) (fd_name f) ph = (Some ?p, ph1)"
    using values_of_lookup [OF Cons.prems(1,3)] .
  obtain nh1 where nh1: "field_of (DV_Structure ns) (fd_name f) nh = (Some ?n, nh1)"
    using values_of_lookup [OF Cons.prems(2,3)] .
  have fs: "narrows fs gs" using Cons.prems(3) by simp
  show ?case
  proof (cases "is_leaf f")
    case True
    let ?c = "\<not> decoded_values_equal ?p ?n"
    have "fill_changed_fields (DV_Structure ps) (DV_Structure ns) (f # fs) ph nh any
        (done @ replicate (length (bits_of (f # fs))) False @ rest) (length done) =
      fill_changed_fields (DV_Structure ps) (DV_Structure ns) fs ph1 nh1 (any \<or> ?c)
        ((done @ [?c]) @ replicate (length (bits_of fs)) False @ rest) (length (done @ [?c]))"
      unfolding fill_leaf [OF True [unfolded is_leaf_def] ph1 nh1] leaf_changed_def bits_of_inner
        leaf_inner [OF True] by simp
    also note Cons.IH(1) [OF Cons.prems(1,2) fs]
    finally show ?thesis using True by (simp add: bits_of_inner del: bits_of_simps(2))
  next
    case False
    note p = values_of_field(3) [OF Cons.prems(1,3) False] and n = values_of_field(3) [OF Cons.prems(2,3) False]
    let ?ds = "delta_bits (inner_fields f) (fields_of ?p) (fields_of ?n)"
    obtain p' n' where pn: "?p = DV_Structure p'" "?n = DV_Structure n'" using p n by metis
    have inner: "fill_changed_fields ?p ?n (inner_fields f) 0 0 False
        (done @ replicate (length (bits_of (f # fs))) False @ rest) (Suc (length done)) =
        (True \<in> set ?ds, (done @ [False]) @ ?ds @ replicate (length (bits_of fs)) False @ rest,
         Suc (length done) + length (bits_of (inner_fields f)))"
      using Cons.IH(2) [of "h - 1" "inner_fields (the (field_named (fd_name f) gs))" p' n' 0 0 False
          "done @ [False]" "replicate (length (bits_of fs)) False @ rest"] p n
      by (simp add: pn bits_of_inner replicate_add del: bits_of_simps(2))
    note onward = Cons.IH(1) [OF Cons.prems(1,2) fs, of ph1 nh1 "any \<or> True \<in> set ?ds" "done @ [False] @ ?ds" rest]
    show ?thesis
      unfolding fill_structure [OF False ph1 nh1] inner using onward False
      by (simp add: bits_of_inner ac_simps del: bits_of_simps(2))
  qed
qed

section \<open>Selected values\<close>

definition delta_writes :: "bool \<Rightarrow> (string \<times> decoded_value) list \<Rightarrow> field_desc list \<Rightarrow> bool list \<Rightarrow> nat
    \<Rightarrow> bytes \<Rightarrow> bool" where
  "delta_writes be ns fs bits idx b \<longleftrightarrow>
     (\<forall>out hint. encode_values_fields (DV_Structure ns) fs bits hint idx be out =
       (out @ b, idx + length (bits_of fs)))"

lemma encode_structure:
  assumes "\<not> is_leaf f" "field_of dn (fd_name f) nh = (Some n, nh1)"
  shows "encode_values_fields dn (f # fs) bits nh idx be out =
    (case encode_values_fields n (inner_fields f) bits 0 (Suc idx) be out of
       (out, idx) \<Rightarrow> encode_values_fields dn fs bits nh1 idx be out)"
proof -
  obtain d where "fd_type f = FT_Structure d" "sd_fields d = inner_fields f" using assms(1) not_leaf by blast
  with assms show ?thesis by (simp add: or_empty_def Let_def)
qed

lemma delta_writes_leaf:
  assumes "values_of be L h gs ns" "narrows (f # fs) gs" "is_leaf f" "delta_writes be ns fs bits (Suc idx) b2"
    and "\<forall>out. push_decoded_value out (value_at ns f) be = out @ b1"
  shows "delta_writes be ns (f # fs) bits idx (if bits ! idx then b1 @ b2 else b2)"
  unfolding delta_writes_def
proof (intro allI)
  fix out hint
  obtain hint' where look: "field_of (DV_Structure ns) (fd_name f) hint = (Some (value_at ns f), hint')"
    using values_of_lookup [OF assms(1,2)] .
  show "encode_values_fields (DV_Structure ns) (f # fs) bits hint idx be out =
      (out @ (if bits ! idx then b1 @ b2 else b2), idx + length (bits_of (f # fs)))"
    unfolding encode_leaf [OF assms(3) [unfolded is_leaf_def] look] bits_of_inner leaf_inner [OF assms(3)]
    using assms(4,5) by (simp add: delta_writes_def)
qed

lemma delta_writes_structure:
  assumes "values_of be L h gs ns" "narrows (f # fs) gs" "\<not> is_leaf f" "value_at ns f = DV_Structure ws"
    and "delta_writes be ws (inner_fields f) bits (Suc idx) b1"
    and "delta_writes be ns fs bits (Suc idx + length (bits_of (inner_fields f))) b2"
  shows "delta_writes be ns (f # fs) bits idx (b1 @ b2)"
  unfolding delta_writes_def
proof (intro allI)
  fix out hint
  obtain hint' where look: "field_of (DV_Structure ns) (fd_name f) hint = (Some (value_at ns f), hint')"
    using values_of_lookup [OF assms(1,2)] .
  show "encode_values_fields (DV_Structure ns) (f # fs) bits hint idx be out =
      (out @ b1 @ b2, idx + length (bits_of (f # fs)))"
    unfolding encode_structure [OF assms(3) look] assms(4)
    using assms(5,6) by (simp add: delta_writes_def bits_of_inner del: bits_of_simps(2))
qed

lemma any_bit_iff:
  assumes "\<And>i. bit_set B i \<longleftrightarrow> i < length (pre @ ds @ post) \<and> (pre @ ds @ post) ! i"
  shows "any_bit B (length pre) (length ds) \<longleftrightarrow> True \<in> set ds"
  by (auto simp: any_bit_def assms nth_append in_set_conv_nth)

lemma wire_delta_nothing: "wire_delta be L B h n fs bo vs bs \<Longrightarrow> vs = [] \<Longrightarrow> bs = []"
  by (induction rule: wire_delta.induct) simp_all

text \<open>The bytes the encoder writes for the set bits are a wire form of the selected values.\<close>

lemma delta_wire:
  assumes "values_of be L h gs ps" "values_of be L h gs ns" "narrows fs gs" "plain_fields fs"
    and "\<And>i. bit_set B i \<longleftrightarrow> i < length bits \<and> bits ! i"
    and "bits = pre @ delta_bits fs ps ns @ post"
  shows "\<exists>b. delta_writes be ns fs bits (length pre) b \<and>
    wire_delta be L B h 0 fs (length pre) (delta_vals fs ps ns) b"
  using assms(1-4,6)
proof (induction fs arbitrary: h gs ps ns pre post rule: inner_induct)
  case Nil
  have "delta_writes be ns [] bits (length pre) []" by (simp add: delta_writes_def)
  then show ?case by (auto intro: d_nil)
next
  case (Cons f fs)
  let ?p = "value_at ps f" and ?n = "value_at ns f"
  let ?ds = "delta_bits (inner_fields f) (fields_of ?p) (fields_of ?n)"
  let ?own = "is_leaf f \<and> \<not> decoded_values_equal ?p ?n"
  have bits: "bits = (pre @ ?own # ?ds) @ delta_bits fs ps ns @ post" using Cons.prems(5) by simp
  have fs: "narrows fs gs" "plain_fields fs" using Cons.prems(3,4) by simp_all
  from Cons.IH(1) [OF Cons.prems(1,2) fs bits] obtain b2 where
    b2: "delta_writes be ns fs bits (Suc (length pre) + length (bits_of (inner_fields f))) b2"
      "wire_delta be L B h 0 fs (Suc (length pre) + length (bits_of (inner_fields f))) (delta_vals fs ps ns) b2"
    by auto
  have own: "bits ! length pre = ?own" "bit_set B (length pre) = ?own"
    unfolding assms(5) bits by (simp_all add: nth_append)
  show ?case
  proof (cases "is_leaf f")
    case True
    obtain k b1 where "wire_value be L h k (fd_type f) ?n b1"
      using values_of_field(2) [OF Cons.prems(2,3) True] by blast
    moreover have "plain_leaf (fd_type f)" using Cons.prems(4) True by simp
    ultimately have b1: "wire_value be L h 0 (fd_type f) ?n b1" "\<forall>out. push_decoded_value out ?n be = out @ b1"
      using plain_wire by blast+
    have w: "delta_writes be ns (f # fs) bits (length pre) (if bits ! length pre then b1 @ b2 else b2)"
      using b2(1) True by (intro delta_writes_leaf [OF Cons.prems(2,3) True _ b1(2)]) simp
    show ?thesis
    proof (cases "decoded_values_equal ?p ?n")
      case True
      then have "wire_delta be L B h 0 (f # fs) (length pre) (delta_vals (f # fs) ps ns) b2"
        using d_skip [of f B "length pre" be L h 0 fs "delta_vals fs ps ns" b2] \<open>is_leaf f\<close> own b2(2)
        by (simp add: is_leaf_def)
      with w own True show ?thesis by auto
    next
      case False
      then have "wire_delta be L B h 0 (f # fs) (length pre) (delta_vals (f # fs) ps ns) (b1 @ b2)"
        using d_leaf [of f B "length pre" be L h 0 ?n b1 0 fs "delta_vals fs ps ns" b2] \<open>is_leaf f\<close> own b2(2) b1(1)
        by (simp add: is_leaf_def)
      with w own False \<open>is_leaf f\<close> show ?thesis by auto
    qed
  next
    case False
    note p = values_of_field(3) [OF Cons.prems(1,3) False] and n = values_of_field(3) [OF Cons.prems(2,3) False]
    obtain ps' ns' where pn: "?p = DV_Structure ps'" "?n = DV_Structure ns'" using p n by metis
    obtain d where d: "fd_type f = FT_Structure d" "sd_fields d = inner_fields f" using False not_leaf by blast
    let ?ws = "delta_vals (inner_fields f) ps' ns'"
    have in_bits: "bits = (pre @ [False]) @ delta_bits (inner_fields f) ps' ns' @ delta_bits fs ps ns @ post"
      using Cons.prems(5) False by (simp add: pn)
    have "plain_fields (inner_fields f)" "inner_fields f \<noteq> []" using Cons.prems(4) False by simp_all
    with Cons.IH(2) [of "h - 1" _ ps' ns' "pre @ [False]", OF _ _ _ _ in_bits] p n obtain b1 where
      b1: "delta_writes be ns' (inner_fields f) bits (Suc (length pre)) b1"
        "wire_delta be L B (h - 1) 0 (inner_fields f) (Suc (length pre)) ?ws b1"
      unfolding pn fields_of_simps by fastforce
    have w: "delta_writes be ns (f # fs) bits (length pre) (b1 @ b2)"
      by (rule delta_writes_structure [OF Cons.prems(2,3) False pn(2) b1(1) b2(1)])
    have count: "count_structure_fields d = length (bits_of (inner_fields f))"
      by (simp add: length_bits_of_nested flip: d(2))
    have any: "any_bit B (Suc (length pre)) (count_structure_fields d) \<longleftrightarrow> ?ws \<noteq> []"
      using any_bit_iff [of B "pre @ [False]" "delta_bits (inner_fields f) ps' ns'" "delta_bits fs ps ns @ post",
          folded in_bits, OF assms(5)]
      by (simp add: count delta_vals_Nil)
    show ?thesis
    proof (cases "?ws = []")
      case True
      have "b1 = []" by (rule wire_delta_nothing [OF b1(2) True])
      then have "wire_delta be L B h 0 (f # fs) (length pre) (delta_vals (f # fs) ps ns) (b1 @ b2)"
        using d_none [of f d B "length pre" be L h 0 fs "delta_vals fs ps ns" b2] True any own b2(2) False
        by (simp add: d as_structure_simps count pn)
      with w show ?thesis by auto
    next
      case False
      then have "wire_delta be L B h (0 + 0) (f # fs) (length pre)
          ((fd_name f, DV_Structure ?ws) # delta_vals fs ps ns) (b1 @ b2)"
        using any b1(2) b2(2) by (intro d_part [where d = d and ?h1.0 = "h - 1"]) (simp_all add: d as_structure_simps count)
      with w False \<open>\<not> is_leaf f\<close> show ?thesis by (auto simp: pn Let_def)
    qed
  qed
qed

end
