(* ===== verification/Delta_Merge.thy ===== *)
theory Delta_Merge
  imports Delta_Wire
begin

text \<open>
  From one end of a subscription to the other: the server encodes what changed between two
  payloads, the client decodes the update and merges it into the value it had.
\<close>

section \<open>Merging the selected values\<close>

lemma seg_fields_under: "seg_fields fs (n # pre) = map ((#) n) (seg_fields fs pre)"
  by (induction fs arbitrary: pre rule: inner_induct) simp_all

lemma put_field_append:
  "n \<notin> fst ` set xs \<Longrightarrow> put_field n upd fresh (xs @ (n, c) # ys) = xs @ (n, upd c) # ys"
  by (induction xs) auto

lemma flagged_map: "flagged on k (map g qs) = map (apsnd g) (flagged on k qs)"
  by (induction qs arbitrary: k) simp_all

lemma borrow_nested:
  assumes "n \<notin> fst ` set xs" "map_of vfs n = Some w" "\<And>b. b \<in> set bs \<Longrightarrow> snd b \<noteq> []"
  shows "fold (borrow (DV_Structure vfs)) (map (apsnd ((#) n)) bs) (DV_Structure (xs @ (n, c) # ys)) =
    DV_Structure (xs @ (n, fold (borrow w) bs c) # ys)"
  using assms(3)
proof (induction bs arbitrary: c)
  case (Cons b bs)
  obtain on q where b: "b = (on, q)" by (cases b)
  have "borrow (DV_Structure vfs) (on, n # q) (DV_Structure (xs @ (n, c) # ys)) =
      DV_Structure (xs @ (n, borrow w (on, q) c) # ys)"
    using Cons.prems [of b] assms(1,2) put_field_append [OF assms(1)]
    by (auto simp: b borrow_step_def split: option.split)
  with Cons show ?case by (simp add: b)
qed simp

lemma borrow_missing:
  assumes "map_of vfs n = None"
  shows "fold (borrow (DV_Structure vfs)) (map (apsnd ((#) n)) bs) t = t"
proof (induction bs)
  case (Cons b bs)
  then show ?case using assms by (cases b) (simp add: borrow_step_def)
qed simp

lemma patched_unchanged:
  "values_of be L h gs ps \<Longrightarrow> values_of be L h gs ns \<Longrightarrow> narrows fs gs \<Longrightarrow> True \<notin> set (delta_bits fs ps ns) \<Longrightarrow>
   patched fs ps ns = project_fields ps fs"
proof (induction fs arbitrary: h gs ps ns rule: inner_induct)
  case (Cons f fs)
  have at: "map_of ps (fd_name f) = Some (value_at ps f)" by (rule values_of_field(1) [OF Cons.prems(1,3)])
  have tail: "patched fs ps ns = project_fields ps fs"
    using Cons.IH(1) [OF Cons.prems(1,2)] Cons.prems(3,4) by simp
  show ?case
  proof (cases "is_leaf f")
    case True
    with project_fields_found [OF at, of _ fs] tail Cons.prems(4) show ?thesis by (simp add: Let_def)
  next
    case False
    note p = values_of_field(3) [OF Cons.prems(1,3) False] and n = values_of_field(3) [OF Cons.prems(2,3) False]
    obtain ps' ns' where pn: "value_at ps f = DV_Structure ps'" "value_at ns f = DV_Structure ns'" using p n by metis
    have "patched (inner_fields f) ps' ns' = project_fields ps' (inner_fields f)"
      using Cons.IH(2) [of "h - 1" "inner_fields (the (field_named (fd_name f) gs))" ps' ns'] p n Cons.prems(4)
      by (simp add: pn)
    with project_fields_found [OF at, of ps' fs] tail False show ?thesis by (simp add: pn Let_def)
  qed
qed simp

lemma merge_delta:
  assumes "values_of be L h gs ps" "values_of be L h gs ns" "narrows fs gs" "names_ok fs"
    and "\<And>f. f \<in> set fs \<Longrightarrow> map_of vfs (fd_name f) = map_of (delta_vals fs ps ns) (fd_name f)"
    and "\<And>i. i < length (delta_bits fs ps ns) \<Longrightarrow> on (k + i) = delta_bits fs ps ns ! i"
    and "fst ` set xs \<inter> fd_name ` set fs = {}"
  shows "fold (borrow (DV_Structure vfs)) (flagged on k (seg_fields fs [])) (DV_Structure (xs @ project_fields ps fs)) =
    DV_Structure (xs @ patched fs ps ns)"
  using assms
proof (induction fs arbitrary: h gs ps ns vfs k xs rule: inner_induct)
  case Nil
  then show ?case by simp
next
  case (Cons f fs)
  let ?p = "value_at ps f" and ?n = "value_at ns f" and ?name = "fd_name f" and ?in = "inner_fields f"
  let ?k = "Suc k + length (seg_fields (inner_fields f) [fd_name f])"
  let ?ds = "delta_bits ?in (fields_of ?p) (fields_of ?n)"
  have at: "map_of ps ?name = Some ?p" by (rule values_of_field(1) [OF Cons.prems(1,3)])
  have new: "?name \<notin> fst ` set xs" "?name \<notin> fd_name ` set fs" using Cons.prems(4,7) by auto
  have own: "on k = (is_leaf f \<and> \<not> decoded_values_equal ?p ?n)" using Cons.prems(6) [of 0] by simp
  have below: "on (Suc k + i) = ?ds ! i" if "i < length ?ds" for i
    using Cons.prems(6) [of "Suc i"] that by (simp add: nth_append)
  have after: "on (?k + i) = delta_bits fs ps ns ! i" if "i < length (delta_bits fs ps ns)" for i
    using Cons.prems(6) [of "Suc (length ?ds + i)"] that by (simp add: nth_append add.assoc)
  have vf: "map_of vfs ?name = map_of (delta_vals (f # fs) ps ns) ?name" using Cons.prems(5) by simp
  have not_later: "map_of (delta_vals fs ps ns) ?name = None"
    using delta_vals_names [of fs ps ns] new(2) by (auto simp: map_of_eq_None_iff)
  have rest: "map_of vfs (fd_name g) = map_of (delta_vals fs ps ns) (fd_name g)" if "g \<in> set fs" for g
  proof -
    have "fd_name g \<noteq> ?name" using that new(2) by (metis image_eqI)
    then show ?thesis using Cons.prems(5) [of g] that by (simp add: Let_def)
  qed
  obtain v v' where v: "project_fields ps (f # fs) = (?name, v) # project_fields ps fs"
      "patched (f # fs) ps ns = (?name, v') # patched fs ps ns"
    and step: "fold (borrow (DV_Structure vfs)) (flagged on k ([?name] # seg_fields ?in [?name]))
        (DV_Structure (xs @ (?name, v) # project_fields ps fs)) = DV_Structure (xs @ (?name, v') # project_fields ps fs)"
  proof (cases "is_leaf f")
    case True
    let ?v' = "if decoded_values_equal ?p ?n then ?p else ?n"
    have "fold (borrow (DV_Structure vfs)) (flagged on k ([?name] # seg_fields ?in [?name]))
        (DV_Structure (xs @ (?name, ?p) # project_fields ps fs)) = DV_Structure (xs @ (?name, ?v') # project_fields ps fs)"
      using True own vf not_later put_field_append [OF new(1)] by (simp add: borrow_step_def Let_def)
    with True project_fields_found [OF at, of _ fs] show ?thesis
      by (intro that [of ?p ?v']) (simp_all add: Let_def)
  next
    case False
    note p = values_of_field(3) [OF Cons.prems(1,3) False] and n = values_of_field(3) [OF Cons.prems(2,3) False]
    obtain ps' ns' where pn: "?p = DV_Structure ps'" "?n = DV_Structure ns'" using p n by metis
    let ?ws = "delta_vals ?in ps' ns'" and ?c = "DV_Structure (project_fields ps' ?in)"
    let ?bs = "flagged on (Suc k) (seg_fields ?in [])"
    have "fold (borrow (DV_Structure vfs)) (map (apsnd ((#) ?name)) ?bs)
        (DV_Structure (xs @ (?name, ?c) # project_fields ps fs)) =
      DV_Structure (xs @ (?name, DV_Structure (patched ?in ps' ns')) # project_fields ps fs)"
    proof (cases "?ws = []")
      case True
      then have "map_of vfs ?name = None" using vf not_later False by (simp add: pn)
      moreover have "patched ?in ps' ns' = project_fields ps' ?in"
        using patched_unchanged [of be L "h - 1" _ ps' ns' ?in] p n True by (simp add: pn delta_vals_Nil)
      ultimately show ?thesis by (simp add: borrow_missing)
    next
      case ws: False
      have "map_of vfs ?name = Some (DV_Structure ?ws)" using vf False ws by (simp add: pn)
      moreover have "snd b \<noteq> []" if "b \<in> set ?bs" for b
        using seg_fields_ok [OF _ _ snd_flagged [OF that]] Cons.prems(4) by (simp add: path_ok_def)
      moreover have "fold (borrow (DV_Structure ?ws)) ?bs (DV_Structure ([] @ project_fields ps' ?in)) =
          DV_Structure ([] @ patched ?in ps' ns')"
        using p n below Cons.prems(4) unfolding pn fields_of_simps
        by (intro Cons.IH(2) [of "h - 1" "inner_fields (the (field_named (fd_name f) gs))"]) simp_all
      ultimately show ?thesis using borrow_nested [OF new(1)] by simp
    qed
    moreover have "\<not> on k" using own False by simp
    ultimately show ?thesis
      using False project_fields_found [OF at, of ps' fs]
      by (intro that [of ?c "DV_Structure (patched ?in ps' ns')"])
        (simp_all add: pn Let_def borrow_step_def seg_fields_under flagged_map)
  qed
  have "fold (borrow (DV_Structure vfs)) (flagged on ?k (seg_fields fs []))
      (DV_Structure ((xs @ [(?name, v')]) @ project_fields ps fs)) = DV_Structure ((xs @ [(?name, v')]) @ patched fs ps ns)"
    using Cons.prems(3,4,7) new(2) rest after
    by (intro Cons.IH(1) [OF Cons.prems(1,2)]) auto
  with v step show ?case by simp
qed

end
