(* ===== verification/Subscription.thy ===== *)
theory Subscription
  imports Delta_Merge
begin

text \<open>
  A subscription end to end: the narrowed full value a client decodes first, and the deltas it
  decodes and merges afterwards.
\<close>

section \<open>Bitsets of flags\<close>

lemma length_set_bit [simp]: "length (set_bit_byte B i) = length B"
  by (simp add: set_bit_byte_def)

lemma bit_set_set_bit:
  "j div 8 < length B \<Longrightarrow> bit_set (set_bit_byte B j) i \<longleftrightarrow> i = j \<or> bit_set B i"
proof (cases "i div 8 = j div 8")
  case True
  assume "j div 8 < length B"
  moreover have "i mod 8 = j mod 8 \<longleftrightarrow> i = j" using True by (metis mod_div_decomp)
  moreover have "bit (push_bit (j mod 8) 1 :: byte) (i mod 8) \<longleftrightarrow> i mod 8 = j mod 8"
    by (auto simp: bit_push_bit_iff bit_exp_iff possible_bit_word)
  ultimately show ?thesis using True by (auto simp: bit_set_iff set_bit_byte_def bit_or_iff)
next
  case False
  then show ?thesis by (auto simp: bit_set_iff set_bit_byte_def nth_list_update)
qed

lemma bit_set_fold:
  "k + length flags \<le> 8 * length B \<Longrightarrow>
   length (fold (\<lambda>(i, b) bs. if b then set_bit_byte bs i else bs) (enumerate k flags) B) = length B \<and>
   (bit_set (fold (\<lambda>(i, b) bs. if b then set_bit_byte bs i else bs) (enumerate k flags) B) i \<longleftrightarrow>
      bit_set B i \<or> (k \<le> i \<and> i < k + length flags \<and> flags ! (i - k)))"
proof (induction flags arbitrary: k B)
  case (Cons b flags)
  let ?B = "if b then set_bit_byte B k else B"
  have "k div 8 < length B" using Cons.prems by simp
  then have "bit_set ?B i \<longleftrightarrow> bit_set B i \<or> (b \<and> i = k)" by (auto simp: bit_set_set_bit)
  moreover have "length ?B = length B" by simp
  ultimately show ?case
    using Cons.IH [of "Suc k" ?B] Cons.prems
    by (auto simp: nth_Cons' not_less_eq_eq le_Suc_eq)
qed auto

lemma bitset_of_flags_bits: "bit_set (bitset_of_flags bits) i \<longleftrightarrow> i < length bits \<and> bits ! i"
  and length_bitset_of_flags: "length (bitset_of_flags bits) = (length bits + 7) div 8"
proof -
  have room: "0 + length bits \<le> 8 * length (replicate ((length bits + 7) div 8) (0 :: byte))" by simp
  have "\<not> bit_set (replicate n 0) i" for n by (simp add: bit_set_iff)
  with bit_set_fold [OF room, of i]
  show "bit_set (bitset_of_flags bits) i \<longleftrightarrow> i < length bits \<and> bits ! i" by (simp add: bitset_of_flags_def)
  show "length (bitset_of_flags bits) = (length bits + 7) div 8"
    using bit_set_fold [OF room, of 0] by (simp add: bitset_of_flags_def)
qed

section \<open>Values that count as equal\<close>

lemma decoded_values_equal_refl: "decoded_values_equal v v"
proof (induction v)
  case (DV_Array vs)
  then show ?case by (auto intro: list.rel_refl_strong)
next
  case (DV_Structure fs)
  then show ?case by (auto intro!: list.rel_refl_strong simp: split_beta)
qed (auto simp: f32_same_def f64_same_def f32_eq_def f64_eq_def decoded_values_equal.simps [of "DV_Raw _"])

lemma patched_equal:
  "values_of be L h gs ps \<Longrightarrow> values_of be L h gs ns \<Longrightarrow> narrows fs gs \<Longrightarrow>
   decoded_values_equal (DV_Structure (patched fs ps ns)) (DV_Structure (project_fields ns fs))"
proof (induction fs arbitrary: h gs ps ns rule: inner_induct)
  case (Cons f fs)
  have at: "map_of ns (fd_name f) = Some (value_at ns f)" by (rule values_of_field(1) [OF Cons.prems(2,3)])
  have tail: "decoded_values_equal (DV_Structure (patched fs ps ns)) (DV_Structure (project_fields ns fs))"
    using Cons.IH(1) [OF Cons.prems(1,2)] Cons.prems(3) by simp
  show ?case
  proof (cases "is_leaf f")
    case True
    with project_fields_found [OF at, of _ fs] tail show ?thesis by (simp add: Let_def decoded_values_equal_refl)
  next
    case False
    note p = values_of_field(3) [OF Cons.prems(1,3) False] and n = values_of_field(3) [OF Cons.prems(2,3) False]
    obtain ps' ns' where pn: "value_at ps f = DV_Structure ps'" "value_at ns f = DV_Structure ns'" using p n by metis
    have "decoded_values_equal (DV_Structure (patched (inner_fields f) ps' ns'))
        (DV_Structure (project_fields ns' (inner_fields f)))"
      using Cons.IH(2) [of "h - 1" "inner_fields (the (field_named (fd_name f) gs))" ps' ns'] p n by (simp add: pn)
    with project_fields_found [OF at, of ns' fs] tail False show ?thesis by (simp add: pn Let_def)
  qed
qed simp

section \<open>Descriptors narrowed by a request\<close>

lemma field_named_self: "distinct (map fd_name gs) \<Longrightarrow> f \<in> set gs \<Longrightarrow> field_named (fd_name f) gs = Some f"
  by (induction gs) (auto simp: field_named_def)

lemma narrows_append: "narrows (as @ bs) gs \<longleftrightarrow> narrows as gs \<and> narrows bs gs"
  by (induction as) auto

lemma narrows_subset: "set fs \<subseteq> set gs \<Longrightarrow> names_ok gs \<Longrightarrow> narrows fs gs"
proof (induction fs arbitrary: gs rule: inner_induct)
  case (Cons f fs)
  then have "field_named (fd_name f) gs = Some f" by (simp add: field_named_self names_ok_distinct)
  with Cons names_ok_inner [of gs f] show ?case by auto
qed simp

lemma names_ok_append:
  "names_ok (as @ bs) \<longleftrightarrow> names_ok as \<and> names_ok bs \<and> fd_name ` set as \<inter> fd_name ` set bs = {}"
  by (induction as) auto

lemma plain_fields_append: "plain_fields (as @ bs) \<longleftrightarrow> plain_fields as \<and> plain_fields bs"
  by (induction as) auto

lemma plain_fields_inner: "plain_fields fs \<Longrightarrow> f \<in> set fs \<Longrightarrow>
    plain_fields (inner_fields f) \<and> (if is_leaf f then plain_leaf (fd_type f) else inner_fields f \<noteq> [])"
  by (induction fs) auto

definition fine :: "field_desc list \<Rightarrow> bool" where
  "fine fs \<longleftrightarrow> names_ok fs \<and> plain_fields fs"

lemma prune_field_fine:
  assumes f: "f \<in> set gs" "fine gs"
    and IH: "\<And>d c. fd_type f = FT_Structure d \<Longrightarrow> fine (sd_fields d) \<Longrightarrow>
      fine (sd_fields (prune_structure d c)) \<and> narrows (sd_fields (prune_structure d c)) (sd_fields d)"
  shows "fine (prune_field t f) \<and> narrows (prune_field t f) gs \<and> set (map fd_name (prune_field t f)) \<subseteq> {fd_name f}"
proof -
  have named: "field_named (fd_name f) gs = Some f"
    using f by (simp add: fine_def field_named_self names_ok_distinct)
  have self: "fine [f]" "narrows [f] gs"
  proof -
    have "names_ok [f]" using f by (induction gs) (auto simp: fine_def)
    moreover have "plain_fields [f]" using plain_fields_inner [of gs f] f by (simp add: fine_def)
    ultimately show "fine [f]" by (simp add: fine_def)
    show "narrows [f] gs" using narrows_subset [of "[f]" gs] f by (simp add: fine_def)
  qed
  show ?thesis
  proof (cases "\<exists>c d. child t (fd_name f) = Some c \<and> \<not> select_all c \<and> fd_type f = FT_Structure d")
    case True
    then obtain c d where c: "child t (fd_name f) = Some c" "\<not> select_all c" and d: "fd_type f = FT_Structure d" by blast
    have inner: "inner_fields f = sd_fields d" "\<not> is_leaf f" using d by (simp_all add: inner_fields_def is_leaf_def as_structure_def)
    have "fine (sd_fields d)" using self(1) by (simp add: fine_def inner)
    from IH [OF d this, of c] have pr: "fine (sd_fields (prune_structure d c))"
      "narrows (sd_fields (prune_structure d c)) (sd_fields d)" by simp_all
    let ?g = "FieldDesc (fd_name f) (FT_Structure (prune_structure d c))"
    have g: "inner_fields ?g = sd_fields (prune_structure d c)" "\<not> is_leaf ?g"
      by (simp_all add: inner_fields_def is_leaf_def as_structure_def)
    show ?thesis
    proof (cases "sd_fields (prune_structure d c) = []")
      case True
      then show ?thesis using c d by (simp add: prune_field_def fine_def)
    next
      case False
      then have "prune_field t f = [?g]" using c d by (simp add: prune_field_def)
      moreover have "fine [?g]" using pr(1) self(1) False by (simp add: fine_def g)
      moreover have "narrows [?g] gs" using pr(2) named inner g by simp
      ultimately show ?thesis by simp
    qed
  next
    case False
    have "plain_leaf (fd_type f)" if "is_leaf f" using plain_fields_inner [of gs f] f that by (simp add: fine_def)
    then have "prune_field t f \<in> {[], [f]}"
      using False by (auto simp: prune_field_def is_leaf_def as_structure_def plain_leaf_def
          split: option.splits field_type.splits)
    with self show ?thesis by (auto simp: fine_def)
  qed
qed

lemma singleton_apart: "A \<subseteq> {x} \<Longrightarrow> B \<subseteq> C \<Longrightarrow> x \<notin> C \<Longrightarrow> A \<inter> B = {}"
  by blast

lemma singleton_insert: "A \<subseteq> {x} \<Longrightarrow> B \<subseteq> C \<Longrightarrow> A \<union> B \<subseteq> insert x C"
  by blast

lemma prune_fine:
  "fine (sd_fields d) \<Longrightarrow>
   fine (sd_fields (prune_structure d t)) \<and> narrows (sd_fields (prune_structure d t)) (sd_fields d)"
proof (induction d arbitrary: t rule: measure_induct_rule [of size])
  case (less d)
  show ?case
  proof (cases "select_all t")
    case True
    then show ?thesis using less.prems by (simp add: prune_structure_eq narrows_subset fine_def)
  next
    case False
    have "fine (concat (map (prune_field t) fs)) \<and> narrows (concat (map (prune_field t) fs)) (sd_fields d) \<and>
        fd_name ` set (concat (map (prune_field t) fs)) \<subseteq> fd_name ` set fs"
      if "set fs \<subseteq> set (sd_fields d)" "names_ok fs" for fs
      using that
    proof (induction fs)
      case (Cons f fs)
      have f: "f \<in> set (sd_fields d)" using Cons.prems by simp
      have one: "fine (prune_field t f) \<and> narrows (prune_field t f) (sd_fields d) \<and>
          set (map fd_name (prune_field t f)) \<subseteq> {fd_name f}"
      proof (rule prune_field_fine [OF f less.prems])
        show "fine (sd_fields (prune_structure d' c)) \<and> narrows (sd_fields (prune_structure d' c)) (sd_fields d')"
          if "fd_type f = FT_Structure d'" "fine (sd_fields d')" for d' c
          by (rule less.IH [OF size_field_nested [OF f disjI1 [OF that(1)]] that(2)])
      qed
      have rest: "fine (concat (map (prune_field t) fs)) \<and> narrows (concat (map (prune_field t) fs)) (sd_fields d) \<and>
          fd_name ` set (concat (map (prune_field t) fs)) \<subseteq> fd_name ` set fs"
        using Cons by simp
      note names = one [THEN conjunct2, THEN conjunct2, unfolded set_map] rest [THEN conjunct2, THEN conjunct2]
      have "fd_name f \<notin> fd_name ` set fs" using Cons.prems(2) by simp
      then have "fd_name ` set (prune_field t f) \<inter> fd_name ` set (concat (map (prune_field t) fs)) = {}"
        by (rule singleton_apart [OF names])
      moreover have "fd_name ` (set (prune_field t f) \<union> set (concat (map (prune_field t) fs))) \<subseteq>
          insert (fd_name f) (fd_name ` set fs)"
        unfolding image_Un by (rule singleton_insert [OF names])
      ultimately show ?case
        using one rest unfolding fine_def
        by (simp add: narrows_append names_ok_append plain_fields_append del: set_concat)
    qed (simp add: fine_def)
    from this [of "sd_fields d"] less.prems False show ?thesis
      by (simp add: prune_structure_eq fine_def)
  qed
qed

lemma filter_fine:
  assumes "fine (sd_fields d)"
  shows "fine (sd_fields (filter_structure_desc d requested))"
    and "narrows (sd_fields (filter_structure_desc d requested)) (sd_fields d)"
  using prune_fine [OF assms] narrows_subset [of "sd_fields d" "sd_fields d"] assms
  by (simp_all add: filter_structure_desc_def fine_def)

section \<open>The first value of a subscription\<close>

lemma structure_desc_equal_plain:
  "structure_desc_equal a b \<Longrightarrow> plain_fields (sd_fields a) \<Longrightarrow> a = b"
  "field_type_equal s t \<Longrightarrow> (case s of FT_Structure d \<Rightarrow> plain_fields (sd_fields d) | _ \<Rightarrow> plain_leaf s) \<Longrightarrow> s = t"
proof (induction a b and s t rule: structure_desc_equal_field_type_equal.induct)
  case (1 a b)
  have eq: "struct_id a = struct_id b" "length (sd_fields a) = length (sd_fields b)"
      "\<forall>(x, y) \<in> set (zip (sd_fields a) (sd_fields b)). fd_name x = fd_name y \<and> field_type_equal (fd_type x) (fd_type y)"
    using "1.prems"(1) by (auto simp: structure_desc_equal.simps [of a] list_all_iff split: if_splits)
  have "sd_fields a ! i = sd_fields b ! i" if i: "i < length (sd_fields a)" for i
  proof -
    let ?x = "sd_fields a ! i" and ?y = "sd_fields b ! i"
    have zip: "(?x, ?y) \<in> set (zip (sd_fields a) (sd_fields b))" using i eq(2) by (auto simp: in_set_zip)
    have x: "?x \<in> set (sd_fields a)" using i by simp
    have "fd_type ?x = fd_type ?y"
      using "1.IH" [OF _ _ zip refl] eq zip plain_fields_inner [OF "1.prems"(2) x]
      by (auto simp: is_leaf_def as_structure_def inner_fields_def split: field_type.splits)
    with eq(3) zip show ?thesis by (cases ?x; cases ?y) auto
  qed
  then have "sd_fields a = sd_fields b" using eq(2) by (rule nth_equalityI [rotated])
  with eq(1) show ?case by (cases a; cases b) simp
next
  case (2 s t)
  show ?case
  proof (cases s)
    case (FT_Structure d)
    with "2.prems"(1) obtain e where e: "t = FT_Structure e" "structure_desc_equal d e"
      by (auto simp: field_type_equal.simps [of "FT_Structure d"] split: field_type.splits)
    with "2.IH"(1) [OF FT_Structure e(1)] "2.prems"(2) FT_Structure show ?thesis by simp
  qed (use "2.prems" in \<open>auto simp: field_type_equal.simps [of _ t] plain_leaf_def split: field_type.splits\<close>)
qed

lemma plain_wire_fields: "plain_fields fs \<Longrightarrow> wire_fields be L h n fs vs b \<Longrightarrow> n = 0"
proof (induction fs arbitrary: h n vs b rule: inner_induct)
  case (Cons f fs)
  from Cons.prems(2) obtain n1 v b1 m ws b2 where
      f: "wire_value be L h n1 (fd_type f) v b1" "wire_fields be L h m fs ws b2" "n = n1 + m"
    by (rule wire_fields_ConsE) auto
  have "n1 = 0"
  proof (cases "is_leaf f")
    case True
    with f(1) Cons.prems(1) plain_wire show ?thesis by auto
  next
    case False
    then obtain d where "fd_type f = FT_Structure d" "sd_fields d = inner_fields f" using not_leaf by blast
    with f(1) Cons show ?thesis by (auto elim!: wire_structE)
  qed
  with f Cons show ?case by auto
qed (simp add: wire_fields_Nil_iff)

lemma project_same:
  "wire_fields be L h n fs ws b \<Longrightarrow> names_ok fs \<Longrightarrow>
   (\<And>f. f \<in> set fs \<Longrightarrow> map_of vs (fd_name f) = map_of ws (fd_name f)) \<Longrightarrow> project_fields vs fs = ws"
proof (induction fs arbitrary: h n vs ws b rule: inner_induct)
  case (Cons f fs)
  from Cons.prems(1) obtain n1 v b1 m us b2 where
      f: "wire_value be L h n1 (fd_type f) v b1" "wire_fields be L h m fs us b2" "ws = (fd_name f, v) # us"
    by (rule wire_fields_ConsE) auto
  have at: "map_of vs (fd_name f) = Some v" using Cons.prems(3) [of f] f(3) by simp
  have "fd_name g \<noteq> fd_name f" if "g \<in> set fs" for g using that Cons.prems(2) by (simp, metis image_eqI)
  then have tail: "project_fields vs fs = us"
    using Cons.IH(1) [OF f(2)] Cons.prems(2,3) f(3) by simp
  show ?case
  proof (cases "is_leaf f")
    case True
    with project_fields_found [OF at, of _ fs] tail f(3) show ?thesis by simp
  next
    case False
    then obtain d where "fd_type f = FT_Structure d" "sd_fields d = inner_fields f" using not_leaf by blast
    with f(1) obtain us' where us': "v = DV_Structure us'" "wire_fields be L (h - 1) n1 (inner_fields f) us' b1"
      by (auto elim!: wire_structE)
    have "project_fields us' (inner_fields f) = us'" using Cons.IH(2) [OF us'(2)] Cons.prems(2) by simp
    with project_fields_found [OF at, of us' fs] tail f(3) us'(1) False show ?thesis by simp
  qed
qed (simp add: wire_fields_Nil_iff)

text \<open>A payload that fits the decoder's limits, whose leaves are plain and whose names are
  unambiguous.\<close>

definition servable :: "decode_limits \<Rightarrow> nt_payload \<Rightarrow> bool" where
  "servable L p \<longleftrightarrow> 4 \<le> max_depth L \<and> 7 \<le> max_string_array L \<and> wf_payload L p \<and>
     fine (sd_fields (nt_payload_desc p))"

lemma servable_values:
  "servable L p \<Longrightarrow> values_of be L (max_depth L) (sd_fields (nt_payload_desc p)) (payload_fields now p)"
  unfolding servable_def values_of_def fine_def using wire_payload [of L p be now] by blast

lemma narrowed_values_wire:
  assumes "servable L p" "narrows (sd_fields d) (sd_fields (nt_payload_desc p))" "plain_fields (sd_fields d)"
  shows "wire_fields be L (max_depth L) 0 (sd_fields d) (project_fields (payload_fields now p) (sd_fields d))
    (encode_nt_payload_values_for_desc now p d be)"
proof -
  let ?gs = "sd_fields (nt_payload_desc p)" and ?vs = "payload_fields now p"
  have p: "4 \<le> max_depth L" "7 \<le> max_string_array L" "wf_payload L p" "names_ok ?gs" "plain_fields ?gs"
    using assms(1) by (simp_all add: servable_def fine_def)
  note wire = wire_payload [OF p(1-3), of be now]
  show ?thesis
  proof (cases "nt_payload_shape_matches p d \<and> structure_desc_equal (nt_payload_desc p) d")
    case True
    then have d: "d = nt_payload_desc p" using structure_desc_equal_plain(1) p(5) by metis
    have "project_fields ?vs ?gs = ?vs" by (rule project_same [OF wire p(4)]) simp
    with wire plain_wire_fields [OF p(5) wire] True show ?thesis
      by (simp add: d encode_nt_payload_values_for_desc_def)
  next
    case False
    from project_wire [OF wire assms(2) p(4) assms(3)] obtain b where
      b: "wire_fields be L (max_depth L) 0 (sd_fields d) (project_fields ?vs (sd_fields d)) b"
        "writes be ?vs (sd_fields d) b" by blast
    have "encode_nt_payload_values_for_desc now p d be = push_decoded_projected [] (nt_payload_to_decoded now p) d be"
      using False push_view_projected_decoded [OF of_payload_ok [OF p(3)], of "[]" now d be]
      by (auto simp: encode_nt_payload_values_for_desc_def of_payload_decoded)
    with b show ?thesis by (simp add: push_decoded_projected_def payload_fields writes_def)
  qed
qed

text \<open>C30: the first value of a narrowed subscription is read back. For every payload whose leaves
  are scalars, strings or arrays of these (all kinds but NTNDArray), and every list of requested
  fields, what the client decodes with the narrowed descriptor, from the all-ones bitset and the
  narrowed values the server sends, is the payload's tree projected on that descriptor.\<close>

theorem narrowed_update_round_trip:
  assumes "idle st" "servable (d_limits st) p" "d = filter_structure_desc (nt_payload_desc p) requested"
    and "count_structure_fields d < 2 ^ 32" "encode_nt_payload_filtered now p d (d_is_be st) = (bitset, vals)"
  shows "fst (decode_structure_with_bitset (bitset @ vals @ rest) d st) =
    Inr (project_decoded (nt_payload_to_decoded now p) d, length bitset + length vals)"
proof -
  have d: "narrows (sd_fields d) (sd_fields (nt_payload_desc p))" "plain_fields (sd_fields d)"
    using filter_fine [of "nt_payload_desc p" requested] assms(2,3) by (simp_all add: servable_def fine_def)
  from decode_full_update [OF assms(1) narrowed_values_wire [OF assms(2) d, of "d_is_be st" now] order_refl _ assms(4),
      of rest] assms(5)
  show ?thesis
    by (auto simp: encode_nt_payload_filtered_def project_decoded_def payload_fields)
qed

definition sample_next :: nt_payload where
  "sample_next = NT_Generic ''demo''
     [(''x'', PV_Scalar (SV_I32 8)),
      (''inner'', PV_Structure [] [(''y'', PV_ScalarArray (SA_U8 [1, 2, 4]))])]"

definition sample_narrow :: structure_desc where
  "sample_narrow = filter_structure_desc (nt_payload_desc sample_next) [''inner.y'']"

lemma sample_descs: "nt_payload_desc sample_payload = nt_payload_desc sample_next"
  by (simp add: sample_payload_def sample_next_def)

lemma sample_fine: "fine (sd_fields (nt_payload_desc sample_next))"
  by (simp add: sample_next_def fine_def inner_fields_def is_leaf_def as_structure_def plain_leaf_def plain_name_def)

lemma sample_servable:
  "servable (d_limits (pvd_new True)) sample_payload" "servable (d_limits (pvd_new True)) sample_next"
  using sample_payload_wf [of True] sample_fine
  by (simp_all add: servable_def sample_descs)
    (simp add: sample_next_def pvd_new_def pvd_with_limits_def default_limits_def wf_sv_def wf_sav_def)

lemma sample_narrow_count: "count_structure_fields sample_narrow = 2"
  by code_simp

theorem narrowed_update_round_trip_witness:
  "fst (decode_structure_with_bitset
      (fst (encode_nt_payload_filtered (0, 0) sample_next sample_narrow True)
        @ snd (encode_nt_payload_filtered (0, 0) sample_next sample_narrow True) @ [9]) sample_narrow (pvd_new True)) =
   Inr (DV_Structure [(''inner'', DV_Structure [(''y'', DV_Array [DV_UInt8 1, DV_UInt8 2, DV_UInt8 4])])],
     length (fst (encode_nt_payload_filtered (0, 0) sample_next sample_narrow True))
       + length (snd (encode_nt_payload_filtered (0, 0) sample_next sample_narrow True)))"
proof -
  have "project_decoded (nt_payload_to_decoded (0, 0) sample_next) sample_narrow =
      DV_Structure [(''inner'', DV_Structure [(''y'', DV_Array [DV_UInt8 1, DV_UInt8 2, DV_UInt8 4])])]"
    by code_simp
  then show ?thesis
    using narrowed_update_round_trip [of "pvd_new True" sample_next sample_narrow "[''inner.y'']" "(0, 0)"
        "fst (encode_nt_payload_filtered (0, 0) sample_next sample_narrow True)"
        "snd (encode_nt_payload_filtered (0, 0) sample_next sample_narrow True)" "[9]"]
      sample_servable(2) sample_narrow_count
    by (simp add: sample_narrow_def)
qed

section \<open>Updates\<close>

lemma read_bitset_at:
  assumes "length bits < 2 ^ 32" "d_is_be st = be"
  shows "read_bitset (pre @ encode_size (length bits) be @ bits @ rest) (length pre) st =
    (Inr (bits, length pre + length (encode_size (length bits) be) + length bits), st)"
  using assms by (simp add: read_bitset_def bind_dec_def decode_size_def decode_encode_size ret_def Let_def)

lemma delta_update_decoded:
  assumes st: "idle st" and ps: "values_of (d_is_be st) (d_limits st) (max_depth (d_limits st)) gs ps"
    and ns: "values_of (d_is_be st) (d_limits st) (max_depth (d_limits st)) gs ns"
    and d: "narrows (sd_fields d) gs" "plain_fields (sd_fields d)"
    and delta: "tree_delta (DV_Structure ps) (DV_Structure ns) d (d_is_be st) = Some (bitset, vals)"
    and len: "count_structure_fields d < 2 ^ 32" "length overrun < 2 ^ 32"
    and bits: "bits = False # delta_bits (sd_fields d) ps ns"
  shows "fst (decode_monitor_update
      (bitset @ vals @ encode_size (length overrun) (d_is_be st) @ overrun @ rest) d st) =
    Inr \<lparr>mu_value = DV_Structure (delta_vals (sd_fields d) ps ns), mu_changed = bitset_of_flags bits,
      mu_overrun = overrun, mu_consumed = length bitset + length vals +
        length (encode_size (length overrun) (d_is_be st)) + length overrun, mu_paths = bit_paths d\<rparr>"
proof -
  let ?fs = "sd_fields d" and ?be = "d_is_be st" and ?B = "bitset_of_flags bits"
  have count: "count_structure_fields d = length (bits_of ?fs)" by (simp add: length_bits_of_nested)
  have "fill_changed_fields (DV_Structure ps) (DV_Structure ns) ?fs 0 0 False
      (replicate (1 + count_structure_fields d) False) 1 =
      (True \<in> set (delta_bits ?fs ps ns), bits, 1 + length (bits_of ?fs))"
    using fill_delta_bits [OF ps ns d(1), of 0 0 False "[False]" "[]"] by (simp add: count bits)
  then have changed: "compute_changed_bits (DV_Structure ps) (DV_Structure ns) d =
      (if True \<in> set (delta_bits ?fs ps ns) then Some bits else None)"
    by (simp add: compute_changed_bits_def fill_changed_bits_def Let_def del: replicate_Suc)
  obtain b where b: "delta_writes ?be ns ?fs bits 1 b"
      "wire_delta ?be (d_limits st) ?B (max_depth (d_limits st)) 0 ?fs 1 (delta_vals ?fs ps ns) b"
    using delta_wire [OF ps ns d bitset_of_flags_bits, of bits "[False]" "[]"] by (auto simp: bits)
  have any: "True \<in> set (delta_bits ?fs ps ns)" and bitset: "bitset = encode_size (length ?B) ?be @ ?B"
    and vals: "vals = b"
    using delta changed b(1)
    by (auto simp: tree_delta_def encode_bitset_from_flags_def length_bitset_of_flags delta_writes_def
        encode_values_for_bits_def split: if_splits)
  have B: "0 < length ?B" "length ?B < 2 ^ 32" using len(1) by (simp_all add: length_bitset_of_flags bits count)
  have fields: "has_field_bits ?B"
  proof -
    from any obtain i where "i < length (delta_bits ?fs ps ns)" "delta_bits ?fs ps ns ! i"
      by (auto simp: in_set_conv_nth)
    then show ?thesis
      unfolding has_field_bits_iff bitset_of_flags_bits by (intro exI [of _ "Suc i"]) (simp add: bits)
  qed
  let ?tail = "encode_size (length overrun) ?be @ overrun @ rest"
  from decode_body_wire [OF st b(2) order_refl _ _ B(1), of ?tail] fields
  obtain st' where body: "decode_structure_with_bitset_body (b @ ?tail) d ?B st =
      (Inr (DV_Structure (delta_vals ?fs ps ns), length b), st')"
    by (metis (no_types, lifting) le0 prod.collapse)
  have be': "d_is_be st' = ?be" using keeps_frameD [OF bitset_body_frame body] by (simp add: frame_def)
  have data: "drop (length bitset) (bitset @ vals @ ?tail) = b @ ?tail" by (simp add: vals)
  show ?thesis
    using read_bitset_at [OF B(2), of st ?be "[]" "vals @ ?tail"]
      read_bitset_at [OF len(2) be', of "bitset @ vals" rest] body data
    by (simp add: decode_monitor_update_def decode_monitor_update_with_paths_def bind_dec_def ret_def
        bitset vals add.assoc)
qed

lemma bit_is_set_eq: "bit_is_set bits i = bit_set bits i"
  by (simp add: bit_is_set_def bit_set_def Let_def)

lemma update_merged:
  assumes ps: "values_of be L h gs ps" and ns: "values_of be L h gs ns"
    and d: "narrows (sd_fields d) gs" "names_ok (sd_fields d)"
    and u: "mu_value u = DV_Structure (delta_vals (sd_fields d) ps ns)" "mu_paths u = bit_paths d"
      "mu_changed u = bitset_of_flags (False # delta_bits (sd_fields d) ps ns)"
  shows "decoded_values_equal (merge_monitor_delta (DV_Structure (project_fields ps (sd_fields d))) u)
    (DV_Structure (project_fields ns (sd_fields d)))"
proof -
  let ?fs = "sd_fields d"
  have on: "bit_is_set (mu_changed u) (1 + i) = delta_bits ?fs ps ns ! i" if "i < length (delta_bits ?fs ps ns)" for i
    using that by (simp add: bit_is_set_eq u(3) bitset_of_flags_bits)
  have "fold (borrow (mu_value u)) (flagged (bit_is_set (mu_changed u)) 1 (seg_fields ?fs []))
      (DV_Structure ([] @ project_fields ps ?fs)) = DV_Structure ([] @ patched ?fs ps ns)"
    unfolding u(1) by (rule merge_delta [OF ps ns d _ on]) simp_all
  moreover have "\<not> bit_is_set (mu_changed u) 0" by (simp add: bit_is_set_eq u(3) bitset_of_flags_bits)
  moreover note merge_borrow [of "seg_fields ?fs []" u 1, OF seg_fields_ok [OF d(2), of "[]", simplified]]
  ultimately have "merge_monitor_delta (DV_Structure (project_fields ps ?fs)) u = DV_Structure (patched ?fs ps ns)"
    by (simp add: merge_monitor_delta_def u(2) bit_paths_dotted [OF d(2), simplified])
  then show ?thesis using patched_equal [OF ps ns d(1)] by simp
qed

text \<open>C29: deltas keep a subscriber in step with the server. Let two payloads have the same
  descriptor, let the client have asked for any list of fields, and let it hold the projection of the
  first payload on the narrowed descriptor. If the server has nothing to send, the projection of the
  second payload is equal to what the client holds. Otherwise the client decodes the update, with
  whatever overrun bitset it carries and whatever follows it, and merging it gives the projection of
  the second payload. Equal means as the codec compares values: bit for bit, except that any two NaNs
  are equal, and so are the two zeros.\<close>

theorem delta_keeps_subscriber_in_step:
  assumes "idle st" "servable (d_limits st) prev" "servable (d_limits st) nxt"
    and "nt_payload_desc prev = nt_payload_desc nxt"
    and "d = filter_structure_desc (nt_payload_desc nxt) requested"
    and "count_structure_fields d < 2 ^ 32" "length overrun < 2 ^ 32"
  shows "case encode_nt_payload_delta t1 t2 prev nxt d (d_is_be st) of
      None \<Rightarrow> decoded_values_equal (project_decoded (nt_payload_to_decoded t1 prev) d)
        (project_decoded (nt_payload_to_decoded t2 nxt) d)
    | Some (bitset, vals) \<Rightarrow>
        \<exists>u. fst (decode_monitor_update
            (bitset @ vals @ encode_size (length overrun) (d_is_be st) @ overrun @ rest) d st) = Inr u \<and>
          mu_overrun u = overrun \<and>
          mu_consumed u = length bitset + length vals +
            length (encode_size (length overrun) (d_is_be st)) + length overrun \<and>
          decoded_values_equal (merge_monitor_delta (project_decoded (nt_payload_to_decoded t1 prev) d) u)
            (project_decoded (nt_payload_to_decoded t2 nxt) d)"
proof -
  let ?gs = "sd_fields (nt_payload_desc nxt)" and ?fs = "sd_fields d" and ?h = "max_depth (d_limits st)"
  let ?ps = "payload_fields t1 prev" and ?ns = "payload_fields t2 nxt"
  have d: "narrows ?fs ?gs" "plain_fields ?fs" "names_ok ?fs"
    using filter_fine [of "nt_payload_desc nxt" requested] assms(3,5) by (simp_all add: servable_def fine_def)
  have ps: "values_of (d_is_be st) (d_limits st) ?h ?gs ?ps" and ns: "values_of (d_is_be st) (d_limits st) ?h ?gs ?ns"
    using servable_values [OF assms(2)] servable_values [OF assms(3)] assms(4) by simp_all
  have "encode_nt_payload_delta t1 t2 prev nxt d (d_is_be st) =
      tree_delta (DV_Structure ?ps) (DV_Structure ?ns) d (d_is_be st)"
    using delta_direct [OF of_payload_ok of_payload_ok, of "d_limits st" prev "d_limits st" nxt t1 t2] assms(2,3)
    by (simp add: servable_def payload_fields)
  then show ?thesis
  proof (cases "tree_delta (DV_Structure ?ps) (DV_Structure ?ns) d (d_is_be st)")
    case None
    have "True \<notin> set (delta_bits ?fs ?ps ?ns)"
      using None fill_delta_bits [OF ps ns d(1), of 0 0 False "[False]" "[]"]
      by (auto simp: tree_delta_def compute_changed_bits_def fill_changed_bits_def Let_def length_bits_of_nested
          split: option.splits)
    from patched_unchanged [OF ps ns d(1) this] patched_equal [OF ps ns d(1)] None show ?thesis
      using \<open>encode_nt_payload_delta t1 t2 prev nxt d (d_is_be st) = _\<close>
      by (simp add: project_decoded_def payload_fields)
  next
    case (Some bv)
    obtain bitset vals where bv: "bv = (bitset, vals)" by (cases bv)
    note dec = delta_update_decoded [OF assms(1) ps ns d(1,2) Some [unfolded bv] assms(6,7) refl, of rest]
    let ?u = "\<lparr>mu_value = DV_Structure (delta_vals ?fs ?ps ?ns),
        mu_changed = bitset_of_flags (False # delta_bits ?fs ?ps ?ns), mu_overrun = overrun,
        mu_consumed = length bitset + length vals + length (encode_size (length overrun) (d_is_be st)) + length overrun,
        mu_paths = bit_paths d\<rparr>"
    have "decoded_values_equal (merge_monitor_delta (DV_Structure (project_fields ?ps ?fs)) ?u)
        (DV_Structure (project_fields ?ns ?fs))"
      by (rule update_merged [OF ps ns d(1,3)]) simp_all
    with dec show ?thesis
      using \<open>encode_nt_payload_delta t1 t2 prev nxt d (d_is_be st) = _\<close>
      by (simp add: Some bv project_decoded_def payload_fields)
  qed
qed

theorem delta_keeps_subscriber_in_step_witness:
  "encode_nt_payload_delta (0, 0) (0, 0) sample_payload sample_next sample_narrow True = Some ([1, 4], [3, 1, 2, 4]) \<and>
   (\<exists>u. fst (decode_monitor_update ([1, 4] @ [3, 1, 2, 4] @ [1, 4] @ [9]) sample_narrow (pvd_new True)) = Inr u \<and>
      mu_overrun u = [4] \<and> mu_consumed u = 8 \<and>
      decoded_values_equal
        (merge_monitor_delta (project_decoded (nt_payload_to_decoded (0, 0) sample_payload) sample_narrow) u)
        (project_decoded (nt_payload_to_decoded (0, 0) sample_next) sample_narrow))"
proof -
  have delta: "encode_nt_payload_delta (0, 0) (0, 0) sample_payload sample_next sample_narrow True =
      Some ([1, 4], [3, 1, 2, 4])" by code_simp
  have one: "encode_size (Suc 0) True = [1]" by code_simp
  have eight: "Suc (Suc (Suc (Suc (Suc (Suc (Suc (Suc 0))))))) = 8" by simp
  show ?thesis
    using delta_keeps_subscriber_in_step [of "pvd_new True" sample_payload sample_next sample_narrow
        "[''inner.y'']" "[4]" "(0, 0)" "(0, 0)" "[9]"]
      sample_servable sample_narrow_count sample_descs
    by (simp add: delta one eight sample_narrow_def [symmetric])
qed

section \<open>NTNDArray\<close>

definition sample_image :: "u8 list \<Rightarrow> nt_payload" where
  "sample_image pixels = NT_NdArray (nt_nd_array_empty\<lparr>nd_value := SA_U8 pixels\<rparr>)"

definition sample_image_desc :: structure_desc where
  "sample_image_desc = filter_structure_desc (nt_payload_desc (sample_image [])) [''value'']"

lemma sample_image_desc_eq:
  "sample_image_desc = StructureDesc (Some ''epics:nt/NTNDArray:1.0'')
     [FieldDesc ''value'' (FT_Union nt_ndarray_value_union_fields)]"
  by code_simp

lemmas value_run = with_scope_idle decode_structure_with_bitset_body_def decode_bitset_walk_recounts has_field_bits_def
  recount_leaf as_structure_def bit_set_def decode_value_unfold decode_value_body_def decode_value_match_def
  union_field_def decode_array_def decode_array_upto_def check_array_count_def

text \<open>C31: deltas of NTNDArray values are not readable. The value of an NTNDArray is a union, whose
  wire form starts with the index of its member; the delta encoder (and the narrowed encoder, which
  uses the same routine) leaves the index out. When the pixels change from none to 5 and 6, the update
  carries the count 2 and the pixels; a client takes the count for the index, gives up on the field,
  and takes the pixels for the overrun bitset, so that the change is lost.\<close>

theorem ndarray_delta_unreadable:
  "encode_nt_payload_delta (0, 0) (0, 0) (sample_image []) (sample_image [5, 6]) sample_image_desc True =
     Some ([1, 2], [2, 5, 6]) \<and>
   (\<exists>u. fst (decode_monitor_update ([1, 2] @ [2, 5, 6] @ [0]) sample_image_desc (pvd_new True)) = Inr u \<and>
      mu_value u = DV_Structure [] \<and> mu_overrun u = [5, 6])"
proof
  show "encode_nt_payload_delta (0, 0) (0, 0) (sample_image []) (sample_image [5, 6]) sample_image_desc True =
      Some ([1, 2], [2, 5, 6])"
    by code_simp
  have "\<exists>st. decode_structure_with_bitset_body [2, 5, 6, 0] sample_image_desc [2] (pvd_new True) =
      (Inr (DV_Structure [], 0), st) \<and> d_is_be st"
    by (simp add: sample_image_desc_eq value_run parser_run nt_ndarray_value_union_fields_def)
  then show "\<exists>u. fst (decode_monitor_update ([1, 2] @ [2, 5, 6] @ [0]) sample_image_desc (pvd_new True)) = Inr u \<and>
      mu_value u = DV_Structure [] \<and> mu_overrun u = [5, 6]"
    by (auto simp: decode_monitor_update_def decode_monitor_update_with_paths_def read_bitset_def bind_dec_def
        decode_size_def decode_size_prefixed_def ret_def Let_def)
qed

end
