(* ===== verification/Pva_Session.thy ===== *)
theory Pva_Session
  imports Pva_Messages Subscription
begin

text \<open>
  Sessions: the frames that carry values. A client that got a payload's descriptor in the INIT
  response reads the value from the data response of a GET and from the frames of a monitor. The
  theory also holds the defect of the final monitor frame.
\<close>

section \<open>Frames with values\<close>

lemma bitset_bytes_append: "push_nt_payload_bitset now out p be = out @ encode_nt_payload_bitset now p be"
  using push_payload_append [of now "push_all_ones_bitset out (1 + nt_payload_field_count p) be" p be]
    push_payload_append [of now "push_all_ones_bitset [] (1 + nt_payload_field_count p) be" p be]
  by (simp add: push_nt_payload_bitset_def encode_nt_payload_bitset_def push_all_ones_bitset_def Let_def
      list_update_append)

lemma data_frame:
  "encode_op_data_response_payload now cmd ioid p v be = with_header True be v cmd
     (to_bytes be ioid @ [0x00] @ encode_status_ok @ encode_nt_payload_bitset now p be)"
  using finish_begin [of be v cmd "to_bytes be ioid @ [0x00] @ encode_status_ok @ encode_nt_payload_bitset now p be"]
  by (simp add: encode_op_data_response_payload_def begin_frame_def bitset_bytes_append)

lemma monitor_frame:
  "encode_monitor_data_response_payload now ioid sub p v be = with_header True be v 13
     (to_bytes be ioid @ [sub] @ (if sub AND 0x10 \<noteq> 0 then encode_status_ok else [])
       @ encode_nt_payload_bitset now p be @ encode_size_pva 0 be)"
  using finish_begin [of be v 13 "to_bytes be ioid @ [sub] @ (if sub AND 0x10 \<noteq> 0 then encode_status_ok else [])
       @ encode_nt_payload_bitset now p be @ encode_size_pva 0 be"]
  by (cases "sub AND 0x10 = 0") (simp_all add: encode_monitor_data_response_payload_def begin_frame_def bitset_bytes_append)

lemma parts_frame:
  "monitor_parts_frame ioid sub bitset vals v be = with_header True be v 13
     (to_bytes be ioid @ [sub] @ (if sub AND 0x10 \<noteq> 0 then encode_status_ok else [])
       @ bitset @ vals @ encode_size_pva 0 be)"
  using finish_begin [of be v 13 "to_bytes be ioid @ [sub] @ (if sub AND 0x10 \<noteq> 0 then encode_status_ok else [])
       @ bitset @ vals @ encode_size_pva 0 be"]
  by (cases "sub AND 0x10 = 0") (simp_all add: monitor_parts_frame_def begin_frame_def)

section \<open>Reading them\<close>

text \<open>The payloads a client with the default limits can read.\<close>

definition readable :: "nt_payload \<Rightarrow> bool" where
  "readable p \<longleftrightarrow> wf_payload default_limits p \<and> payload_nodes p \<le> MAX_DECODE_NODES \<and>
     nt_payload_field_count p < 2 ^ 32 \<and> wf_desc (nt_payload_desc p)"

lemma default_depths: "4 \<le> max_depth default_limits" "7 \<le> max_string_array default_limits"
  by (simp_all add: default_limits_def)

lemma full_update_bytes:
  "\<exists>bits. encode_nt_payload_bitset now p be = (encode_size (length bits) be @ bits) @ encode_nt_payload_full now p be \<and>
     0 < length bits \<and> (nt_payload_field_count p < 2 ^ 32 \<longrightarrow> length bits < 2 ^ 32)"
proof -
  let ?n = "1 + nt_payload_field_count p"
  have "encode_nt_payload_bitset now p be =
      (encode_size (length (ones ?n)) be @ ones ?n) @ encode_nt_payload_full now p be"
    using push_payload_append [of now "push_all_ones_bitset [] ?n be" p be] encode_all_ones_bitset_eq [of ?n be]
    by (simp add: encode_nt_payload_bitset_def push_nt_payload_bitset_def encode_nt_payload_full_def
        encode_all_ones_bitset_def)
  moreover have "nt_payload_field_count p < 2 ^ 32 \<longrightarrow> (8 + nt_payload_field_count p) div 8 < 2 ^ 32"
    by (auto intro: le_less_trans [OF div_le_mono [of _ "8 + 2 ^ 32"]])
  ultimately show ?thesis by (intro exI [of _ "ones ?n"]) (simp add: div_greater_zero_iff)
qed

lemma full_update_read:
  assumes "readable p"
  shows "fst (decode_structure_with_bitset (encode_nt_payload_bitset now p be @ rest) (nt_payload_desc p) (pvd_new be)) =
    Inr (nt_payload_to_decoded now p, length (encode_nt_payload_bitset now p be))"
proof -
  have "encode_nt_payload_bitset now p be = encode_structure_bitset (nt_payload_desc p) be @ encode_nt_payload_full now p be"
    using push_payload_append [of now "encode_structure_bitset (nt_payload_desc p) be" p be]
    by (simp add: encode_nt_payload_bitset_def push_nt_payload_bitset_def encode_nt_payload_full_def
        encode_structure_bitset_def encode_all_ones_bitset_def payload_count)
  moreover have "wire_fields (d_is_be (pvd_new be)) (d_limits (pvd_new be)) (max_depth (d_limits (pvd_new be)))
      (payload_nodes p) (sd_fields (nt_payload_desc p)) (payload_fields now p) (encode_nt_payload_full now p be)"
    using wire_payload [OF default_depths, of p be now] assms by (simp only: new_idle readable_def)
  ultimately show ?thesis
    using decode_full_update [OF new_idle(1) _ order_refl, of be "payload_nodes p" "nt_payload_desc p"] assms
    by (simp add: new_idle readable_def payload_count payload_fields)
qed

text \<open>From the bitset decoder to the monitor decoder: the latter also reads the overrun bitset.\<close>

lemma monitor_of_bitset:
  assumes bits: "0 < length bits" "length bits < 2 ^ 32" and over: "length overrun < 2 ^ 32" and be: "d_is_be st = be"
    and run: "fst (decode_structure_with_bitset ((encode_size (length bits) be @ bits) @ vals
        @ encode_size (length overrun) be @ overrun @ rest) d st) =
      Inr (v, length (encode_size (length bits) be @ bits) + length vals)"
  shows "map_sum id mu_value (fst (decode_monitor_update ((encode_size (length bits) be @ bits) @ vals
        @ encode_size (length overrun) be @ overrun @ rest) d st)) = Inr v"
proof -
  let ?tail = "encode_size (length overrun) be @ overrun @ rest"
  obtain n st' where body: "decode_structure_with_bitset_body (vals @ ?tail) d bits st = (Inr (v, n), st')"
    and n: "n = length vals"
    using run bits be
    by (cases "decode_structure_with_bitset_body (vals @ ?tail) d bits st")
      (auto simp: decode_structure_with_bitset_def bind_dec_def decode_size_def decode_encode_size ret_def Let_def
        split: sum.splits)
  have "d_is_be st' = be" using keeps_frameD [OF bitset_body_frame body] be by (simp add: frame_def)
  then show ?thesis
    using read_bitset_at [OF bits(2) be, of "[]" "vals @ ?tail"]
      read_bitset_at [OF over, of st' be "encode_size (length bits) be @ bits @ vals" rest] body n
    by (simp add: decode_monitor_update_def decode_monitor_update_with_paths_def bind_dec_def ret_def add.assoc)
qed

section \<open>Operations that carry a value\<close>

definition value_op :: "u8 \<Rightarrow> u32 \<Rightarrow> bytes \<Rightarrow> pva_op" where
  "value_op cmd ioid body = \<lparr>op_sid_or_cid = 0, op_ioid = ioid, op_subcmd = 0, op_body = body, op_command = cmd,
     op_is_server = True, op_status = None, op_introspection = None, op_decoded_value = None\<rparr>"

lemma data_op_read:
  assumes "cmd \<in> op_commands" "cmd \<noteq> 13" "cmd \<noteq> 14" "length (with_header True be v cmd
      (to_bytes be ioid @ [0x00] @ encode_status_ok @ body)) < 2 ^ 32"
  shows "receive (with_header True be v cmd (to_bytes be ioid @ [0x00] @ encode_status_ok @ body) @ rest) =
    Some (PC_Op (value_op cmd ioid body))"
proof (rule receive_read [OF _ assms(4)])
  have "has_status True 0 cmd" using assms(2,3) by (simp add: has_status_def)
  from op_response_read [OF this status_ok_read [of body be]]
  show "decode_command cmd (to_bytes be ioid @ [0x00] @ encode_status_ok @ body) be True =
      Some (PC_Op (value_op cmd ioid body))"
    by (simp add: op_command_dispatch [OF assms(1)] value_op_def encode_status_ok_def)
qed

lemma monitor_op_read:
  assumes "body \<noteq> []" "length (with_header True be v 13 (to_bytes be ioid @ [0x00] @ body)) < 2 ^ 32"
  shows "receive (with_header True be v 13 (to_bytes be ioid @ [0x00] @ body) @ rest) =
    Some (PC_Op (value_op 13 ioid body))"
proof (rule receive_read [OF _ assms(2)])
  show "decode_command 13 (to_bytes be ioid @ [0x00] @ body) be True = Some (PC_Op (value_op 13 ioid body))"
    using assms(1) by (simp add: op_command_dispatch [of 13] op_commands_def value_op_def pva_op_new_def
        has_status_def u32_at_def nth_append Let_def)
qed

lemma init_read:
  assumes "cmd \<in> op_commands" "wf_desc d" "length (encode_op_init_response_desc cmd ioid 0x08 d v be) < 2 ^ 32"
  shows "\<exists>init. receive (encode_op_init_response_desc cmd ioid 0x08 d v be @ rest) = Some (PC_Op init) \<and>
    op_introspection init = Some d"
proof -
  have init: "(8 :: u8) AND 0x08 \<noteq> 0" by simp
  show ?thesis
    using assms(3) unfolding encode_op_init_response_desc_def Let_def
    by (subst receive_read [OF _ assms(3) [unfolded encode_op_init_response_desc_def Let_def]])
      (simp_all only: op_command_dispatch [OF assms(1)] op_init_read [OF init assms(2)] option.map, simp)
qed

lemma decode_value_op:
  assumes "body \<noteq> []"
  shows "decode_with_field_desc (value_op cmd ioid body) d be StrictMode =
    (case (if cmd = 13 then map_sum id mu_value (fst (decode_monitor_update body d (pvd_new be)))
       else map_sum id fst (fst (decode_structure_with_bitset body d (pvd_new be)))) of
       Inl e \<Rightarrow> (Inl e, value_op cmd ioid body)
     | Inr v \<Rightarrow> (Inr (), (value_op cmd ioid body)\<lparr>op_decoded_value := Some v\<rparr>))"
  using assms by (auto simp: decode_with_field_desc_def value_op_def split: sum.splits)

text \<open>The frame a server answers with, by the kind of operation.\<close>

definition value_frame :: "clock \<Rightarrow> u8 \<Rightarrow> u32 \<Rightarrow> nt_payload \<Rightarrow> u8 \<Rightarrow> bool \<Rightarrow> bytes" where
  "value_frame now cmd ioid p v be = (if cmd = 13 then encode_monitor_data_response_payload now ioid 0 p v be
     else encode_op_data_response_payload now cmd ioid p v be)"

lemma monitor_full_read:
  assumes "readable p"
  shows "map_sum id mu_value (fst (decode_monitor_update (encode_nt_payload_bitset now p be @ encode_size_pva 0 be)
      (nt_payload_desc p) (pvd_new be))) = Inr (nt_payload_to_decoded now p)"
proof -
  obtain bits where bits: "encode_nt_payload_bitset now p be =
      (encode_size (length bits) be @ bits) @ encode_nt_payload_full now p be" "0 < length bits" "length bits < 2 ^ 32"
    using full_update_bytes [of now p be] assms by (auto simp: readable_def)
  show ?thesis
    using monitor_of_bitset [of bits "[]" "pvd_new be" be "encode_nt_payload_full now p be" "[]" "nt_payload_desc p"]
      full_update_read [OF assms, of now be "encode_size 0 be"] bits
    by (simp add: new_idle encode_size_pva_def)
qed


lemma sample_readable: "readable sample_payload"
  using sample_payload_wf [of True] sample_payload_count
  by (simp add: readable_def new_idle MAX_DECODE_NODES_def wf_desc_def)
    (simp add: sample_payload_def default_limits_def wf_string_def as_bytes_def wf_scalar_code_def)


section \<open>The final frame of a monitor\<close>

text \<open>C34: the final frame of a monitor is misread. A server marks it with the sub-command bit 0x10, and the
  encoder then puts a status in front of the value; the receiver expects no status in it, so that the
  status byte stays at the head of the body, and it decodes the body as a full structure without a
  bitset. A client that stops the subscription of a structure whose field x is 7 and whose array y holds
  three numbers is told that x is 0xFF010F00 and y is empty.\<close>

theorem final_monitor_frame_misread:
  "\<exists>op. receive (encode_monitor_data_response_payload (0, 0) 1 0x10 sample_payload 2 True) = Some (PC_Op op) \<and>
     op_status op = None \<and>
     op_body op = 0xFF # encode_nt_payload_bitset (0, 0) sample_payload True @ [0] \<and>
     decode_with_field_desc op (nt_payload_desc sample_payload) True StrictMode =
       (Inr (), op\<lparr>op_decoded_value := Some (DV_Structure [(''x'', DV_Int32 0xFF010F00),
         (''inner'', DV_Structure [(''y'', DV_Array [])])])\<rparr>)"
proof -
  let ?op = "(value_op 13 1 [0xFF, 1, 15, 0, 0, 0, 7, 3, 1, 2, 3, 0])\<lparr>op_subcmd := 0x10\<rparr>"
  have bytes: "encode_nt_payload_bitset (0, 0) sample_payload True = [1, 15, 0, 0, 0, 7, 3, 1, 2, 3]" by code_simp
  have "receive (encode_monitor_data_response_payload (0, 0) 1 0x10 sample_payload 2 True) = Some (PC_Op ?op)"
    by code_simp
  moreover have "wire_fields True default_limits 2 0 (sd_fields (nt_payload_desc sample_payload))
      [(''x'', DV_Int32 0xFF010F00), (''inner'', DV_Structure [(''y'', DV_Array [])])]
      (to_bytes True (0xFF010F00 :: i32) @ encode_size 0 True)"
  proof -
    have "sd_fields (nt_payload_desc sample_payload) = [FieldDesc ''x'' (FT_Scalar TC_Int32),
        FieldDesc ''inner'' (FT_Structure (StructureDesc None [FieldDesc ''y'' (FT_ScalarArray TC_UInt8)]))]"
      by code_simp
    moreover have "wire_value True default_limits 1 0 (FT_ScalarArray TC_UInt8) (DV_Array []) (encode_size 0 True)"
      using w_scalars [of 1 True TC_UInt8 "[]" "[]" default_limits] by simp
    ultimately show ?thesis
      by (simp only:) (intro record_intros; simp add: w_scalar sw_i32)
  qed
  moreover have "to_bytes True (0xFF010F00 :: i32) @ encode_size 0 True = [0xFF, 1, 15, 0, 0]" by code_simp
  ultimately show ?thesis
    using decode_structure_wire [of "pvd_new True" 2 0 "nt_payload_desc sample_payload" _ "[0xFF, 1, 15, 0, 0]"
        "[0, 7, 3, 1, 2, 3, 0]"]
    by (intro exI [of _ ?op]) (simp add: bytes value_op_def decode_with_field_desc_def new_idle default_limits_def)
qed

end
