(* ===== verification/Monitor_Fanout.thy ===== *)
theory Monitor_Fanout
  imports Pva_Session
begin

text \<open>
  Deciding a monitor fan-out (\<^verbatim>\<open>spvirit-server/src/monitor.rs\<close> and the subscription record of
  \<^verbatim>\<open>state.rs\<close>): equality of payloads, the frame a subscriber is owed for a payload, and the pass over all
  subscribers that charges their credit and moves their baselines. Every read of the system clock is a
  sample of a parameter.
\<close>

section \<open>Equality of payloads\<close>

text \<open>The derived \<^verbatim>\<open>PartialEq\<close>: field by field, floats by IEEE comparison, hash maps as maps.\<close>

fun scalar_value_eq :: "scalar_value \<Rightarrow> scalar_value \<Rightarrow> bool" where
  "scalar_value_eq (SV_F32 x) (SV_F32 y) = f32_eq x y"
| "scalar_value_eq (SV_F64 x) (SV_F64 y) = f64_eq x y"
| "scalar_value_eq x y = (x = y)"

fun scalar_array_value_eq :: "scalar_array_value \<Rightarrow> scalar_array_value \<Rightarrow> bool" where
  "scalar_array_value_eq (SA_F32 x) (SA_F32 y) = list_all2 f32_eq x y"
| "scalar_array_value_eq (SA_F64 x) (SA_F64 y) = list_all2 f64_eq x y"
| "scalar_array_value_eq x y = (x = y)"

definition nt_display_eq :: "nt_display \<Rightarrow> nt_display \<Rightarrow> bool" where
  "nt_display_eq a b \<longleftrightarrow> f64_eq (di_limit_low a) (di_limit_low b) \<and> f64_eq (di_limit_high a) (di_limit_high b) \<and>
     di_description a = di_description b \<and> di_units a = di_units b \<and> di_precision a = di_precision b"

definition nt_control_eq :: "nt_control \<Rightarrow> nt_control \<Rightarrow> bool" where
  "nt_control_eq a b \<longleftrightarrow> f64_eq (co_limit_low a) (co_limit_low b) \<and> f64_eq (co_limit_high a) (co_limit_high b) \<and>
     f64_eq (co_min_step a) (co_min_step b)"

definition nt_scalar_eq :: "nt_scalar \<Rightarrow> nt_scalar \<Rightarrow> bool" where
  "nt_scalar_eq a b \<longleftrightarrow>
     scalar_value_eq (ns_value a) (ns_value b) \<and>
     ns_alarm_severity a = ns_alarm_severity b \<and> ns_alarm_status a = ns_alarm_status b \<and>
     ns_alarm_message a = ns_alarm_message b \<and>
     rel_option f64_eq (ns_alarm_low a) (ns_alarm_low b) \<and> rel_option f64_eq (ns_alarm_high a) (ns_alarm_high b) \<and>
     rel_option f64_eq (ns_alarm_lolo a) (ns_alarm_lolo b) \<and> rel_option f64_eq (ns_alarm_hihi a) (ns_alarm_hihi b) \<and>
     f64_eq (ns_display_low a) (ns_display_low b) \<and> f64_eq (ns_display_high a) (ns_display_high b) \<and>
     ns_display_description a = ns_display_description b \<and> ns_display_precision a = ns_display_precision b \<and>
     ns_display_form_index a = ns_display_form_index b \<and>
     ns_display_form_choices a = ns_display_form_choices b \<and>
     f64_eq (ns_control_low a) (ns_control_low b) \<and> f64_eq (ns_control_high a) (ns_control_high b) \<and>
     f64_eq (ns_control_min_step a) (ns_control_min_step b) \<and> ns_units a = ns_units b \<and>
     ns_va_active a = ns_va_active b \<and>
     f64_eq (ns_va_low_alarm_limit a) (ns_va_low_alarm_limit b) \<and>
     f64_eq (ns_va_low_warning_limit a) (ns_va_low_warning_limit b) \<and>
     f64_eq (ns_va_high_warning_limit a) (ns_va_high_warning_limit b) \<and>
     f64_eq (ns_va_high_alarm_limit a) (ns_va_high_alarm_limit b) \<and>
     ns_va_low_alarm_severity a = ns_va_low_alarm_severity b \<and>
     ns_va_low_warning_severity a = ns_va_low_warning_severity b \<and>
     ns_va_high_warning_severity a = ns_va_high_warning_severity b \<and>
     ns_va_high_alarm_severity a = ns_va_high_alarm_severity b \<and>
     ns_va_hysteresis a = ns_va_hysteresis b \<and> ns_time_stamp a = ns_time_stamp b"

definition nt_scalar_array_eq :: "nt_scalar_array \<Rightarrow> nt_scalar_array \<Rightarrow> bool" where
  "nt_scalar_array_eq a b \<longleftrightarrow>
     scalar_array_value_eq (na_value a) (na_value b) \<and> na_alarm a = na_alarm b \<and>
     na_time_stamp a = na_time_stamp b \<and> nt_display_eq (na_display a) (na_display b) \<and>
     nt_control_eq (na_control a) (na_control b)"

definition nt_table_column_eq :: "nt_table_column \<Rightarrow> nt_table_column \<Rightarrow> bool" where
  "nt_table_column_eq a b \<longleftrightarrow> tc_name a = tc_name b \<and> scalar_array_value_eq (tc_values a) (tc_values b)"

definition nt_table_eq :: "nt_table \<Rightarrow> nt_table \<Rightarrow> bool" where
  "nt_table_eq a b \<longleftrightarrow>
     tb_labels a = tb_labels b \<and> list_all2 nt_table_column_eq (tb_columns a) (tb_columns b) \<and>
     tb_descriptor a = tb_descriptor b \<and> tb_alarm a = tb_alarm b \<and> tb_time_stamp a = tb_time_stamp b"

definition nd_codec_eq :: "nd_codec \<Rightarrow> nd_codec \<Rightarrow> bool" where
  "nd_codec_eq a b \<longleftrightarrow> cd_name a = cd_name b \<and> maps_equal (cd_parameters a) (cd_parameters b)"

definition nt_attribute_eq :: "nt_attribute \<Rightarrow> nt_attribute \<Rightarrow> bool" where
  "nt_attribute_eq a b \<longleftrightarrow>
     at_name a = at_name b \<and> scalar_value_eq (at_value a) (at_value b) \<and> at_descriptor a = at_descriptor b \<and>
     at_source_type a = at_source_type b \<and> at_source a = at_source b"

definition nt_nd_array_eq :: "nt_nd_array \<Rightarrow> nt_nd_array \<Rightarrow> bool" where
  "nt_nd_array_eq a b \<longleftrightarrow>
     scalar_array_value_eq (nd_value a) (nd_value b) \<and> nd_codec_eq (nd_codec a) (nd_codec b) \<and>
     nd_compressed_size a = nd_compressed_size b \<and> nd_uncompressed_size a = nd_uncompressed_size b \<and>
     nd_dims a = nd_dims b \<and> nd_unique_id a = nd_unique_id b \<and>
     nd_data_time_stamp a = nd_data_time_stamp b \<and>
     list_all2 nt_attribute_eq (nd_attributes a) (nd_attributes b) \<and>
     nd_descriptor a = nd_descriptor b \<and> nd_alarm a = nd_alarm b \<and> nd_time_stamp a = nd_time_stamp b \<and>
     rel_option nt_display_eq (nd_display a) (nd_display b)"

fun pv_value_eq :: "pv_value \<Rightarrow> pv_value \<Rightarrow> bool"
  and pv_fields_eq :: "(string \<times> pv_value) list \<Rightarrow> (string \<times> pv_value) list \<Rightarrow> bool" where
  "pv_value_eq (PV_Scalar x) (PV_Scalar y) = scalar_value_eq x y"
| "pv_value_eq (PV_ScalarArray x) (PV_ScalarArray y) = scalar_array_value_eq x y"
| "pv_value_eq (PV_Structure i xs) (PV_Structure j ys) = (i = j \<and> pv_fields_eq xs ys)"
| "pv_value_eq _ _ = False"
| "pv_fields_eq [] [] = True"
| "pv_fields_eq ((n, x) # xs) ((m, y) # ys) = (n = m \<and> pv_value_eq x y \<and> pv_fields_eq xs ys)"
| "pv_fields_eq _ _ = False"

fun nt_payload_eq :: "nt_payload \<Rightarrow> nt_payload \<Rightarrow> bool" where
  "nt_payload_eq (NT_Scalar a) (NT_Scalar b) = nt_scalar_eq a b"
| "nt_payload_eq (NT_ScalarArray a) (NT_ScalarArray b) = nt_scalar_array_eq a b"
| "nt_payload_eq (NT_Table a) (NT_Table b) = nt_table_eq a b"
| "nt_payload_eq (NT_NdArray a) (NT_NdArray b) = nt_nd_array_eq a b"
| "nt_payload_eq (NT_Enum a) (NT_Enum b) = (a = b)"
| "nt_payload_eq (NT_Generic i xs) (NT_Generic j ys) = (i = j \<and> pv_fields_eq xs ys)"
| "nt_payload_eq _ _ = False"

section \<open>Subscribers and their frames\<close>

record monitor_sub =
  ms_conn_id :: u64
  ms_ioid :: u32
  ms_version :: u8
  ms_is_be :: bool
  ms_running :: bool
  ms_pipeline_enabled :: bool
  ms_nfree :: u32
  ms_filtered_desc :: "structure_desc option"
  ms_last_snapshot :: "nt_payload option"

record pending_frame =
  pf_conn_id :: u64
  pf_ioid :: u32
  pf_version :: u8
  pf_is_be :: bool
  pf_pipelined :: bool
  pf_prebuilt :: "bytes option"

text \<open>The clock samples that building one frame reads: the one of the frame, and those of the two payloads
  the change test compares.\<close>

type_synonym samples = "clock \<times> clock \<times> clock"

definition build_monitor_frame :: "samples \<Rightarrow> monitor_sub \<Rightarrow> nt_payload \<Rightarrow> bytes option" where
  "build_monitor_frame = (\<lambda>(now, t1, t2) sub payload.
     let subcmd = 0x00 in
     case ms_last_snapshot sub of
       None \<Rightarrow>
         Some (case ms_filtered_desc sub of
                 Some desc \<Rightarrow> encode_monitor_data_response_filtered now (ms_ioid sub) subcmd payload desc
                   (ms_version sub) (ms_is_be sub)
               | None \<Rightarrow> encode_monitor_data_response_payload now (ms_ioid sub) subcmd payload
                   (ms_version sub) (ms_is_be sub))
     | Some prev \<Rightarrow>
         (case ms_filtered_desc sub of
            Some desc \<Rightarrow>
              if \<not> nt_payload_changed_on_desc t1 t2 prev payload desc (ms_is_be sub) then None
              else Some (encode_monitor_data_response_filtered now (ms_ioid sub) subcmd payload desc
                (ms_version sub) (ms_is_be sub))
          | None \<Rightarrow>
              if nt_payload_eq prev payload then None
              else Some (encode_monitor_data_response_payload now (ms_ioid sub) subcmd payload
                (ms_version sub) (ms_is_be sub))))"

text \<open>What sending a frame does to the record: one credit less for a pipelined subscriber, and a new baseline.\<close>

definition charge :: "nt_payload \<Rightarrow> monitor_sub \<Rightarrow> monitor_sub" where
  "charge payload sub =
     (let sub = (if ms_pipeline_enabled sub \<and> ms_nfree sub > 0 then sub\<lparr>ms_nfree := ms_nfree sub - 1\<rparr> else sub)
      in sub\<lparr>ms_last_snapshot := Some payload\<rparr>)"

text \<open>The turn of one subscriber in the fan-out: what becomes of its record, and the frame it is owed.\<close>

definition plan_sub :: "samples \<Rightarrow> monitor_sub \<Rightarrow> nt_payload \<Rightarrow> monitor_sub \<times> pending_frame option" where
  "plan_sub smp sub payload =
     (if \<not> ms_running sub then (sub, None)
      else if ms_pipeline_enabled sub \<and> ms_nfree sub = 0 then (sub, None)
      else
        let prebuilt =
          (if ms_filtered_desc sub \<noteq> None then
             (case build_monitor_frame smp sub payload of Some bs \<Rightarrow> Some (Some bs) | None \<Rightarrow> None)
           else if rel_option nt_payload_eq (ms_last_snapshot sub) (Some payload) then None
           else Some None)
        in case prebuilt of
             None \<Rightarrow> (sub, None)
           | Some prebuilt \<Rightarrow>
               (let sub = charge payload sub
                in (sub, Some \<lparr>pf_conn_id = ms_conn_id sub, pf_ioid = ms_ioid sub, pf_version = ms_version sub,
                     pf_is_be = ms_is_be sub, pf_pipelined = ms_pipeline_enabled sub, pf_prebuilt = prebuilt\<rparr>)))"

text \<open>\<^term>\<open>clk i\<close> are the samples read in the turn of the \<^term>\<open>i\<close>th subscriber.\<close>

fun plan_fanout :: "(nat \<Rightarrow> samples) \<Rightarrow> nat \<Rightarrow> monitor_sub list \<Rightarrow> nt_payload
    \<Rightarrow> monitor_sub list \<times> pending_frame list" where
  "plan_fanout clk i [] payload = ([], [])"
| "plan_fanout clk i (sub # list) payload =
     (let (sub', frame) = plan_sub (clk i) sub payload;
          (list', plan) = plan_fanout clk (i + 1) list payload
      in (sub' # list', (case frame of Some f \<Rightarrow> f # plan | None \<Rightarrow> plan)))"

text \<open>The message of a planned frame: the prebuilt one, or the full payload encoded after the lock is
  released, at a clock sample of its own.\<close>

definition frame_message :: "clock \<Rightarrow> nt_payload \<Rightarrow> pending_frame \<Rightarrow> bytes" where
  "frame_message now payload p =
     (case pf_prebuilt p of
        Some bs \<Rightarrow> bs
      | None \<Rightarrow> encode_monitor_data_response_payload now (pf_ioid p) 0x00 payload (pf_version p) (pf_is_be p))"

section \<open>What a subscriber is owed\<close>

text \<open>A subscriber is owed a frame if it runs, has credit where it pipelines, and its view of the payload is
  new to it.\<close>

definition owed :: "samples \<Rightarrow> monitor_sub \<Rightarrow> nt_payload \<Rightarrow> bool" where
  "owed smp sub payload \<longleftrightarrow>
     ms_running sub \<and> (ms_pipeline_enabled sub \<longrightarrow> ms_nfree sub \<noteq> 0) \<and> build_monitor_frame smp sub payload \<noteq> None"

text \<open>A planned frame is the one the reference builder makes, at the clock sample of its encoding.\<close>

definition frame_for :: "samples \<Rightarrow> monitor_sub \<Rightarrow> nt_payload \<Rightarrow> pending_frame \<Rightarrow> bool" where
  "frame_for smp sub payload f \<longleftrightarrow>
     pf_conn_id f = ms_conn_id sub \<and> pf_ioid f = ms_ioid sub \<and> pf_pipelined f = ms_pipeline_enabled sub \<and>
     (\<forall>now. build_monitor_frame (if ms_filtered_desc sub = None then (now, snd smp) else smp) sub payload =
        Some (frame_message now payload f))"

lemma charge_fields [simp]:
  "ms_conn_id (charge p sub) = ms_conn_id sub" "ms_ioid (charge p sub) = ms_ioid sub"
  "ms_version (charge p sub) = ms_version sub" "ms_is_be (charge p sub) = ms_is_be sub"
  "ms_pipeline_enabled (charge p sub) = ms_pipeline_enabled sub" "ms_running (charge p sub) = ms_running sub"
  by (simp_all add: charge_def Let_def)

lemma plan_sub_not_owed: "\<not> owed smp sub payload \<Longrightarrow> plan_sub smp sub payload = (sub, None)"
  by (cases smp) (auto simp: owed_def plan_sub_def build_monitor_frame_def Let_def split: option.splits if_splits)

lemma plan_sub_owed:
  assumes "owed smp sub payload"
  shows "\<exists>f. plan_sub smp sub payload = (charge payload sub, Some f) \<and> frame_for smp sub payload f"
  using assms
  by (cases smp)
    (auto simp: owed_def plan_sub_def build_monitor_frame_def frame_for_def frame_message_def Let_def
      split: option.splits if_splits)

lemma plan_fanout_nth:
  assumes "j < length subs" "plan_sub (clk (i + j)) (subs ! j) payload = (sub', fr)"
  shows "fst (plan_fanout clk i subs payload) ! j = sub' \<and>
    (\<forall>f. fr = Some f \<longrightarrow> f \<in> set (snd (plan_fanout clk i subs payload)))"
  using assms
proof (induction subs arbitrary: i j)
  case (Cons s ss)
  show ?case
  proof (cases j)
    case 0
    then show ?thesis using Cons.prems by (auto simp: Let_def split: prod.splits)
  next
    case (Suc k)
    then show ?thesis
      using Cons.prems Cons.IH [of k "i + 1"] by (auto simp: Let_def split: prod.splits option.splits)
  qed
qed simp

lemma plan_fanout_length: "length (fst (plan_fanout clk i subs payload)) = length subs"
  by (induction subs arbitrary: i) (auto simp: Let_def case_prod_beta)

text \<open>The fan-out only lowers credit.\<close>

lemma charge_credit: "ms_nfree (charge payload sub) \<le> ms_nfree sub"
proof -
  have "x - 1 \<le> x" if "0 < x" for x :: u32
  proof -
    have "1 \<le> x" using that by (simp add: word_le_nat_alt word_less_nat_alt)
    then show ?thesis by (simp add: word_le_nat_alt unat_sub)
  qed
  then show ?thesis by (simp add: charge_def Let_def)
qed

lemma plan_fanout_credit:
  "\<forall>sub \<in> set subs. ms_nfree sub \<le> m \<Longrightarrow> \<forall>sub \<in> set (fst (plan_fanout clk i subs payload)). ms_nfree sub \<le> m"
proof (induction subs arbitrary: i)
  case (Cons sub subs)
  have "ms_nfree (fst (plan_sub (clk i) sub payload)) \<le> ms_nfree sub"
    using plan_sub_owed [of "clk i" sub payload] plan_sub_not_owed [of "clk i" sub payload] charge_credit
    by (cases "owed (clk i) sub payload") auto
  then show ?case using Cons by (auto simp: Let_def case_prod_beta intro: order_trans)
qed simp

end
