(* ===== verification/Spec2Isabelle.thy ===== *)
theory Spec2Isabelle
  imports Segment Nt_Validate Bridge_Patch Channel_Tables Conn_Writer Monitor_Fanout
begin

text \<open>
  A verification development for the pvAccess codec of spvirit.
\<close>

end
